(* ===== verification/Qizo_Prelude.thy ===== *)
theory Qizo_Prelude
  imports Main "HOL-Library.Word"
begin

unbundle bit_operations_syntax

text \<open>
  Shared vocabulary of the development: Python's failures as values, byte strings and
  bytearrays with Python's slicing rules, the \<open>struct\<close> formats the tools use, and the
  contract of a byte store (an image buffer, or the memory of the boot model) that the
  component theories rely on.

  \<^item> \<open>py_error\<close>, \<open>res\<close>, \<open>bindE\<close>, \<open>foldE\<close>: exceptions and their propagation.
  \<^item> \<open>bslice\<close>, \<open>bslice_set\<close>, \<open>blit\<close>: \<open>b[i:j]\<close> and \<open>b[i:j] = d\<close> for \<open>0 \<le> i, j\<close>.
  \<^item> \<open>le_bytes\<close>, \<open>le_nat\<close>, \<open>pack_le\<close>, \<open>unpack_le\<close>, \<open>pack_be\<close>: \<open>struct.pack\<close> and
    \<open>struct.unpack_from\<close> for the unsigned formats B, H, I in both byte orders.
  \<^item> \<open>bstmt\<close>, \<open>run_writes\<close>: a straight-line sequence of statements on one bytearray.
  \<^item> \<open>byte_store\<close>: the interface (read, write, size) with its laws.
\<close>

section \<open>Failures\<close>

text \<open>
  A message of the tools is a format string and its arguments; the rendering of the
  arguments is not modelled, only which message it is and with which values.
\<close>

datatype farg = FI int | FS string

datatype py_error =
    SystemExit string "farg list"
  | ValueError string
  | StructError
  | IndexError
  | KeyError string
  | TypeError
  | UnicodeError
  | StopIteration
  | OSError string

type_synonym 'a res = "py_error + 'a"

definition bindE :: "'a res \<Rightarrow> ('a \<Rightarrow> 'b res) \<Rightarrow> 'b res" where
  "bindE m f = (case m of Inl e \<Rightarrow> Inl e | Inr x \<Rightarrow> f x)"

lemma bindE_simps [simp]:
  "bindE (Inl e) f = Inl e"
  "bindE (Inr x) f = f x"
  by (simp_all add: bindE_def)

lemma bindE_eq_Inr [simp]: "bindE m f = Inr y \<longleftrightarrow> (\<exists>x. m = Inr x \<and> f x = Inr y)"
  by (cases m) auto

lemma bindE_eq_Inl: "bindE m f = Inl e \<longleftrightarrow> m = Inl e \<or> (\<exists>x. m = Inr x \<and> f x = Inl e)"
  by (cases m) auto

lemma bindE_assoc: "bindE (bindE m f) g = bindE m (\<lambda>x. bindE (f x) g)"
  by (cases m) auto

lemma bindE_cong [fundef_cong]:
  assumes "m = m'" and "\<And>x. m' = Inr x \<Longrightarrow> f x = f' x"
  shows "bindE m f = bindE m' f'"
  using assms by (cases m') auto

text \<open>\<open>if c: raise e\<close>, followed by the rest of the body.\<close>

definition guardE :: "bool \<Rightarrow> py_error \<Rightarrow> unit res" where
  "guardE c e = (if c then Inl e else Inr ())"

lemma guardE_simps [simp]:
  "guardE True e = Inl e"
  "guardE False e = Inr ()"
  "guardE c e = Inr u \<longleftrightarrow> \<not> c"
  by (auto simp: guardE_def)

fun foldE :: "('a \<Rightarrow> 's \<Rightarrow> 's res) \<Rightarrow> 'a list \<Rightarrow> 's \<Rightarrow> 's res" where
  "foldE f [] s = Inr s"
| "foldE f (x # xs) s = bindE (f x s) (foldE f xs)"

lemma foldE_append: "foldE f (xs @ ys) s = bindE (foldE f xs s) (foldE f ys)"
proof (induction xs arbitrary: s)
  case (Cons x xs)
  then have "foldE f (xs @ ys) = (\<lambda>t. bindE (foldE f xs t) (foldE f ys))"
    by (intro ext)
  then show ?case by (simp add: bindE_assoc)
qed simp

lemma foldE_nil:
  assumes "\<And>x s. f x s = Inr [] \<Longrightarrow> s = [] \<and> P x"
  shows "foldE f xs s = Inr [] \<Longrightarrow> s = [] \<and> (\<forall>x \<in> set xs. P x)"
proof (induction xs arbitrary: s)
  case (Cons x xs)
  then show ?case using assms by fastforce
qed simp

lemma foldE_id: "(\<And>x s. x \<in> set xs \<Longrightarrow> f x s = Inr s) \<Longrightarrow> foldE f xs s = Inr s"
  by (induction xs) auto

lemma foldE_ok: "(\<And>x s. x \<in> set xs \<Longrightarrow> \<exists>t. f x s = Inr t) \<Longrightarrow> \<exists>t. foldE f xs s = Inr t"
proof (induction xs arbitrary: s)
  case (Cons x xs)
  then obtain t where "f x s = Inr t" by (meson list.set_intros(1))
  then show ?case using Cons by auto
qed simp

lemma foldE_collect:
  "(\<And>x. x \<in> set xs \<Longrightarrow> f x = Inr (h x)) \<Longrightarrow>
   foldE (\<lambda>x acc. bindE (f x) (\<lambda>v. Inr (acc @ v))) xs acc = Inr (acc @ concat (map h xs))"
  by (induction xs arbitrary: acc) auto

lemma foldE_inv:
  assumes "foldE f xs s = Inr t" and "P s"
    and "\<And>x s t. x \<in> set xs \<Longrightarrow> P s \<Longrightarrow> f x s = Inr t \<Longrightarrow> P t"
  shows "P t"
  using assms by (induction xs arbitrary: s) auto

section \<open>Byte strings and slices\<close>

type_synonym byte = "8 word"
type_synonym bytes = "byte list"

text \<open>\<open>b[i:j]\<close>: bounds beyond the end are clipped, an inverted range is empty.\<close>

definition bslice :: "nat \<Rightarrow> nat \<Rightarrow> 'a list \<Rightarrow> 'a list" where
  "bslice i j xs = take (j - i) (drop i xs)"

text \<open>\<open>b[i:j] = d\<close> on a bytearray: bounds are clipped, the length may change.\<close>

definition bslice_set :: "nat \<Rightarrow> nat \<Rightarrow> 'a list \<Rightarrow> 'a list \<Rightarrow> 'a list" where
  "bslice_set i j d xs = take i xs @ d @ drop (max i j) xs"

text \<open>\<open>b[i:i + len(d)] = d\<close>, the form the image builders use.\<close>

definition blit :: "nat \<Rightarrow> 'a list \<Rightarrow> 'a list \<Rightarrow> 'a list" where
  "blit i d xs = bslice_set i (i + length d) d xs"

text \<open>\<open>b[i]\<close> with \<open>i \<ge> 0\<close>, and with any \<open>i\<close> (negative indices count from the end).\<close>

definition bidx :: "'a list \<Rightarrow> nat \<Rightarrow> 'a res" where
  "bidx xs i = (if i < length xs then Inr (xs ! i) else Inl IndexError)"

definition bidx_int :: "'a list \<Rightarrow> int \<Rightarrow> 'a res" where
  "bidx_int xs i =
     (let j = (if i < 0 then i + int (length xs) else i)
      in if 0 \<le> j \<and> j < int (length xs) then Inr (xs ! nat j) else Inl IndexError)"

text \<open>\<open>s.ljust(n, c)\<close>.\<close>

definition ljust :: "nat \<Rightarrow> 'a \<Rightarrow> 'a list \<Rightarrow> 'a list" where
  "ljust n c xs = xs @ replicate (n - length xs) c"

definition zeros :: "nat \<Rightarrow> bytes" where
  "zeros n = replicate n 0"

lemma length_zeros [simp]: "length (zeros n) = n"
  by (simp add: zeros_def)

lemma length_ljust [simp]: "length (ljust n c xs) = max n (length xs)"
  by (simp add: ljust_def)

lemma length_bslice [simp]: "length (bslice i j xs) = min (j - i) (length xs - i)"
  by (simp add: bslice_def)

lemma nth_bslice [simp]: "k < j - i \<Longrightarrow> i + k < length xs \<Longrightarrow> bslice i j xs ! k = xs ! (i + k)"
  by (simp add: bslice_def)

lemma bslice_all [simp]: "length xs \<le> j \<Longrightarrow> bslice 0 j xs = xs"
  by (simp add: bslice_def)

lemma bslice_empty [simp]: "j \<le> i \<Longrightarrow> bslice i j xs = []"
  by (simp add: bslice_def)

lemma bslice_bslice:
  "bslice c d (bslice a b xs) = bslice (a + c) (min (a + d) b) xs"
  by (simp add: bslice_def drop_take min_def ac_simps)

lemma bslice_append_left [simp]: "j \<le> length xs \<Longrightarrow> bslice i j (xs @ ys) = bslice i j xs"
  by (auto simp: bslice_def)

lemma bslice_append_right:
  "length xs \<le> i \<Longrightarrow> bslice i j (xs @ ys) = bslice (i - length xs) (j - length xs) ys"
  by (simp add: bslice_def)

lemma bslice_split: "i \<le> j \<Longrightarrow> j \<le> k \<Longrightarrow> bslice i k xs = bslice i j xs @ bslice j k xs"
proof -
  assume "i \<le> j" "j \<le> k"
  then have "k - i = (j - i) + (k - j)" and "j = (j - i) + i" by auto
  then show ?thesis
    unfolding bslice_def by (metis take_add drop_drop)
qed

lemma bslice_zeros [simp]: "bslice i j (zeros n) = zeros (min (j - i) (n - i))"
  by (simp add: bslice_def zeros_def)

lemma length_blit [simp]: "i + length d \<le> length xs \<Longrightarrow> length (blit i d xs) = length xs"
  by (simp add: blit_def bslice_set_def)

lemma bslice_blit_inside:
  assumes "i + length d \<le> length xs" and "i \<le> a" and "b \<le> i + length d"
  shows "bslice a b (blit i d xs) = bslice (a - i) (b - i) d"
  using assms
  by (cases "a \<le> b") (auto simp: bslice_def blit_def bslice_set_def min_def)

lemma bslice_blit_before:
  assumes "i + length d \<le> length xs" and "b \<le> i"
  shows "bslice a b (blit i d xs) = bslice a b xs"
  using assms by (simp add: bslice_def blit_def bslice_set_def drop_take)

lemma bslice_blit_after:
  assumes "i + length d \<le> length xs" and "i + length d \<le> a"
  shows "bslice a b (blit i d xs) = bslice a b xs"
  using assms by (auto simp: bslice_def blit_def bslice_set_def min_def)

lemmas bslice_blit_outside = bslice_blit_before bslice_blit_after

lemma bslice_blit_same [simp]:
  "i + length d \<le> length xs \<Longrightarrow> bslice i (i + length d) (blit i d xs) = d"
  by (simp add: bslice_blit_inside)

lemma bslice_one: "i < length xs \<Longrightarrow> bslice i (Suc i) xs = [xs ! i]"
  by (simp add: bslice_def take_Suc_conv_app_nth Cons_nth_drop_Suc [symmetric])

lemma nth_via_bslice: "i < length xs \<Longrightarrow> xs ! i = hd (bslice i (Suc i) xs)"
  by (simp add: bslice_one)

lemma bidx_ok [simp]: "i < length xs \<Longrightarrow> bidx xs i = Inr (xs ! i)"
  by (simp add: bidx_def)

lemma bidx_eq_Inr: "bidx xs i = Inr x \<longleftrightarrow> i < length xs \<and> xs ! i = x"
  by (auto simp: bidx_def)

section \<open>The struct formats\<close>

text \<open>Little-endian byte strings of a fixed width and the number they denote.\<close>

fun le_bytes :: "nat \<Rightarrow> nat \<Rightarrow> bytes" where
  "le_bytes 0 v = []"
| "le_bytes (Suc w) v = of_nat v # le_bytes w (v div 256)"

fun le_nat :: "bytes \<Rightarrow> nat" where
  "le_nat [] = 0"
| "le_nat (b # bs) = unat b + 256 * le_nat bs"

lemma length_le_bytes [simp]: "length (le_bytes w v) = w"
  by (induction w arbitrary: v) auto

lemma unat_of_nat_byte: "unat (of_nat v :: byte) = v mod 256"
  by (simp add: unat_of_nat)

lemma le_nat_le_bytes: "le_nat (le_bytes w v) = v mod 256 ^ w"
proof (induction w arbitrary: v)
  case (Suc w)
  have "v mod (256 * 256 ^ w) = v mod 256 + 256 * (v div 256 mod 256 ^ w)"
    by (simp add: mod_mult2_eq)
  with Suc show ?case by (simp add: unat_of_nat_byte)
qed simp

lemma le_nat_le_bytes_id [simp]: "v < 256 ^ w \<Longrightarrow> le_nat (le_bytes w v) = v"
  by (simp add: le_nat_le_bytes)

lemma unat_byte_less [simp]: "unat (b :: byte) < 256"
  using unsigned_less [of b] by simp

lemma le_nat_less: "le_nat bs < 256 ^ length bs"
proof (induction bs)
  case (Cons b bs)
  have "unat b + 256 * le_nat bs < 256 + 256 * le_nat bs" by simp
  also have "\<dots> \<le> 256 * 256 ^ length bs" using Cons by simp
  finally show ?case by simp
qed simp

lemma le_bytes_le_nat [simp]: "le_bytes (length bs) (le_nat bs) = bs"
proof (induction bs)
  case (Cons b bs)
  have "(unat b + 256 * le_nat bs) div 256 = le_nat bs" by simp
  moreover have "(of_nat (unat b + 256 * le_nat bs) :: byte) = b"
    by (simp only: word_unat_eq_iff unat_of_nat_byte) simp
  ultimately show ?case using Cons by simp
qed simp

lemma le_nat_append: "le_nat (xs @ ys) = le_nat xs + 256 ^ length xs * le_nat ys"
  by (induction xs) (auto simp: algebra_simps)

lemma le_nat_zeros [simp]: "le_nat (zeros n) = 0"
  by (induction n) (auto simp: zeros_def)

text \<open>
  \<open>struct.pack\<close> with one unsigned little-endian (\<open>pack_le\<close>) or big-endian (\<open>pack_be\<close>)
  item of \<open>w\<close> bytes: a value outside the range raises \<open>struct.error\<close>.
\<close>

definition pack_le :: "nat \<Rightarrow> int \<Rightarrow> bytes res" where
  "pack_le w v = (if 0 \<le> v \<and> v < 256 ^ w then Inr (le_bytes w (nat v)) else Inl StructError)"

definition pack_be :: "nat \<Rightarrow> int \<Rightarrow> bytes res" where
  "pack_be w v = (if 0 \<le> v \<and> v < 256 ^ w then Inr (rev (le_bytes w (nat v))) else Inl StructError)"

text \<open>\<open>struct.unpack_from\<close> of one item at an offset: a short buffer raises \<open>struct.error\<close>.\<close>

definition unpack_le :: "nat \<Rightarrow> bytes \<Rightarrow> nat \<Rightarrow> nat res" where
  "unpack_le w xs off =
     (if off + w \<le> length xs then Inr (le_nat (bslice off (off + w) xs)) else Inl StructError)"

definition unpack_be :: "nat \<Rightarrow> bytes \<Rightarrow> nat \<Rightarrow> nat res" where
  "unpack_be w xs off =
     (if off + w \<le> length xs then Inr (le_nat (rev (bslice off (off + w) xs))) else Inl StructError)"

lemma nat_less_pow256 [simp]: "0 \<le> v \<Longrightarrow> nat v < 256 ^ w \<longleftrightarrow> v < 256 ^ w"
  by (simp add: nat_less_iff)

lemma int_less_pow256 [simp]: "int n < 256 ^ w \<longleftrightarrow> n < 256 ^ w"
proof -
  have "(256 :: int) ^ w = int (256 ^ w)" by simp
  then show ?thesis by (simp only: of_nat_less_iff)
qed

lemma pack_le_eq_Inr:
  "pack_le w v = Inr d \<longleftrightarrow> 0 \<le> v \<and> v < 256 ^ w \<and> d = le_bytes w (nat v)"
  by (auto simp: pack_le_def)

lemma pack_le_int [simp]: "n < 256 ^ w \<Longrightarrow> pack_le w (int n) = Inr (le_bytes w n)"
  by (simp add: pack_le_def)

lemma unpack_le_ok:
  "off + w \<le> length xs \<Longrightarrow> unpack_le w xs off = Inr (le_nat (bslice off (off + w) xs))"
  by (simp add: unpack_le_def)

lemma unpack_le_eq_Inr:
  "unpack_le w xs off = Inr v \<longleftrightarrow> off + w \<le> length xs \<and> v = le_nat (bslice off (off + w) xs)"
  by (auto simp: unpack_le_def)

lemma unpack_le_less: "unpack_le w xs off = Inr v \<Longrightarrow> v < 256 ^ w"
  using le_nat_less [of "bslice off (off + w) xs"]
  by (auto simp: unpack_le_eq_Inr min_def split: if_splits)

lemma zeros_add: "zeros (m + n) = zeros m @ zeros n"
  by (simp add: zeros_def replicate_add)

lemma le_bytes_0: "le_bytes n 0 = zeros n"
  by (induction n) (simp_all add: zeros_def)

lemma le_bytes_8: "le_bytes 8 v = le_bytes 4 v @ le_bytes 4 (v div 2 ^ 32)"
proof -
  have "le_bytes (n + m) v = le_bytes n v @ le_bytes m (v div 256 ^ n)" for n m
    by (induction n arbitrary: v) (simp_all add: div_mult2_eq)
  from this [of 4 4] show ?thesis by simp
qed

lemma bslice_concat:
  assumes "\<And>x. length (f x) = w"
  shows "k < length xs \<Longrightarrow> bslice (k * w) (k * w + w) (concat (map f xs)) = f (xs ! k)"
proof (induction xs arbitrary: k)
  case (Cons x xs)
  show ?case
  proof (cases k)
    case 0
    then show ?thesis using assms [of x] by simp
  next
    case (Suc j)
    then show ?thesis using Cons.IH [of j] Cons.prems assms [of x] bslice_append_right [of "f x" "k * w" "k * w + w" "concat (map f xs)"] by (simp add: add.commute)
  qed
qed simp

section \<open>Masks and shifts\<close>

lemma push_bit_or_add: "x < 2 ^ n \<Longrightarrow> push_bit n y OR x = push_bit n y + x" for x y :: nat
proof -
  assume "x < 2 ^ n"
  then have "take_bit n x = x" by (simp add: take_bit_nat_eq_self)
  have "push_bit n y AND x = 0"
  proof (rule bit_eqI)
    fix k
    have "bit x k \<Longrightarrow> k < n"
      using \<open>take_bit n x = x\<close> by (metis bit_take_bit_iff)
    then show "bit (push_bit n y AND x) k \<longleftrightarrow> bit 0 k"
      by (auto simp: bit_simps)
  qed
  then show ?thesis by (simp add: disjunctive_add_eq_or)
qed

lemma and_mask_mod: "x AND 0xFFFF = x mod 65536" "x AND 0xFF = x mod 256" "x AND 0x0F = x mod 16"
  for x :: nat
  using take_bit_eq_mask [of 16 x] take_bit_eq_mask [of 8 x] take_bit_eq_mask [of 4 x]
  by (simp_all add: mask_eq_exp_minus_1 take_bit_eq_mod)

section \<open>Statements on one bytearray\<close>

text \<open>
  \<open>PackInto w off v\<close> is \<open>struct.pack_into(fmt, buf, off, v)\<close> with an item of \<open>w\<close> bytes,
  \<open>SetByte off v\<close> is \<open>buf[off] = v\<close>, \<open>SetSlice i j d\<close> is \<open>buf[i:j] = d\<close>.
\<close>

datatype bstmt =
    PackInto nat nat int
  | SetByte nat int
  | SetSlice nat nat bytes

fun do_write :: "bstmt \<Rightarrow> bytes \<Rightarrow> bytes res" where
  "do_write (PackInto w off v) buf =
     bindE (pack_le w v)
       (\<lambda>d. if off + w \<le> length buf then Inr (blit off d buf) else Inl StructError)"
| "do_write (SetByte off v) buf =
     (if off < length buf
      then if 0 \<le> v \<and> v < 256 then Inr (buf[off := of_int v]) else Inl (ValueError ''byte must be in range(0, 256)'')
      else Inl IndexError)"
| "do_write (SetSlice i j d) buf = Inr (bslice_set i j d buf)"

definition run_writes :: "bstmt list \<Rightarrow> bytes \<Rightarrow> bytes res" where
  "run_writes = foldE do_write"

text \<open>The region a length-preserving statement writes, and what it leaves there.\<close>

fun wr_off :: "bstmt \<Rightarrow> nat" where
  "wr_off (PackInto w off v) = off"
| "wr_off (SetByte off v) = off"
| "wr_off (SetSlice i j d) = i"

fun wr_data :: "bstmt \<Rightarrow> bytes" where
  "wr_data (PackInto w off v) = le_bytes w (nat v)"
| "wr_data (SetByte off v) = [of_int v]"
| "wr_data (SetSlice i j d) = d"

fun wr_ok :: "nat \<Rightarrow> bstmt \<Rightarrow> bool" where
  "wr_ok n (PackInto w off v) = (0 \<le> v \<and> v < 256 ^ w \<and> off + w \<le> n)"
| "wr_ok n (SetByte off v) = (0 \<le> v \<and> v < 256 \<and> off < n)"
| "wr_ok n (SetSlice i j d) = (j = i + length d \<and> j \<le> n)"

lemma list_update_blit: "off < length buf \<Longrightarrow> buf[off := b] = blit off [b] buf"
  by (simp add: blit_def bslice_set_def upd_conv_take_nth_drop max_def)

lemma do_write_ok:
  "wr_ok (length buf) st \<Longrightarrow> do_write st buf = Inr (blit (wr_off st) (wr_data st) buf)"
  by (cases st) (auto simp: pack_le_def list_update_blit blit_def)

lemma wr_ok_bound: "wr_ok n st \<Longrightarrow> wr_off st + length (wr_data st) \<le> n"
  by (cases st) auto

definition wr_all :: "bstmt list \<Rightarrow> bytes \<Rightarrow> bytes" where
  "wr_all sts buf = fold (\<lambda>st. blit (wr_off st) (wr_data st)) sts buf"

lemma wr_all_simps [simp]:
  "wr_all [] buf = buf"
  "wr_all (st # sts) buf = wr_all sts (blit (wr_off st) (wr_data st) buf)"
  by (simp_all add: wr_all_def)

lemma wr_all_append: "wr_all (xs @ ys) buf = wr_all ys (wr_all xs buf)"
  by (simp add: wr_all_def)

lemma length_wr_all: "\<forall>st \<in> set sts. wr_ok (length buf) st \<Longrightarrow> length (wr_all sts buf) = length buf"
  by (induction sts arbitrary: buf) (auto simp: wr_ok_bound)

lemma run_writes_ok:
  "\<forall>st \<in> set sts. wr_ok (length buf) st \<Longrightarrow> run_writes sts buf = Inr (wr_all sts buf)"
  by (induction sts arbitrary: buf) (auto simp: run_writes_def do_write_ok wr_ok_bound)

lemma bslice_wr_all_frame:
  assumes "\<forall>st \<in> set sts. wr_ok (length buf) st \<and>
             (b \<le> wr_off st \<or> wr_off st + length (wr_data st) \<le> a)"
  shows "bslice a b (wr_all sts buf) = bslice a b buf"
  using assms
proof (induction sts arbitrary: buf)
  case (Cons st sts)
  then have "wr_off st + length (wr_data st) \<le> length buf" by (simp add: wr_ok_bound)
  with Cons show ?case by (auto simp: bslice_blit_outside)
qed simp

lemma bslice_wr_all_at:
  assumes "sts = pre @ st # post"
    and "\<forall>st \<in> set sts. wr_ok (length buf) st"
    and "\<forall>st' \<in> set post. b \<le> wr_off st' \<or> wr_off st' + length (wr_data st') \<le> a"
    and "wr_off st \<le> a" and "b \<le> wr_off st + length (wr_data st)"
  shows "bslice a b (wr_all sts buf) = bslice (a - wr_off st) (b - wr_off st) (wr_data st)"
proof -
  let ?b1 = "wr_all pre buf"
  let ?b2 = "blit (wr_off st) (wr_data st) ?b1"
  have l1: "length ?b1 = length buf" using assms(1,2) by (simp add: length_wr_all)
  have w: "wr_off st + length (wr_data st) \<le> length ?b1"
    using assms(1,2) by (simp add: l1 wr_ok_bound)
  have "bslice a b (wr_all sts buf) = bslice a b (wr_all post ?b2)"
    by (simp add: assms(1) wr_all_append)
  also have "\<dots> = bslice a b ?b2"
    using assms(1-3) w l1 by (intro bslice_wr_all_frame) auto
  also have "\<dots> = bslice (a - wr_off st) (b - wr_off st) (wr_data st)"
    using w assms(4,5) by (intro bslice_blit_inside)
  finally show ?thesis .
qed

text \<open>Reading a range of the final buffer: the last statement that covers it decides.\<close>

fun wr_read :: "nat \<Rightarrow> nat \<Rightarrow> bstmt list \<Rightarrow> bytes \<Rightarrow> bytes" where
  "wr_read a b [] buf = bslice a b buf"
| "wr_read a b (st # sts) buf =
     (if wr_off st \<le> a \<and> b \<le> wr_off st + length (wr_data st)
      then bslice (a - wr_off st) (b - wr_off st) (wr_data st)
      else if b \<le> wr_off st \<or> wr_off st + length (wr_data st) \<le> a then wr_read a b sts buf
      else bslice a b (wr_all (rev (st # sts)) buf))"

lemma bslice_wr_all_rev:
  "\<forall>st \<in> set sts. wr_ok (length buf) st \<Longrightarrow> bslice a b (wr_all (rev sts) buf) = wr_read a b sts buf"
proof (induction sts)
  case (Cons st sts)
  then have "length (wr_all (rev sts) buf) = length buf" by (simp add: length_wr_all)
  moreover have "wr_off st + length (wr_data st) \<le> length buf" using Cons.prems by (simp add: wr_ok_bound)
  ultimately show ?case
    using Cons by (auto simp: wr_all_append bslice_blit_inside bslice_blit_outside)
qed simp

lemma bslice_wr_all:
  "\<forall>st \<in> set sts. wr_ok (length buf) st \<Longrightarrow> bslice a b (wr_all sts buf) = wr_read a b (rev sts) buf"
  using bslice_wr_all_rev [of "rev sts"] by simp

lemma nth_wr_all:
  "\<forall>st \<in> set sts. wr_ok (length buf) st \<Longrightarrow> i < length buf \<Longrightarrow>
   wr_all sts buf ! i = hd (wr_read i (Suc i) (rev sts) buf)"
  by (metis nth_via_bslice length_wr_all bslice_wr_all)

section \<open>Text\<close>

text \<open>\<open>str.encode()\<close>: UTF-8 of the code points below 256.\<close>

definition encode_char :: "char \<Rightarrow> bytes" where
  "encode_char c = (let n = (of_char c :: nat) in
     if n < 128 then [of_nat n] else [of_nat (0xC0 + n div 64), of_nat (0x80 + n mod 64)])"

definition encode :: "string \<Rightarrow> bytes" where
  "encode s = concat (map encode_char s)"

definition ascii :: "string \<Rightarrow> bool" where
  "ascii s \<longleftrightarrow> (\<forall>c \<in> set s. (of_char c :: nat) < 128)"

lemma ascii_simps [simp]: "ascii []" "ascii (c # s) \<longleftrightarrow> (of_char c :: nat) < 128 \<and> ascii s"
  "ascii (s @ t) \<longleftrightarrow> ascii s \<and> ascii t" "ascii (rev s) \<longleftrightarrow> ascii s"
  by (auto simp: ascii_def)

lemma ascii_subset: "ascii s \<Longrightarrow> set t \<subseteq> set s \<Longrightarrow> ascii t"
  by (auto simp: ascii_def)

lemma encode_ascii: "ascii s \<Longrightarrow> encode s = map (\<lambda>c. of_nat (of_char c)) s"
  by (induction s) (simp_all add: encode_def encode_char_def)

lemma length_encode_ascii [simp]: "ascii s \<Longrightarrow> length (encode s) = length s"
  by (simp add: encode_ascii)

lemma length_encode_le: "length (encode s) \<le> 2 * length s"
  by (induction s) (auto simp: encode_def encode_char_def Let_def)
lemma ascii_take: "ascii s \<Longrightarrow> ascii (take n s)"
  by (erule ascii_subset) (rule set_take_subset)

lemma ascii_ljust: "ascii s \<Longrightarrow> ascii (ljust n CHR '' '' s)"
  by (auto simp: ljust_def ascii_def)

section \<open>The contract of a byte store\<close>

text \<open>
  What the image builder relies on in its bytearray and what the boot model relies on in
  its memory: a write inside the store keeps its size, is read back, and leaves every
  disjoint range alone; a read is a window on any larger read.
\<close>

locale byte_store =
  fixes rd :: "'m \<Rightarrow> nat \<Rightarrow> nat \<Rightarrow> bytes"
    and wr :: "'m \<Rightarrow> nat \<Rightarrow> bytes \<Rightarrow> 'm"
    and sz :: "'m \<Rightarrow> nat"
  assumes sz_wr: "a + length d \<le> sz m \<Longrightarrow> sz (wr m a d) = sz m"
    and rd_wr_same: "a + length d \<le> sz m \<Longrightarrow> rd (wr m a d) a (length d) = d"
    and rd_wr_disj: "a + length d \<le> sz m \<Longrightarrow> c + n \<le> a \<or> a + length d \<le> c \<Longrightarrow>
                     rd (wr m a d) c n = rd m c n"
    and rd_window: "k + n \<le> l \<Longrightarrow> rd m (a + k) n = take n (drop k (rd m a l))"
begin

lemma rd_wr_window:
  "a + length d \<le> sz m \<Longrightarrow> k + n \<le> length d \<Longrightarrow> rd (wr m a d) (a + k) n = take n (drop k d)"
  by (simp add: rd_window [of k n "length d"] rd_wr_same)

lemma get_put_le:
  "a + w \<le> sz m \<Longrightarrow> v < 256 ^ w \<Longrightarrow> le_nat (rd (wr m a (le_bytes w v)) a w) = v"
  using rd_wr_same [of a "le_bytes w v" m] by simp

lemma rd_prefix:
  assumes "a + length d \<le> sz m" and "n \<le> length d"
  shows "rd (wr m a d) a n = take n d"
  using rd_wr_window [of a d m 0 n] assms by simp

lemma rd_append: "rd m a (n + k) = rd m a n @ rd m (a + n) k"
proof -
  let ?X = "rd m a (n + k)"
  have "rd m a n = take n ?X" using rd_window [of 0 n "n + k" m a] by simp
  moreover have "rd m (a + n) k = take k (drop n ?X)" by (rule rd_window) simp
  moreover have "?X = take (n + k) ?X" using rd_window [of 0 "n + k" "n + k" m a] by simp
  ultimately show ?thesis by (metis take_add)
qed

fun wr_list :: "(nat \<times> bytes) list \<Rightarrow> 'm \<Rightarrow> 'm" where
  "wr_list [] m = m"
| "wr_list ((a, d) # ws) m = wr_list ws (wr m a d)"

lemma sz_wr_list:
  "\<forall>(a, d) \<in> set ws. a + length d \<le> sz m \<Longrightarrow> sz (wr_list ws m) = sz m"
  by (induction ws m rule: wr_list.induct) (auto simp: sz_wr)

lemma rd_wr_list_frame:
  "\<forall>(a, d) \<in> set ws. a + length d \<le> sz m \<and> (c + n \<le> a \<or> a + length d \<le> c) \<Longrightarrow>
   rd (wr_list ws m) c n = rd m c n"
  by (induction ws m rule: wr_list.induct) (auto simp: sz_wr rd_wr_disj)

end

interpretation buf: byte_store
  "\<lambda>xs a n. bslice a (a + n) xs" "\<lambda>xs a d. blit a d xs" length
proof unfold_locales
  fix a c n :: nat and d m :: bytes
  assume "a + length d \<le> length m" and "c + n \<le> a \<or> a + length d \<le> c"
  then show "bslice c (c + n) (blit a d m) = bslice c (c + n) m"
    by (auto simp: bslice_blit_outside)
next
  fix k n l a :: nat and m :: bytes
  assume "k + n \<le> l"
  then show "bslice (a + k) (a + k + n) m = take n (drop k (bslice a (a + l) m))"
    by (simp add: bslice_def drop_take ac_simps)
qed simp_all

end
