(* ===== verification/Qizo_Layout.thy ===== *)
theory Qizo_Layout
  imports Qizo_Prelude "HOL-Library.AList"
begin

text \<open>
  The shared layout constants: \<^verbatim>\<open>src/tools/common/qizolayout.py\<close> parses
  \<^verbatim>\<open>src/boot/qizoboot.inc\<close> (\<open>parse\<close>, with the regular expression as \<open>parse_line\<close> and
  \<open>int(expr, 0)\<close> as \<open>py_int0\<close>) and names the values the tools use. Python's \<open>eval\<close>, which
  \<open>parse\<close> calls when \<open>int\<close> refuses an expression, is a parameter whose results are the
  values of \<open>pyval\<close>. The text of the include file is \<open>qizoboot_inc\<close>; \<open>parse_qizoboot_inc\<close>
  runs the parser on it and gives the table \<open>LAYOUT\<close>, in which every named constant is looked
  up. The remaining lemmas are the layout checks of \<^verbatim>\<open>src/tools/qizocheck/qizotest.py\<close>.
\<close>

named_theorems layout_defs

section \<open>The parser\<close>

text \<open>Whitespace (\<open>\s\<close>, \<open>str.strip\<close>) and word characters (\<open>\w\<close>) among the code points below 256.\<close>

definition is_ws :: "char \<Rightarrow> bool" where
  "is_ws c = (let n = (of_char c :: int) in 9 \<le> n \<and> n \<le> 13 \<or> 28 \<le> n \<and> n \<le> 32 \<or> n = 0x85 \<or> n = 0xA0)"

definition is_word :: "char \<Rightarrow> bool" where
  "is_word c = (let n = (of_char c :: int) in
     48 \<le> n \<and> n \<le> 57 \<or> 65 \<le> n \<and> n \<le> 90 \<or> n = 95 \<or> 97 \<le> n \<and> n \<le> 122
     \<or> n \<in> {0xAA, 0xB2, 0xB3, 0xB5, 0xB9, 0xBA, 0xBC, 0xBD, 0xBE}
     \<or> 0xC0 \<le> n \<and> n \<noteq> 0xD7 \<and> n \<noteq> 0xF7)"

definition nl :: string where "nl = [CHR 0x0A]"

definition strip_ws :: "string \<Rightarrow> string" where
  "strip_ws s = rev (dropWhile is_ws (rev (dropWhile is_ws s)))"

text \<open>
  The match of \<^verbatim>\<open>^\s*\.set\s+(\w+)\s*,\s*(.+?)\s*$\<close> at the start of a line: the name and the
  stripped expression. When only white space follows the comma, the second group is one of
  its characters (never a newline), which strips to the empty string.
\<close>

definition parse_line :: "string \<Rightarrow> (string \<times> string) option" where
  "parse_line line =
     (let s = dropWhile is_ws line in
      if take 4 s = ''.set'' then
        let r = drop 4 s; r1 = dropWhile is_ws r;
            name = takeWhile is_word r1; r2 = dropWhile is_ws (dropWhile is_word r1)
        in if r = r1 \<or> name = [] then None
           else case r2 of
             [] \<Rightarrow> None
           | c # r3 \<Rightarrow>
               if c \<noteq> CHR '','' then None
               else let e = strip_ws r3 in
                 if CHR 0x0A \<in> set e then None
                 else if e = [] \<and> set r3 \<subseteq> {CHR 0x0A} then None
                 else Some (name, e)
      else None)"

text \<open>\<open>int(expr, 0)\<close> on a stripped string: \<open>None\<close> is \<open>ValueError\<close>.\<close>

definition digit_of :: "char \<Rightarrow> int option" where
  "digit_of c = (let n = (of_char c :: int) in
     if 48 \<le> n \<and> n \<le> 57 then Some (n - 48)
     else if 65 \<le> n \<and> n \<le> 90 then Some (n - 55)
     else if 97 \<le> n \<and> n \<le> 122 then Some (n - 87) else None)"

fun digits_val :: "int \<Rightarrow> int \<Rightarrow> bool \<Rightarrow> string \<Rightarrow> int option" where
  "digits_val b acc ok [] = (if ok then Some acc else None)"
| "digits_val b acc ok (c # cs) =
     (if c = CHR ''_'' then (if ok then digits_val b acc False cs else None)
      else case digit_of c of
        None \<Rightarrow> None
      | Some d \<Rightarrow> if d < b then digits_val b (acc * b + d) True cs else None)"

definition prefixed_val :: "int \<Rightarrow> string \<Rightarrow> int option" where
  "prefixed_val b cs = (if cs = [] then None else digits_val b 0 True cs)"

definition unsigned_val :: "string \<Rightarrow> int option" where
  "unsigned_val s =
     (case s of
        c # x # cs \<Rightarrow>
          if c = CHR ''0'' \<and> (x = CHR ''x'' \<or> x = CHR ''X'') then prefixed_val 16 cs
          else if c = CHR ''0'' \<and> (x = CHR ''o'' \<or> x = CHR ''O'') then prefixed_val 8 cs
          else if c = CHR ''0'' \<and> (x = CHR ''b'' \<or> x = CHR ''B'') then prefixed_val 2 cs
          else (case digits_val 10 0 False s of
                  None \<Rightarrow> None
                | Some v \<Rightarrow> if c = CHR ''0'' \<and> v \<noteq> 0 then None else Some v)
      | _ \<Rightarrow> digits_val 10 0 False s)"

definition py_int0 :: "string \<Rightarrow> int option" where
  "py_int0 s =
     (case s of
        c # cs \<Rightarrow> if c = CHR ''-'' then map_option (\<lambda>v. - v) (unsigned_val cs)
                  else if c = CHR ''+'' then unsigned_val cs
                  else unsigned_val s
      | [] \<Rightarrow> None)"

text \<open>A Python value as far as the tools tell values apart: an integer (a \<open>bool\<close> is one), or anything else.\<close>

datatype pyval = VInt int | VOther

text \<open>
  \<open>parse\<close>: one dictionary entry per matching line. \<open>ev vals expr\<close> stands for
  \<open>eval(expr, dict(vals))\<close>, with \<open>None\<close> for any exception it raises.
\<close>

definition parse_step ::
    "((string \<times> pyval) list \<Rightarrow> string \<Rightarrow> pyval option) \<Rightarrow> string \<Rightarrow> (string \<times> pyval) list \<Rightarrow> (string \<times> pyval) list res" where
  "parse_step ev line vals =
     (case parse_line line of
        None \<Rightarrow> Inr vals
      | Some (name, expr) \<Rightarrow>
          (case py_int0 expr of
             Some v \<Rightarrow> Inr (AList.update name (VInt v) vals)
           | None \<Rightarrow>
               (case ev vals expr of
                  Some v \<Rightarrow> Inr (AList.update name v vals)
                | None \<Rightarrow> Inl (SystemExit ''qizo: cannot evaluate layout symbol %s'' [FS name]))))"

definition parse ::
    "((string \<times> pyval) list \<Rightarrow> string \<Rightarrow> pyval option) \<Rightarrow> string list \<Rightarrow> (string \<times> pyval) list res" where
  "parse ev lines = foldE (parse_step ev) lines []"

section \<open>The include file and the table\<close>

definition qizoboot_inc :: "string list" where
  "qizoboot_inc = [
   ''.set QIZO_PART_LBA, 16'' @ nl,
   ''.set QIZO_STAGE2_SECTORS, 8'' @ nl,
   ''.set QIZO_STAGE2_BYTES, 0x1000'' @ nl,
   ''.set QIZO_BLOB_LBA, 24'' @ nl,
   ''.set QIZO_BLOB_MAX, 248 * 512'' @ nl,
   ''.set QIZO_BIOS_ARG, 0x7DD0'' @ nl,
   ''.set QIZO_ARG_ADDR, 0x7DD0'' @ nl,
   ''.set QIZO_DAP_ADDR, 0x7E00'' @ nl,
   ''.set QIZO_ARG_DRIVE, 0'' @ nl,
   ''.set QIZO_ARG_LBA, 4'' @ nl,
   ''.set QIZO_ARG_TOTAL, 8'' @ nl,
   ''.set QIZO_ARG_CRC, 12'' @ nl,
   ''.set QIZO_ARG_ERR, 16'' @ nl,
   ''.set QIZO_ARG_BOOTDRIVE, 1'' @ nl,
   ''.set QIZO_ARG_TRY, 2'' @ nl,
   ''.set QIZO_ARG_SIZE, 20'' @ nl,
   '''' @ nl,
   ''.set QIZO_STAGE2, 0x20000'' @ nl,
   ''.set QIZO_STAGE2_SEG, 0x2000'' @ nl,
   ''.set QIZO_BLOB_PHYS, 0x21000'' @ nl,
   ''.set QIZO_E820_SEG, 0x4100'' @ nl,
   ''.set QIZO_E820_BUF, 0x41000'' @ nl,
   ''.set QIZO_E820_CNT, 0x41300'' @ nl,
   ''.set QIZO_E820_OFS, 0'' @ nl,
   ''.set QIZO_E820_CNT_OFS, 0x300'' @ nl,
   ''.set QIZO_PM_STACK, 0x44000'' @ nl,
   ''.set QIZO_BOOTINFO, 0x10000'' @ nl,
   ''.set QIZO_BOOTINFO_SEG, 0x1000'' @ nl,
   ''.set QIZO_SCRATCH, 0x180000'' @ nl,
   ''.set QIZO_KTEXT, 0x100000'' @ nl,
   ''.set QIZO_PAGE_PML4, 0x300000'' @ nl,
   ''.set QIZO_PAGE_PDPT, 0x301000'' @ nl,
   ''.set QIZO_PAGE_PDT, 0x302000'' @ nl,
   ''.set QIZO_IDT_BOOT, 0x307000'' @ nl,
   ''.set QIZO_PT_PAGE, 0x83'' @ nl,
   ''.set QIZO_PT_DIR, 0x03'' @ nl,
   '''' @ nl,
   ''.set QIZO_BI_MAGIC, 0'' @ nl,
   ''.set QIZO_BI_DRIVE, 4'' @ nl,
   ''.set QIZO_BI_MODE, 5'' @ nl,
   ''.set QIZO_BI_ERR, 6'' @ nl,
   ''.set QIZO_BI_BLOB_LBA, 8'' @ nl,
   ''.set QIZO_BI_BLOB_SECTORS, 12'' @ nl,
   ''.set QIZO_BI_BLOB_CRC, 16'' @ nl,
   ''.set QIZO_BI_BLOB_PHYS, 20'' @ nl,
   ''.set QIZO_BI_BLOB_SIZE, 24'' @ nl,
   ''.set QIZO_BI_SCRATCH, 28'' @ nl,
   ''.set QIZO_BI_KTEXT, 0x30'' @ nl,
   ''.set QIZO_BI_KERNEL_SIZE, 0x34'' @ nl,
   ''.set QIZO_BI_KERNEL_ENTRY, 0x38'' @ nl,
   ''.set QIZO_BI_KERNEL_TOTAL, 0x3C'' @ nl,
   ''.set QIZO_BI_KERNEL_BSS, 0x40'' @ nl,
   ''.set QIZO_BI_FLAGS, 0x44'' @ nl,
   ''.set QIZO_BI_CPUS, 0x50'' @ nl,
   ''.set QIZO_BI_CPUID_MAX, 0x54'' @ nl,
   ''.set QIZO_BI_LONGMODE, 0x58'' @ nl,
   ''.set QIZO_BI_A20, 0x59'' @ nl,
   ''.set QIZO_BI_E820, 0x100'' @ nl,
   ''.set QIZO_BI_E820_N, 0x400'' @ nl,
   ''.set QIZO_BI_VENDOR, 0x600'' @ nl,
   ''.set QIZO_BI_BRAND, 0x610'' @ nl,
   ''.set QIZO_BI_TOTAL_RAM, 0x670'' @ nl,
   ''.set QIZO_BI_SIZE, 0x700'' @ nl,
   '''' @ nl,
   ''.set QIZO_LZSS_MAGIC, 0x51495A4C'' @ nl,
   ''.set QIZO_QIZOK_MAGIC, 0x4B4F5A49'' @ nl,
   ''.set QIZO_QIZOK_HDR, 64'' @ nl,
   ''.set QIZO_E820_ENT, 24'' @ nl,
   ''.set QIZO_E820_MAX, 32'' @ nl,
   ''.set QIZO_KERNEL_MAX, 0x80000'' @ nl,
   '''' @ nl,
   ''.set QIZO_BLOB_SECTORS_MAX, 248'' @ nl,
   '''' @ nl,
   ''.set QIZO_COM1, 0x3F8'' @ nl,
   ''.set QIZO_BOOT_TRACE, 1'' @ nl,
   ''.set QIZO_BOOTVER, 0x0100'' @ nl]"

definition LAYOUT :: "(string \<times> int) list" where
  "LAYOUT = [
   (''QIZO_PART_LBA'', 16),
   (''QIZO_STAGE2_SECTORS'', 8),
   (''QIZO_STAGE2_BYTES'', 4096),
   (''QIZO_BLOB_LBA'', 24),
   (''QIZO_BLOB_MAX'', 126976),
   (''QIZO_BIOS_ARG'', 32208),
   (''QIZO_ARG_ADDR'', 32208),
   (''QIZO_DAP_ADDR'', 32256),
   (''QIZO_ARG_DRIVE'', 0),
   (''QIZO_ARG_LBA'', 4),
   (''QIZO_ARG_TOTAL'', 8),
   (''QIZO_ARG_CRC'', 12),
   (''QIZO_ARG_ERR'', 16),
   (''QIZO_ARG_BOOTDRIVE'', 1),
   (''QIZO_ARG_TRY'', 2),
   (''QIZO_ARG_SIZE'', 20),
   (''QIZO_STAGE2'', 131072),
   (''QIZO_STAGE2_SEG'', 8192),
   (''QIZO_BLOB_PHYS'', 135168),
   (''QIZO_E820_SEG'', 16640),
   (''QIZO_E820_BUF'', 266240),
   (''QIZO_E820_CNT'', 267008),
   (''QIZO_E820_OFS'', 0),
   (''QIZO_E820_CNT_OFS'', 768),
   (''QIZO_PM_STACK'', 278528),
   (''QIZO_BOOTINFO'', 65536),
   (''QIZO_BOOTINFO_SEG'', 4096),
   (''QIZO_SCRATCH'', 1572864),
   (''QIZO_KTEXT'', 1048576),
   (''QIZO_PAGE_PML4'', 3145728),
   (''QIZO_PAGE_PDPT'', 3149824),
   (''QIZO_PAGE_PDT'', 3153920),
   (''QIZO_IDT_BOOT'', 3174400),
   (''QIZO_PT_PAGE'', 131),
   (''QIZO_PT_DIR'', 3),
   (''QIZO_BI_MAGIC'', 0),
   (''QIZO_BI_DRIVE'', 4),
   (''QIZO_BI_MODE'', 5),
   (''QIZO_BI_ERR'', 6),
   (''QIZO_BI_BLOB_LBA'', 8),
   (''QIZO_BI_BLOB_SECTORS'', 12),
   (''QIZO_BI_BLOB_CRC'', 16),
   (''QIZO_BI_BLOB_PHYS'', 20),
   (''QIZO_BI_BLOB_SIZE'', 24),
   (''QIZO_BI_SCRATCH'', 28),
   (''QIZO_BI_KTEXT'', 48),
   (''QIZO_BI_KERNEL_SIZE'', 52),
   (''QIZO_BI_KERNEL_ENTRY'', 56),
   (''QIZO_BI_KERNEL_TOTAL'', 60),
   (''QIZO_BI_KERNEL_BSS'', 64),
   (''QIZO_BI_FLAGS'', 68),
   (''QIZO_BI_CPUS'', 80),
   (''QIZO_BI_CPUID_MAX'', 84),
   (''QIZO_BI_LONGMODE'', 88),
   (''QIZO_BI_A20'', 89),
   (''QIZO_BI_E820'', 256),
   (''QIZO_BI_E820_N'', 1024),
   (''QIZO_BI_VENDOR'', 1536),
   (''QIZO_BI_BRAND'', 1552),
   (''QIZO_BI_TOTAL_RAM'', 1648),
   (''QIZO_BI_SIZE'', 1792),
   (''QIZO_LZSS_MAGIC'', 1363761740),
   (''QIZO_QIZOK_MAGIC'', 1263491657),
   (''QIZO_QIZOK_HDR'', 64),
   (''QIZO_E820_ENT'', 24),
   (''QIZO_E820_MAX'', 32),
   (''QIZO_KERNEL_MAX'', 524288),
   (''QIZO_BLOB_SECTORS_MAX'', 248),
   (''QIZO_COM1'', 1016),
   (''QIZO_BOOT_TRACE'', 1),
   (''QIZO_BOOTVER'', 256)]"

definition g :: "string \<Rightarrow> int res" where
  "g name = (case map_of LAYOUT name of None \<Rightarrow> Inl (KeyError name) | Some v \<Rightarrow> Inr v)"

section \<open>Named constants\<close>

text \<open>\<open>LAYOUT[name]\<close> at import; all names below are in the table (\<open>layout_values\<close>).\<close>

definition layout_nat :: "string \<Rightarrow> nat" where
  "layout_nat name = (case map_of LAYOUT name of Some v \<Rightarrow> nat v | None \<Rightarrow> 0)"

definition SECTOR :: nat where [layout_defs]: "SECTOR = 512"
definition STAGE1_ARGS_OFF :: nat where STAGE1_ARGS_OFF_lookup: "STAGE1_ARGS_OFF = layout_nat ''QIZO_BIOS_ARG'' - 0x7C00"
definition QIZOK_MAGIC :: nat where QIZOK_MAGIC_lookup: "QIZOK_MAGIC = layout_nat ''QIZO_QIZOK_MAGIC''"
definition LY_LZSS_MAGIC :: nat where LY_LZSS_MAGIC_lookup: "LY_LZSS_MAGIC = layout_nat ''QIZO_LZSS_MAGIC''"
definition PART_LBA :: nat where PART_LBA_lookup: "PART_LBA = layout_nat ''QIZO_PART_LBA''"
definition BLOB_LBA :: nat where BLOB_LBA_lookup: "BLOB_LBA = layout_nat ''QIZO_BLOB_LBA''"
definition BLOB_MAX :: nat where BLOB_MAX_lookup: "BLOB_MAX = layout_nat ''QIZO_BLOB_MAX''"
definition BLOB_PHYS :: nat where BLOB_PHYS_lookup: "BLOB_PHYS = layout_nat ''QIZO_BLOB_PHYS''"
definition STAGE2 :: nat where STAGE2_lookup: "STAGE2 = layout_nat ''QIZO_STAGE2''"
definition STAGE2_BYTES :: nat where STAGE2_BYTES_lookup: "STAGE2_BYTES = layout_nat ''QIZO_STAGE2_BYTES''"
definition STAGE2_SECTORS :: nat where STAGE2_SECTORS_lookup: "STAGE2_SECTORS = layout_nat ''QIZO_STAGE2_SECTORS''"
definition KTEXT :: nat where KTEXT_lookup: "KTEXT = layout_nat ''QIZO_KTEXT''"
definition SCRATCH :: nat where SCRATCH_lookup: "SCRATCH = layout_nat ''QIZO_SCRATCH''"
definition E820_BUF :: nat where E820_BUF_lookup: "E820_BUF = layout_nat ''QIZO_E820_BUF''"
definition PM_STACK :: nat where PM_STACK_lookup: "PM_STACK = layout_nat ''QIZO_PM_STACK''"
definition PAGE_PML4 :: nat where PAGE_PML4_lookup: "PAGE_PML4 = layout_nat ''QIZO_PAGE_PML4''"
definition PAGE_PDPT :: nat where PAGE_PDPT_lookup: "PAGE_PDPT = layout_nat ''QIZO_PAGE_PDPT''"
definition PAGE_PDT :: nat where PAGE_PDT_lookup: "PAGE_PDT = layout_nat ''QIZO_PAGE_PDT''"
definition IDT_BOOT :: nat where IDT_BOOT_lookup: "IDT_BOOT = layout_nat ''QIZO_IDT_BOOT''"
definition PT_PAGE :: nat where PT_PAGE_lookup: "PT_PAGE = layout_nat ''QIZO_PT_PAGE''"
definition PT_DIR :: nat where PT_DIR_lookup: "PT_DIR = layout_nat ''QIZO_PT_DIR''"
definition BOOTINFO :: nat where BOOTINFO_lookup: "BOOTINFO = layout_nat ''QIZO_BOOTINFO''"
definition BOOTINFO_SIZE :: nat where BOOTINFO_SIZE_lookup: "BOOTINFO_SIZE = layout_nat ''QIZO_BI_SIZE''"
definition KERNEL_MAX :: nat where KERNEL_MAX_lookup: "KERNEL_MAX = layout_nat ''QIZO_KERNEL_MAX''"
definition E820_MAX :: nat where E820_MAX_lookup: "E820_MAX = layout_nat ''QIZO_E820_MAX''"
definition E820_ENT :: nat where E820_ENT_lookup: "E820_ENT = layout_nat ''QIZO_E820_ENT''"
definition QIZOK_HDR :: nat where QIZOK_HDR_lookup: "QIZOK_HDR = layout_nat ''QIZO_QIZOK_HDR''"
definition CHUNK :: nat where [layout_defs]: "CHUNK = 64"

lemma layout_values:
  "map_of LAYOUT ''QIZO_BIOS_ARG'' = Some 32208"
  "map_of LAYOUT ''QIZO_QIZOK_MAGIC'' = Some 1263491657"
  "map_of LAYOUT ''QIZO_LZSS_MAGIC'' = Some 1363761740"
  "map_of LAYOUT ''QIZO_PART_LBA'' = Some 16"
  "map_of LAYOUT ''QIZO_BLOB_LBA'' = Some 24"
  "map_of LAYOUT ''QIZO_BLOB_MAX'' = Some 126976"
  "map_of LAYOUT ''QIZO_BLOB_PHYS'' = Some 135168"
  "map_of LAYOUT ''QIZO_STAGE2'' = Some 131072"
  "map_of LAYOUT ''QIZO_STAGE2_BYTES'' = Some 4096"
  "map_of LAYOUT ''QIZO_STAGE2_SECTORS'' = Some 8"
  "map_of LAYOUT ''QIZO_KTEXT'' = Some 1048576"
  "map_of LAYOUT ''QIZO_SCRATCH'' = Some 1572864"
  "map_of LAYOUT ''QIZO_E820_BUF'' = Some 266240"
  "map_of LAYOUT ''QIZO_PM_STACK'' = Some 278528"
  "map_of LAYOUT ''QIZO_PAGE_PML4'' = Some 3145728"
  "map_of LAYOUT ''QIZO_PAGE_PDPT'' = Some 3149824"
  "map_of LAYOUT ''QIZO_PAGE_PDT'' = Some 3153920"
  "map_of LAYOUT ''QIZO_IDT_BOOT'' = Some 3174400"
  "map_of LAYOUT ''QIZO_PT_PAGE'' = Some 131"
  "map_of LAYOUT ''QIZO_PT_DIR'' = Some 3"
  "map_of LAYOUT ''QIZO_BOOTINFO'' = Some 65536"
  "map_of LAYOUT ''QIZO_BI_SIZE'' = Some 1792"
  "map_of LAYOUT ''QIZO_KERNEL_MAX'' = Some 524288"
  "map_of LAYOUT ''QIZO_E820_MAX'' = Some 32"
  "map_of LAYOUT ''QIZO_E820_ENT'' = Some 24"
  "map_of LAYOUT ''QIZO_QIZOK_HDR'' = Some 64"
  by code_simp+

text \<open>The values, for the proofs and for evaluation.\<close>

lemma STAGE1_ARGS_OFF_def [layout_defs, code]: "STAGE1_ARGS_OFF = 464" by (simp add: STAGE1_ARGS_OFF_lookup layout_nat_def layout_values)
lemma QIZOK_MAGIC_def [layout_defs, code]: "QIZOK_MAGIC = 1263491657" by (simp add: QIZOK_MAGIC_lookup layout_nat_def layout_values)
lemma LY_LZSS_MAGIC_def [layout_defs, code]: "LY_LZSS_MAGIC = 1363761740" by (simp add: LY_LZSS_MAGIC_lookup layout_nat_def layout_values)
lemma PART_LBA_def [layout_defs, code]: "PART_LBA = 16" by (simp add: PART_LBA_lookup layout_nat_def layout_values)
lemma BLOB_LBA_def [layout_defs, code]: "BLOB_LBA = 24" by (simp add: BLOB_LBA_lookup layout_nat_def layout_values)
lemma BLOB_MAX_def [layout_defs, code]: "BLOB_MAX = 126976" by (simp add: BLOB_MAX_lookup layout_nat_def layout_values)
lemma BLOB_PHYS_def [layout_defs, code]: "BLOB_PHYS = 135168" by (simp add: BLOB_PHYS_lookup layout_nat_def layout_values)
lemma STAGE2_def [layout_defs, code]: "STAGE2 = 131072" by (simp add: STAGE2_lookup layout_nat_def layout_values)
lemma STAGE2_BYTES_def [layout_defs, code]: "STAGE2_BYTES = 4096" by (simp add: STAGE2_BYTES_lookup layout_nat_def layout_values)
lemma STAGE2_SECTORS_def [layout_defs, code]: "STAGE2_SECTORS = 8" by (simp add: STAGE2_SECTORS_lookup layout_nat_def layout_values)
lemma KTEXT_def [layout_defs, code]: "KTEXT = 1048576" by (simp add: KTEXT_lookup layout_nat_def layout_values)
lemma SCRATCH_def [layout_defs, code]: "SCRATCH = 1572864" by (simp add: SCRATCH_lookup layout_nat_def layout_values)
lemma E820_BUF_def [layout_defs, code]: "E820_BUF = 266240" by (simp add: E820_BUF_lookup layout_nat_def layout_values)
lemma PM_STACK_def [layout_defs, code]: "PM_STACK = 278528" by (simp add: PM_STACK_lookup layout_nat_def layout_values)
lemma PAGE_PML4_def [layout_defs, code]: "PAGE_PML4 = 3145728" by (simp add: PAGE_PML4_lookup layout_nat_def layout_values)
lemma PAGE_PDPT_def [layout_defs, code]: "PAGE_PDPT = 3149824" by (simp add: PAGE_PDPT_lookup layout_nat_def layout_values)
lemma PAGE_PDT_def [layout_defs, code]: "PAGE_PDT = 3153920" by (simp add: PAGE_PDT_lookup layout_nat_def layout_values)
lemma IDT_BOOT_def [layout_defs, code]: "IDT_BOOT = 3174400" by (simp add: IDT_BOOT_lookup layout_nat_def layout_values)
lemma PT_PAGE_def [layout_defs, code]: "PT_PAGE = 131" by (simp add: PT_PAGE_lookup layout_nat_def layout_values)
lemma PT_DIR_def [layout_defs, code]: "PT_DIR = 3" by (simp add: PT_DIR_lookup layout_nat_def layout_values)
lemma BOOTINFO_def [layout_defs, code]: "BOOTINFO = 65536" by (simp add: BOOTINFO_lookup layout_nat_def layout_values)
lemma BOOTINFO_SIZE_def [layout_defs, code]: "BOOTINFO_SIZE = 1792" by (simp add: BOOTINFO_SIZE_lookup layout_nat_def layout_values)
lemma KERNEL_MAX_def [layout_defs, code]: "KERNEL_MAX = 524288" by (simp add: KERNEL_MAX_lookup layout_nat_def layout_values)
lemma E820_MAX_def [layout_defs, code]: "E820_MAX = 32" by (simp add: E820_MAX_lookup layout_nat_def layout_values)
lemma E820_ENT_def [layout_defs, code]: "E820_ENT = 24" by (simp add: E820_ENT_lookup layout_nat_def layout_values)
lemma QIZOK_HDR_def [layout_defs, code]: "QIZOK_HDR = 64" by (simp add: QIZOK_HDR_lookup layout_nat_def layout_values)

definition BI :: "(string \<times> int) list" where
  "BI = filter (\<lambda>(k, v). take 8 k = ''QIZO_BI_'') LAYOUT"

section \<open>Running the parser\<close>

text \<open>
  The text-dependent half of \<open>parse\<close> on its own: each matching line gives a name with either
  the integer or the expression left to \<open>eval\<close>. Reading the file is then one evaluation, and
  the dictionary of distinct names is built in order.
\<close>

definition lex_line :: "string \<Rightarrow> (string \<times> (int + string)) list" where
  "lex_line line =
     (case parse_line line of
        None \<Rightarrow> []
      | Some (name, expr) \<Rightarrow> [(name, case py_int0 expr of Some v \<Rightarrow> Inl v | None \<Rightarrow> Inr expr)])"

definition assign_step ::
    "((string \<times> pyval) list \<Rightarrow> string \<Rightarrow> pyval option) \<Rightarrow> string \<times> (int + string) \<Rightarrow> (string \<times> pyval) list
       \<Rightarrow> (string \<times> pyval) list res" where
  "assign_step ev t vals =
     (case snd t of
        Inl v \<Rightarrow> Inr (AList.update (fst t) (VInt v) vals)
      | Inr expr \<Rightarrow>
          (case ev vals expr of
             Some v \<Rightarrow> Inr (AList.update (fst t) v vals)
           | None \<Rightarrow> Inl (SystemExit ''qizo: cannot evaluate layout symbol %s'' [FS (fst t)])))"

lemma parse_step_lex: "parse_step ev line vals = foldE (assign_step ev) (lex_line line) vals"
  by (auto simp: parse_step_def lex_line_def assign_step_def split: option.splits)

lemma parse_lex: "parse ev lines = foldE (assign_step ev) (concat (map lex_line lines)) []"
proof -
  have "foldE (parse_step ev) lines vals = foldE (assign_step ev) (concat (map lex_line lines)) vals" for vals
    by (induction lines arbitrary: vals) (simp_all add: parse_step_lex foldE_append cong: bindE_cong)
  then show ?thesis by (simp add: parse_def)
qed

lemma update_new: "k \<notin> fst ` set al \<Longrightarrow> AList.update k v al = al @ [(k, v)]"
  by (induction al) auto

lemma assign_distinct:
  assumes "distinct (map fst vals @ map fst ts)"
    and "\<forall>t \<in> set ts. \<forall>e. snd t = Inr e \<longrightarrow> (\<forall>vals. ev vals e = Some (r e))"
  shows "foldE (assign_step ev) ts vals = Inr (vals @ map (\<lambda>(k, x). (k, case x of Inl v \<Rightarrow> VInt v | Inr e \<Rightarrow> r e)) ts)"
  using assms
proof (induction ts arbitrary: vals)
  case (Cons t ts)
  obtain k x where t: "t = (k, x)" by fastforce
  let ?v = "case x of Inl v \<Rightarrow> VInt v | Inr e \<Rightarrow> r e"
  have "k \<notin> fst ` set vals" using Cons.prems(1) t by auto
  then have "assign_step ev t vals = Inr (vals @ [(k, ?v)])"
    using Cons.prems(2) t by (auto simp: assign_step_def update_new split: sum.splits)
  moreover have "distinct (map fst (vals @ [(k, ?v)]) @ map fst ts)" using Cons.prems(1) t by auto
  ultimately show ?case using Cons.IH [of "vals @ [(k, ?v)]"] Cons.prems(2) t by simp
qed simp

definition inc_tokens :: "(string \<times> (int + string)) list" where
  "inc_tokens = [
   (''QIZO_PART_LBA'', Inl 16),
   (''QIZO_STAGE2_SECTORS'', Inl 8),
   (''QIZO_STAGE2_BYTES'', Inl 4096),
   (''QIZO_BLOB_LBA'', Inl 24),
   (''QIZO_BLOB_MAX'', Inr ''248 * 512''),
   (''QIZO_BIOS_ARG'', Inl 32208),
   (''QIZO_ARG_ADDR'', Inl 32208),
   (''QIZO_DAP_ADDR'', Inl 32256),
   (''QIZO_ARG_DRIVE'', Inl 0),
   (''QIZO_ARG_LBA'', Inl 4),
   (''QIZO_ARG_TOTAL'', Inl 8),
   (''QIZO_ARG_CRC'', Inl 12),
   (''QIZO_ARG_ERR'', Inl 16),
   (''QIZO_ARG_BOOTDRIVE'', Inl 1),
   (''QIZO_ARG_TRY'', Inl 2),
   (''QIZO_ARG_SIZE'', Inl 20),
   (''QIZO_STAGE2'', Inl 131072),
   (''QIZO_STAGE2_SEG'', Inl 8192),
   (''QIZO_BLOB_PHYS'', Inl 135168),
   (''QIZO_E820_SEG'', Inl 16640),
   (''QIZO_E820_BUF'', Inl 266240),
   (''QIZO_E820_CNT'', Inl 267008),
   (''QIZO_E820_OFS'', Inl 0),
   (''QIZO_E820_CNT_OFS'', Inl 768),
   (''QIZO_PM_STACK'', Inl 278528),
   (''QIZO_BOOTINFO'', Inl 65536),
   (''QIZO_BOOTINFO_SEG'', Inl 4096),
   (''QIZO_SCRATCH'', Inl 1572864),
   (''QIZO_KTEXT'', Inl 1048576),
   (''QIZO_PAGE_PML4'', Inl 3145728),
   (''QIZO_PAGE_PDPT'', Inl 3149824),
   (''QIZO_PAGE_PDT'', Inl 3153920),
   (''QIZO_IDT_BOOT'', Inl 3174400),
   (''QIZO_PT_PAGE'', Inl 131),
   (''QIZO_PT_DIR'', Inl 3),
   (''QIZO_BI_MAGIC'', Inl 0),
   (''QIZO_BI_DRIVE'', Inl 4),
   (''QIZO_BI_MODE'', Inl 5),
   (''QIZO_BI_ERR'', Inl 6),
   (''QIZO_BI_BLOB_LBA'', Inl 8),
   (''QIZO_BI_BLOB_SECTORS'', Inl 12),
   (''QIZO_BI_BLOB_CRC'', Inl 16),
   (''QIZO_BI_BLOB_PHYS'', Inl 20),
   (''QIZO_BI_BLOB_SIZE'', Inl 24),
   (''QIZO_BI_SCRATCH'', Inl 28),
   (''QIZO_BI_KTEXT'', Inl 48),
   (''QIZO_BI_KERNEL_SIZE'', Inl 52),
   (''QIZO_BI_KERNEL_ENTRY'', Inl 56),
   (''QIZO_BI_KERNEL_TOTAL'', Inl 60),
   (''QIZO_BI_KERNEL_BSS'', Inl 64),
   (''QIZO_BI_FLAGS'', Inl 68),
   (''QIZO_BI_CPUS'', Inl 80),
   (''QIZO_BI_CPUID_MAX'', Inl 84),
   (''QIZO_BI_LONGMODE'', Inl 88),
   (''QIZO_BI_A20'', Inl 89),
   (''QIZO_BI_E820'', Inl 256),
   (''QIZO_BI_E820_N'', Inl 1024),
   (''QIZO_BI_VENDOR'', Inl 1536),
   (''QIZO_BI_BRAND'', Inl 1552),
   (''QIZO_BI_TOTAL_RAM'', Inl 1648),
   (''QIZO_BI_SIZE'', Inl 1792),
   (''QIZO_LZSS_MAGIC'', Inl 1363761740),
   (''QIZO_QIZOK_MAGIC'', Inl 1263491657),
   (''QIZO_QIZOK_HDR'', Inl 64),
   (''QIZO_E820_ENT'', Inl 24),
   (''QIZO_E820_MAX'', Inl 32),
   (''QIZO_KERNEL_MAX'', Inl 524288),
   (''QIZO_BLOB_SECTORS_MAX'', Inl 248),
   (''QIZO_COM1'', Inl 1016),
   (''QIZO_BOOT_TRACE'', Inl 1),
   (''QIZO_BOOTVER'', Inl 256)]"

lemma lex_qizoboot_inc: "concat (map lex_line qizoboot_inc) = inc_tokens"
  by code_simp

lemma distinct_inc_names: "distinct (map fst inc_tokens)"
  by code_simp

text \<open>C38: running the layout parser on the include file yields the table the tools use; the one
  expression that is not an integer literal is handed to \<open>eval\<close>.\<close>

theorem parse_qizoboot_inc:
  assumes "\<forall>vals. ev vals ''248 * 512'' = Some (VInt 126976)"
  shows "parse ev qizoboot_inc = Inr (map (\<lambda>(name, v). (name, VInt v)) LAYOUT)"
proof -
  have "\<forall>t \<in> set inc_tokens. \<forall>e. snd t = Inr e \<longrightarrow> e = ''248 * 512''"
    by (simp add: inc_tokens_def)
  with assms have "\<forall>t \<in> set inc_tokens. \<forall>e. snd t = Inr e \<longrightarrow> (\<forall>vals. ev vals e = Some (VInt 126976))"
    by blast
  with distinct_inc_names have
    "parse ev qizoboot_inc = Inr (map (\<lambda>(k, x). (k, case x of Inl v \<Rightarrow> VInt v | Inr e \<Rightarrow> VInt 126976)) inc_tokens)"
    using assign_distinct [of "[]" inc_tokens ev "\<lambda>_. VInt 126976"]
    by (simp only: parse_lex lex_qizoboot_inc list.map append_Nil)
  then show ?thesis by (simp add: inc_tokens_def LAYOUT_def)
qed

theorem parse_qizoboot_inc_witness:
  "parse (\<lambda>vals expr. if expr = ''248 * 512'' then Some (VInt (248 * 512)) else None) qizoboot_inc =
     Inr (map (\<lambda>(name, v). (name, VInt v)) LAYOUT)"
  using parse_qizoboot_inc [of "\<lambda>vals expr. if expr = ''248 * 512'' then Some (VInt (248 * 512)) else None"] by simp

section \<open>The layout tests\<close>

text \<open>\<open>test_layout\<close> and \<open>test_boot_tables\<close> of the unit tests: one named condition per \<open>check\<close>.\<close>

definition ascending :: "int list \<Rightarrow> bool" where
  "ascending vs = list_all (\<lambda>(a, b). a < b) (zip vs (tl vs))"

definition test_layout :: "(string \<times> bool) list" where
  "test_layout = [
     (''stage2 base below the blob'', STAGE2 < BLOB_PHYS),
     (''blob fits its span'', BLOB_PHYS + BLOB_MAX \<le> E820_BUF),
     (''kernel plus bss below scratch'', KTEXT + KERNEL_MAX \<le> SCRATCH),
     (''page tables above scratch'', PAGE_PML4 \<ge> SCRATCH + KERNEL_MAX + QIZOK_HDR),
     (''bootinfo clear of the stack'', BOOTINFO + BOOTINFO_SIZE \<le> E820_BUF),
     (''bootinfo field offsets ascend'', ascending (map snd (sort_key snd BI))),
     (''blob chunking covers the span'', (BLOB_MAX + 511) div 512 \<le> 256)]"

definition test_boot_tables :: "(string \<times> bool) list" where
  "test_boot_tables = [
     (''page tables occupy six pages'', PAGE_PDT + 4 * 0x1000 = PAGE_PML4 + 0x6000),
     (''leaf entries carry the page size bit'', PT_PAGE AND 0x80 \<noteq> 0),
     (''directory entries do not'', PT_DIR AND 0x80 = 0),
     (''boot fault idt sits above the page tables'', IDT_BOOT \<ge> PAGE_PML4 + 0x6000),
     (''boot fault idt holds 32 gates'', IDT_BOOT + 32 * 16 \<le> 0x40000000),
     (''page tables are identity mapped by the boot'',
       PAGE_PML4 div 0x200000 < 2048 \<and> IDT_BOOT div 0x200000 < 2048)]"

lemma BI_ascending: "ascending (map snd (sort_key snd BI))"
  by code_simp

text \<open>Every layout check of the unit tests holds of the table: the boot areas are ordered and
  disjoint, the bootinfo fields have distinct offsets, and the page-table constants have the
  bits the tables need.\<close>

lemma layout_tests_pass: "list_all snd (test_layout @ test_boot_tables)"
  by (simp add: test_layout_def test_boot_tables_def layout_defs BI_ascending)

end
