(* ===== verification/Qizo_Artifacts.thy ===== *)
theory Qizo_Artifacts
  imports Qizo_Layout "HOL-Library.Log_Nat"
begin

text \<open>
  Helpers of \<^verbatim>\<open>src/tools/qizoartifacts/qizoartifacts.py\<close>: the symbol table read from the
  output of \<open>nm\<close>, and the size and ratio formatting the tools print and write into
  \<open>README.TXT\<close>. Floating point is modelled exactly: a double is an integer rounded to 53
  significant bits (\<open>fl\<close>), a quotient is rounded half to even to 53 bits (\<open>fquot\<close>), and
  \<open>%.1f\<close> rounds the exact binary value half to even to tenths (\<open>fmt1\<close>). The files are a map
  from paths to contents, and what a process returns and prints is the parameter \<open>proc\<close>.
\<close>

section \<open>Decimal and floating-point formatting\<close>

text \<open>\<open>%d\<close> of a natural number.\<close>

fun dec :: "nat \<Rightarrow> string" where
  "dec n = (if n < 10 then [char_of (48 + n)] else dec (n div 10) @ [char_of (48 + n mod 10)])"

declare dec.simps [simp del]

definition dec_int :: "int \<Rightarrow> string" where
  "dec_int v = (if v < 0 then ''-'' @ dec (nat (- v)) else dec (nat v))"

text \<open>The nearest integer to \<open>p / q\<close>, ties to the even one.\<close>

definition rne :: "nat \<Rightarrow> nat \<Rightarrow> nat" where
  "rne p q = (let d = p div q; r = p mod q in
     if 2 * r < q then d else if q < 2 * r then d + 1 else if even d then d else d + 1)"

text \<open>\<open>float(n)\<close>, as the integer it denotes.\<close>

definition fl :: "nat \<Rightarrow> nat" where
  "fl n = (if n < 2 ^ 53 then n else let e = floorlog 2 n - 53 in rne n (2 ^ e) * 2 ^ e)"

text \<open>
  The double nearest to \<open>x / y\<close> for \<open>0 < x\<close>, \<open>x / y < 2 ^ 53\<close>: a 53-bit significand \<open>m\<close> and a
  scale \<open>s\<close> with value \<open>m / 2 ^ s\<close>.
\<close>

definition fquot :: "nat \<Rightarrow> nat \<Rightarrow> nat \<times> nat" where
  "fquot x y =
     (case find (\<lambda>s. 2 ^ 52 * y \<le> x * 2 ^ s) [0..<1075] of
        Some s \<Rightarrow> (rne (x * 2 ^ s) y, s)
      | None \<Rightarrow> (0, 0))"

text \<open>\<open>%.1f\<close> of \<open>m / 2 ^ s\<close>.\<close>

definition fmt1 :: "nat \<times> nat \<Rightarrow> string" where
  "fmt1 v = (let t = rne (10 * fst v) (2 ^ snd v) in dec (t div 10) @ ''.'' @ dec (t mod 10))"

definition units :: "string list" where
  "units = [''B'', ''KiB'', ''MiB'', ''GiB'']"

text \<open>The loop \<open>while v >= 1024.0 and i < len(units) - 1\<close>; dividing by 1024 is exact.\<close>

definition unit_index :: "nat \<Rightarrow> nat" where
  "unit_index v = (if v < 1024 then 0 else if v < 1024 ^ 2 then 1 else if v < 1024 ^ 3 then 2 else 3)"

fun human_loop :: "nat \<Rightarrow> nat \<Rightarrow> nat \<Rightarrow> nat" where
  "human_loop v 0 i = i"
| "human_loop v (Suc k) i = (if 1024 * 1024 ^ i \<le> v then human_loop v k (Suc i) else i)"

definition human :: "nat \<Rightarrow> string" where
  "human n =
     (let i = human_loop (fl n) 3 0 in
      if i = 0 then dec n @ '' B'' else fmt1 (fl n, 10 * i) @ '' '' @ units ! i)"

definition percent :: "nat \<Rightarrow> nat \<Rightarrow> string" where
  "percent a b = (if b = 0 then ''0%'' else if a = 0 then ''0.0%''
     else fmt1 (fquot (fl (100 * fl a)) (fl b)) @ ''%'')"

section \<open>The symbol table\<close>

text \<open>\<open>str.splitlines\<close> and \<open>str.split\<close> on code points below 256.\<close>

definition is_eol :: "char \<Rightarrow> bool" where
  "is_eol c = (let n = (of_char c :: int) in 10 \<le> n \<and> n \<le> 13 \<or> 28 \<le> n \<and> n \<le> 30 \<or> n = 0x85)"

fun splitlines_acc :: "string \<Rightarrow> string \<Rightarrow> string list" where
  "splitlines_acc acc [] = (if acc = [] then [] else [rev acc])"
| "splitlines_acc acc (c # cs) =
     (if is_eol c then rev acc # splitlines_acc []
        (if c = CHR 0x0D \<and> take 1 cs = [CHR 0x0A] then drop 1 cs else cs)
      else splitlines_acc (c # acc) cs)"

definition splitlines :: "string \<Rightarrow> string list" where
  "splitlines = splitlines_acc []"

fun split_ws_acc :: "string \<Rightarrow> string \<Rightarrow> string list" where
  "split_ws_acc acc [] = (if acc = [] then [] else [rev acc])"
| "split_ws_acc acc (c # cs) =
     (if is_ws c then (if acc = [] then split_ws_acc [] cs else rev acc # split_ws_acc [] cs)
      else split_ws_acc (c # acc) cs)"

definition split_ws :: "string \<Rightarrow> string list" where
  "split_ws = split_ws_acc []"

text \<open>\<open>int(s, 16)\<close> on a word without white space: \<open>None\<close> is \<open>ValueError\<close>.\<close>

definition hex_val :: "string \<Rightarrow> int option" where
  "hex_val s =
     (case s of
        c # x # cs \<Rightarrow> if c = CHR ''0'' \<and> (x = CHR ''x'' \<or> x = CHR ''X'') then prefixed_val 16 cs
                      else digits_val 16 0 False s
      | _ \<Rightarrow> digits_val 16 0 False s)"

definition py_int16 :: "string \<Rightarrow> int option" where
  "py_int16 s =
     (case s of
        c # cs \<Rightarrow> if c = CHR ''-'' then map_option (\<lambda>v. - v) (hex_val cs)
                  else if c = CHR ''+'' then hex_val cs
                  else hex_val s
      | [] \<Rightarrow> None)"

text \<open>The loop of \<open>nm\<close> over the lines the command printed: later definitions win.\<close>

definition nm_step :: "string \<Rightarrow> (string \<rightharpoonup> int) \<Rightarrow> (string \<rightharpoonup> int)" where
  "nm_step line table =
     (let parts = split_ws line in
      if length parts < 3 then table
      else case py_int16 (hd parts) of
        None \<Rightarrow> table
      | Some value \<Rightarrow> table(last parts \<mapsto> value))"

definition nm :: "string \<Rightarrow> (string \<rightharpoonup> int)" where
  "nm text = fold nm_step (splitlines text) Map.empty"

section \<open>Files and processes\<close>

type_synonym fsys = "string \<rightharpoonup> bytes"

type_synonym process = "fsys \<Rightarrow> string list \<Rightarrow> int \<times> string"

definition art_read :: "fsys \<Rightarrow> string \<Rightarrow> bytes res" where
  "art_read fs path = (case fs path of Some b \<Rightarrow> Inr b | None \<Rightarrow> Inl (OSError path))"

definition art_write :: "string \<Rightarrow> bytes \<Rightarrow> fsys \<Rightarrow> fsys" where
  "art_write path data fs = fs(path \<mapsto> data)"

definition size_bytes :: "fsys \<Rightarrow> string \<Rightarrow> nat res" where
  "size_bytes fs path = bindE (art_read fs path) (\<lambda>b. Inr (length b))"

text \<open>\<open>run\<close>: the output when it is captured; a failing command ends the tool with status 2.\<close>

definition art_run :: "process \<Rightarrow> fsys \<Rightarrow> bool \<Rightarrow> string list \<Rightarrow> string option res" where
  "art_run proc fs capture cmd =
     (let (code, out) = proc fs cmd in
      if code \<noteq> 0 then Inl (SystemExit ''2'' []) else Inr (if capture then Some out else None))"

definition nm_file :: "process \<Rightarrow> fsys \<Rightarrow> string \<Rightarrow> (string \<rightharpoonup> int) res" where
  "nm_file proc fs elfpath =
     bindE (art_run proc fs True [''nm'', ''-n'', elfpath]) (\<lambda>out. case out of Some text \<Rightarrow> Inr (nm text) | None \<Rightarrow> Inl TypeError)"

lemma art_read_write [simp]: "art_read (art_write p data fs) q = (if p = q then Inr data else art_read fs q)"
  by (simp add: art_read_def art_write_def)

lemma art_write_other [simp]: "art_write p data fs q = (if p = q then Some data else fs q)"
  by (simp add: art_write_def)

lemma art_read_ok: "fs p = Some b \<Longrightarrow> art_read fs p = Inr b"
  by (simp add: art_read_def)

lemma nm_file_ok: "proc fs [''nm'', ''-n'', elf] = (0, text) \<Longrightarrow> nm_file proc fs elf = Inr (nm text)"
  by (simp add: nm_file_def art_run_def)

end
