(* ===== verification/Qizo_Bootinfo.thy ===== *)
theory Qizo_Bootinfo
  imports Qizo_Artifacts "HOL-Library.List_Lexorder" "HOL-Library.Char_ord"
begin

text \<open>
  The generator of the kernel's bootinfo header, \<^verbatim>\<open>src/tools/qizoartifacts/qizobootinfo.py\<close>: it reads the
  include file of the boot stages (\<open>parse_inc\<close>) and writes a C header with a \<^verbatim>\<open>#define\<close> per symbol and two packed
  structures (\<open>emit\<close>). The result of \<open>emit\<close> is the list of lines; writing the file is left out. Python's \<open>eval\<close>
  is the parameter \<open>ev\<close>: \<open>ev vals expr\<close> is the value of \<open>eval(expr, dict(vals))\<close>, an integer or not, and \<open>None\<close> when it
  is \<open>None\<close> or raises. A value that is no integer is stored like any other and stops the generator with \<open>TypeError\<close> when its
  symbol is formatted.

  The contract is about the C text itself: \<open>member\<close> reads a member declaration, \<open>packed\<close> lays a packed structure
  out, and the properties say where the emitted declarations put every field.
\<close>

section \<open>Definitions\<close>

subsection \<open>Tables\<close>

definition FIELDS :: "(string \<times> string \<times> string) list" where
  "FIELDS = [
     (''u32'', ''magic'', ''QIZO_BI_MAGIC''),
     (''u8'', ''drive'', ''QIZO_BI_DRIVE''),
     (''u8'', ''mode'', ''QIZO_BI_MODE''),
     (''u8'', ''err'', ''QIZO_BI_ERR''),
     (''u32'', ''blob_lba'', ''QIZO_BI_BLOB_LBA''),
     (''u32'', ''blob_sectors'', ''QIZO_BI_BLOB_SECTORS''),
     (''u32'', ''blob_crc'', ''QIZO_BI_BLOB_CRC''),
     (''u32'', ''blob_phys'', ''QIZO_BI_BLOB_PHYS''),
     (''u32'', ''blob_size'', ''QIZO_BI_BLOB_SIZE''),
     (''u32'', ''scratch'', ''QIZO_BI_SCRATCH''),
     (''u32'', ''ktext'', ''QIZO_BI_KTEXT''),
     (''u32'', ''kernel_size'', ''QIZO_BI_KERNEL_SIZE''),
     (''u32'', ''kernel_entry'', ''QIZO_BI_KERNEL_ENTRY''),
     (''u32'', ''kernel_total'', ''QIZO_BI_KERNEL_TOTAL''),
     (''u32'', ''kernel_bss'', ''QIZO_BI_KERNEL_BSS''),
     (''u32'', ''flags'', ''QIZO_BI_FLAGS''),
     (''u32'', ''cpus'', ''QIZO_BI_CPUS''),
     (''u32'', ''cpuid_max'', ''QIZO_BI_CPUID_MAX''),
     (''u8'', ''longmode'', ''QIZO_BI_LONGMODE''),
     (''u8'', ''a20'', ''QIZO_BI_A20''),
     (''e820arr'', ''map'', ''QIZO_BI_E820''),
     (''u32'', ''map_count'', ''QIZO_BI_E820_N''),
     (''u8arr16'', ''vendor'', ''QIZO_BI_VENDOR''),
     (''u8arr80'', ''brand'', ''QIZO_BI_BRAND''),
     (''u64'', ''total_ram'', ''QIZO_BI_TOTAL_RAM'')]"

definition E820 :: "(string \<times> string \<times> nat) list" where
  "E820 = [(''u64'', ''base'', 0), (''u64'', ''size'', 8), (''u32'', ''type'', 16), (''u32'', ''acpi'', 20)]"

definition SIZES :: "(string \<times> int) list" where
  "SIZES = [(''u8'', 1), (''u32'', 4), (''u64'', 8), (''u8arr16'', 16), (''u8arr80'', 80)]"

definition ARRS :: "(string \<times> string \<times> nat) list" where
  "ARRS = [(''u8arr16'', ''u8'', 16), (''u8arr80'', ''u8'', 80)]"

definition EXTRAS :: "string list" where
  "EXTRAS = [''QIZO_BI_E820'', ''QIZO_BI_SIZE'', ''QIZO_E820_MAX'', ''QIZO_E820_ENT'',
             ''QIZO_KTEXT'', ''QIZO_BOOTINFO'', ''QIZO_SCRATCH'', ''QIZO_BLOB_MAX'']"

subsection \<open>Reading the include file\<close>

text \<open>
  \<open>parse_inc\<close>: every matching line assigns, a failing \<open>eval\<close> assigns \<open>None\<close>. The second group of the match is
  given stripped; it differs from the source's only when it is a single blank, where \<open>eval\<close> raises either way.
\<close>

type_synonym symtab = "(string \<times> pyval option) list"

definition inc_step :: "(symtab \<Rightarrow> string \<Rightarrow> pyval option) \<Rightarrow> string \<Rightarrow> symtab \<Rightarrow> symtab" where
  "inc_step ev line vals =
     (case parse_line line of None \<Rightarrow> vals | Some (name, expr) \<Rightarrow> AList.update name (ev vals expr) vals)"

definition parse_inc :: "(symtab \<Rightarrow> string \<Rightarrow> pyval option) \<Rightarrow> string list \<Rightarrow> symtab" where
  "parse_inc ev inc = fold (inc_step ev) inc []"

text \<open>\<open>v.get(sy)\<close>, and the number \<open>v[sy]\<close> where the source computes with it. Formatting has refused other values by then.\<close>

definition get :: "symtab \<Rightarrow> string \<Rightarrow> pyval option" where
  "get v sy = (case map_of v sy of Some (Some x) \<Rightarrow> Some x | _ \<Rightarrow> None)"

definition num :: "symtab \<Rightarrow> string \<Rightarrow> int res" where
  "num v sy =
     (case map_of v sy of None \<Rightarrow> Inl (KeyError sy) | Some None \<Rightarrow> Inl TypeError | Some (Some VOther) \<Rightarrow> Inl TypeError
      | Some (Some (VInt n)) \<Rightarrow> Inr n)"

subsection \<open>The text of the header\<close>

fun hexX :: "nat \<Rightarrow> string" where
  "hexX n = (if n < 16 then [''0123456789ABCDEF'' ! n] else hexX (n div 16) @ [''0123456789ABCDEF'' ! (n mod 16)])"

declare hexX.simps [simp del]

definition hexX_int :: "int \<Rightarrow> string" where
  "hexX_int n = (if n < 0 then ''-'' @ hexX (nat (- n)) else hexX (nat n))"

definition decl :: "string \<Rightarrow> string \<Rightarrow> symtab option \<Rightarrow> string res" where
  "decl t name v =
     (if t = ''e820arr'' then
        (case v of
           None \<Rightarrow> Inl TypeError
         | Some v \<Rightarrow> bindE (num v ''QIZO_E820_MAX'') (\<lambda>n. Inr (''struct qizo_e820 '' @ name @ ''['' @ dec_int n @ ''];'')))
      else case map_of ARRS t of
        Some (base, n) \<Rightarrow> Inr (base @ '' '' @ name @ ''['' @ dec n @ ''];'')
      | None \<Rightarrow> Inr (t @ '' '' @ name @ '';''))"

definition unresolved :: "symtab \<Rightarrow> string list" where
  "unresolved v = filter (\<lambda>sy. get v sy = None) (map (\<lambda>(t, name, sy). sy) FIELDS @ EXTRAS)"

fun join_comma :: "string list \<Rightarrow> string" where
  "join_comma [] = []"
| "join_comma [s] = s"
| "join_comma (s # ss) = s @ '', '' @ join_comma ss"

text \<open>The \<^verbatim>\<open>#define\<close> lines: \<^verbatim>\<open>%X\<close> of a value that is no integer raises \<open>TypeError\<close>.\<close>

definition define_line :: "symtab \<Rightarrow> string \<Rightarrow> string list \<Rightarrow> string list res" where
  "define_line v sy ls =
     (case get v sy of
        None \<Rightarrow> Inr ls
      | Some VOther \<Rightarrow> Inl TypeError
      | Some (VInt n) \<Rightarrow> Inr (ls @ [''#define '' @ sy @ '' 0x'' @ hexX_int n]))"

definition qizo_symbols :: "symtab \<Rightarrow> string list" where
  "qizo_symbols v = sort (filter (\<lambda>k. take 5 k = ''QIZO_'') (map fst v))"

definition define_lines :: "symtab \<Rightarrow> string list res" where
  "define_lines v = foldE (define_line v) (qizo_symbols v) []"

definition tabbed :: "string \<Rightarrow> string" where
  "tabbed s = CHR 0x09 # s"

definition e820_lines :: "string list res" where
  "e820_lines = foldE (\<lambda>(t, name, off) ls. bindE (decl t name None) (\<lambda>d. Inr (ls @ [tabbed d]))) E820 []"

definition field_end :: "symtab \<Rightarrow> string \<Rightarrow> int \<Rightarrow> int res" where
  "field_end v t off =
     (if t = ''e820arr'' then
        bindE (num v ''QIZO_E820_ENT'') (\<lambda>ent. bindE (num v ''QIZO_E820_MAX'') (\<lambda>mx. Inr (off + ent * mx)))
      else case map_of SIZES t of None \<Rightarrow> Inl (KeyError t) | Some s \<Rightarrow> Inr (off + s))"

definition struct_step :: "symtab \<Rightarrow> string \<times> string \<times> string \<Rightarrow> string list \<times> int \<Rightarrow> (string list \<times> int) res" where
  "struct_step v = (\<lambda>(t, name, sy) (ls, cur).
     bindE (num v sy) (\<lambda>off.
     bindE (guardE (off < cur) (SystemExit ''qizo: bootinfo field %s overlaps previous field'' [FS name])) (\<lambda>_.
     bindE (decl t name (Some v)) (\<lambda>d.
     bindE (field_end v t off) (\<lambda>cur'.
     Inr (ls @ (if cur < off then [tabbed (''u8 pad_'' @ name @ ''['' @ dec_int (off - cur) @ ''];'')] else [])
            @ [tabbed d], cur'))))))"

definition quote :: string where "quote = [CHR 0x22]"

definition packed_end :: string where "packed_end = ''} __attribute__((packed));''"

definition emit :: "(symtab \<Rightarrow> string \<Rightarrow> pyval option) \<Rightarrow> string list \<Rightarrow> string list res" where
  "emit ev inc =
     (let v = parse_inc ev inc in
      bindE (guardE (unresolved v \<noteq> []) (SystemExit ''qizo: unresolved bootinfo symbols: %s'' [FS (join_comma (unresolved v))])) (\<lambda>_.
      bindE (define_lines v) (\<lambda>defines.
      bindE e820_lines (\<lambda>e820.
      bindE (foldE (struct_step v) FIELDS ([], 0)) (\<lambda>(body, cur).
      Inr ([''#pragma once'', ''/* generated by tools/qizoartifacts/qizobootinfo.py from boot/qizoboot.inc */'']
           @ defines
           @ [[], ''struct qizo_e820 {''] @ e820 @ [packed_end]
           @ map (\<lambda>(t, name, off). ''_Static_assert(__builtin_offsetof(struct qizo_e820, '' @ name @ '') == '' @ dec off
                     @ '', '' @ quote @ ''e820 '' @ name @ quote @ '');'') E820
           @ [''_Static_assert(sizeof(struct qizo_e820) == QIZO_E820_ENT, '' @ quote @ ''e820 size'' @ quote @ '');'', [],
              ''struct qizo_bootinfo {''] @ body @ [packed_end]
           @ map (\<lambda>(t, name, sy). ''_Static_assert(__builtin_offsetof(struct qizo_bootinfo, '' @ name @ '') == '' @ sy
                     @ '', '' @ quote @ name @ quote @ '');'') FIELDS
           @ [''_Static_assert(sizeof(struct qizo_bootinfo) <= QIZO_BI_SIZE, '' @ quote @ ''bootinfo size'' @ quote @ '');'']))))))"

section \<open>Packed structures\<close>

text \<open>The C reading of the text: a member declaration with its size, and the offsets in a packed structure.\<close>

definition undec :: "string \<Rightarrow> nat" where
  "undec s = foldl (\<lambda>n c. 10 * n + (of_char c - 48)) 0 s"

definition c_types :: "nat \<Rightarrow> (string \<times> nat) list" where
  "c_types es = [(''u8 '', 1), (''u32 '', 4), (''u64 '', 8), (''struct qizo_e820 '', es)]"

definition member :: "nat \<Rightarrow> string \<Rightarrow> string \<times> nat" where
  "member es line =
     (case find (\<lambda>(p, n). take (length p) (tl line) = p) (c_types es) of
        None \<Rightarrow> ([], 0)
      | Some (p, n) \<Rightarrow>
          let rest = drop (length p) (tl line); suffix = dropWhile is_word rest in
          (takeWhile is_word rest,
           if take 1 suffix = ''['' then n * undec (takeWhile (\<lambda>c. c \<noteq> CHR '']'') (tl suffix)) else n))"

fun packed :: "nat \<Rightarrow> nat \<Rightarrow> string list \<Rightarrow> (string \<times> nat) list" where
  "packed es off [] = []"
| "packed es off (l # ls) = (fst (member es l), off) # packed es (off + snd (member es l)) ls"

definition packed_size :: "nat \<Rightarrow> string list \<Rightarrow> nat" where
  "packed_size es ls = (\<Sum>l \<leftarrow> ls. snd (member es l))"

definition struct_body :: "string \<Rightarrow> string list \<Rightarrow> string list" where
  "struct_body name out = takeWhile (\<lambda>l. l \<noteq> packed_end) (tl (dropWhile (\<lambda>l. l \<noteq> ''struct '' @ name @ '' {'') out))"

lemma packed_append: "packed es off (xs @ ys) = packed es off xs @ packed es (off + packed_size es xs) ys"
  by (induction xs arbitrary: off) (simp_all add: packed_size_def add.assoc)

lemma undec_dec: "undec (dec n) = n"
proof (induction n rule: dec.induct)
  case (1 n)
  have d: "of_char (char_of (48 + k mod 10) :: char) - (48 :: nat) = k mod 10" for k :: nat
  proof -
    have "48 + k mod 10 < (256 :: nat)" by (rule le_less_trans [of _ 58]) simp_all
    then show ?thesis by simp
  qed
  show ?case
  proof (cases "n < 10")
    case True
    then show ?thesis using d [of n] by (subst dec.simps) (simp add: undec_def)
  next
    case False
    then show ?thesis using 1 d [of n] by (subst dec.simps) (simp add: undec_def)
  qed
qed

lemma dec_digits: "c \<in> set (dec n) \<Longrightarrow> c \<noteq> CHR '']''"
proof (induction n rule: dec.induct)
  case (1 n)
  have d: "char_of (48 + k mod 10) \<noteq> CHR '']''" for k :: nat
  proof
    assume "char_of (48 + k mod 10) = CHR '']''"
    then have "of_char (char_of (48 + k mod 10) :: char) = (93 :: nat)" by simp
    moreover have "k mod 10 < 10" by simp
    ultimately show False by (simp del: mod_less_divisor)
  qed
  from 1 show ?case using d [of n] by (cases "n < 10") (auto simp: dec.simps [of n])
qed

lemma member_array:
  assumes "(p, n) \<in> set (c_types es)" "\<forall>c \<in> set name. is_word c"
  shows "member es (tabbed (p @ name @ ''['' @ dec k @ ''];'')) = (name, n * k)"
proof -
  let ?s = "name @ ''['' @ dec k @ ''];''"
  have f: "find (\<lambda>(q, n). take (length q) (p @ ?s) = q) (c_types es) = Some (p, n)"
    using assms(1) by (auto simp: c_types_def)
  have w: "\<not> is_word (CHR ''['')" by (simp add: is_word_def)
  have t: "takeWhile (\<lambda>c. c \<noteq> CHR '']'') (dec k @ ''];'') = dec k"
    using dec_digits by (subst takeWhile_append2) auto
  show ?thesis using f w t assms(2) by (simp add: member_def tabbed_def takeWhile_append2 dropWhile_append2 undec_dec)
qed

lemma member_scalar:
  assumes "(p, n) \<in> set (c_types es)" "\<forall>c \<in> set name. is_word c"
  shows "member es (tabbed (p @ name @ '';'')) = (name, n)"
proof -
  have f: "find (\<lambda>(q, n). take (length q) (p @ name @ '';'') = q) (c_types es) = Some (p, n)"
    using assms(1) by (auto simp: c_types_def)
  have w: "\<not> is_word (CHR '';'')" by (simp add: is_word_def)
  show ?thesis using f w assms(2) by (simp add: member_def tabbed_def takeWhile_append2 dropWhile_append2)
qed

section \<open>The fields of the structure\<close>

definition field_ok :: "string \<times> string \<times> string \<Rightarrow> bool" where
  "field_ok f = (fst f \<in> {''u8'', ''u32'', ''u64'', ''u8arr16'', ''u8arr80'', ''e820arr''} \<and>
     list_all is_word (fst (snd f)) \<and> take 4 (fst (snd f)) \<noteq> ''pad_'')"

lemma fields_ok: "list_all field_ok FIELDS" "distinct (map (\<lambda>(t, name, sy). name) FIELDS)"
  by code_simp+

text \<open>The integer value of a symbol, the number of bytes of a field, and where it starts and ends.\<close>

definition ival :: "symtab \<Rightarrow> string \<Rightarrow> int" where
  "ival v sy = (case get v sy of Some (VInt n) \<Rightarrow> n | _ \<Rightarrow> 0)"

definition width :: "symtab \<Rightarrow> string \<Rightarrow> int" where
  "width v t = (if t = ''e820arr'' then ival v ''QIZO_E820_ENT'' * ival v ''QIZO_E820_MAX'' else the (map_of SIZES t))"

definition start :: "symtab \<Rightarrow> string \<times> string \<times> string \<Rightarrow> int" where
  "start v f = ival v (snd (snd f))"

definition ends :: "symtab \<Rightarrow> string \<times> string \<times> string \<Rightarrow> int" where
  "ends v f = start v f + width v (fst f)"

text \<open>Every symbol of the header that has a value has an integer; all symbols the structure needs have one.\<close>

definition integers :: "symtab \<Rightarrow> bool" where
  "integers v = list_all (\<lambda>sy. get v sy \<noteq> Some VOther) (qizo_symbols v)"

definition resolved :: "symtab \<Rightarrow> bool" where
  "resolved v = (unresolved v = [] \<and> integers v)"

lemma num_get: "get v sy = Some (VInt n) \<longleftrightarrow> num v sy = Inr n"
  by (auto simp: get_def num_def split: option.splits pyval.splits)

lemma get_symbol: "get v sy = Some x \<Longrightarrow> take 5 sy = ''QIZO_'' \<Longrightarrow> sy \<in> set (qizo_symbols v)"
  by (force simp: get_def qizo_symbols_def dest!: map_of_SomeD split: option.splits)

lemma needed_symbols: "list_all (\<lambda>sy. take 5 sy = ''QIZO_'') (map (\<lambda>(t, name, sy). sy) FIELDS @ EXTRAS)"
  by code_simp

lemma resolved_num: "resolved v \<Longrightarrow> sy \<in> set (map (\<lambda>(t, name, sy). sy) FIELDS @ EXTRAS) \<Longrightarrow> num v sy = Inr (ival v sy)"
proof -
  assume a: "resolved v" "sy \<in> set (map (\<lambda>(t, name, sy). sy) FIELDS @ EXTRAS)"
  then have "get v sy \<noteq> None" unfolding resolved_def unresolved_def filter_empty_conv by blast
  then obtain x where x: "get v sy = Some x" by blast
  have "take 5 sy = ''QIZO_''" using needed_symbols a(2) unfolding list_all_iff by blast
  then have "x \<noteq> VOther" using get_symbol [OF x] a(1) x by (auto simp: resolved_def integers_def list_all_iff)
  then obtain n where "x = VInt n" by (cases x) auto
  with x show ?thesis by (simp add: num_get [symmetric] ival_def)
qed

lemma resolved_extras:
  assumes "resolved v"
  shows "num v ''QIZO_E820_ENT'' = Inr (ival v ''QIZO_E820_ENT'')" "num v ''QIZO_E820_MAX'' = Inr (ival v ''QIZO_E820_MAX'')"
  by (rule resolved_num [OF assms], simp add: EXTRAS_def)+

lemma resolved_field: "resolved v \<Longrightarrow> (t, name, sy) \<in> set FIELDS \<Longrightarrow> num v sy = Inr (start v (t, name, sy))"
  by (simp add: start_def) (rule resolved_num; force)

text \<open>The \<^verbatim>\<open>#define\<close> lines of a table of integers, and the exception otherwise.\<close>

definition define_text :: "symtab \<Rightarrow> string \<Rightarrow> string list" where
  "define_text v sy = (case get v sy of Some (VInt n) \<Rightarrow> [''#define '' @ sy @ '' 0x'' @ hexX_int n] | _ \<Rightarrow> [])"

lemma foldE_define:
  "foldE (define_line v) sys ls =
     (if list_all (\<lambda>sy. get v sy \<noteq> Some VOther) sys then Inr (ls @ concat (map (define_text v) sys)) else Inl TypeError)"
  by (induction sys arbitrary: ls) (auto simp: define_line_def define_text_def split: option.splits pyval.splits)

lemma define_lines_eq:
  "define_lines v = (if integers v then Inr (concat (map (define_text v) (qizo_symbols v))) else Inl TypeError)"
  by (simp add: define_lines_def foldE_define integers_def)

text \<open>The declaration of a field, and the lines a field adds.\<close>

definition decl_text :: "symtab \<Rightarrow> string \<Rightarrow> string \<Rightarrow> string" where
  "decl_text v t name =
     (if t = ''e820arr'' then ''struct qizo_e820 '' @ name @ ''['' @ dec_int (ival v ''QIZO_E820_MAX'') @ ''];''
      else case map_of ARRS t of
        Some (base, n) \<Rightarrow> base @ '' '' @ name @ ''['' @ dec n @ ''];''
      | None \<Rightarrow> t @ '' '' @ name @ '';'')"

definition part :: "symtab \<Rightarrow> int \<Rightarrow> string \<times> string \<times> string \<Rightarrow> string list" where
  "part v cur f =
     (if cur < start v f then [tabbed (''u8 pad_'' @ fst (snd f) @ ''['' @ dec_int (start v f - cur) @ ''];'')] else [])
     @ [tabbed (decl_text v (fst f) (fst (snd f)))]"

lemma struct_step_eq:
  assumes "resolved v" "f \<in> set FIELDS"
  shows "struct_step v f (ls, cur) =
     (if start v f < cur then Inl (SystemExit ''qizo: bootinfo field %s overlaps previous field'' [FS (fst (snd f))])
      else Inr (ls @ part v cur f, ends v f))"
proof -
  obtain t name sy where f: "f = (t, name, sy)" by (cases f) auto
  have "field_ok f" using fields_ok(1) assms(2) by (auto simp: list_all_iff)
  then have t: "t = ''e820arr'' \<or> t \<in> {''u8'', ''u32'', ''u64'', ''u8arr16'', ''u8arr80''}" by (auto simp: field_ok_def f)
  have n: "num v sy = Inr (start v f)" using resolved_field [OF assms(1)] assms(2) f by blast
  have d: "decl t name (Some v) = Inr (decl_text v t name)"
    using resolved_extras [OF assms(1)] by (simp add: decl_def decl_text_def split: option.split)
  have e: "field_end v t (start v f) = Inr (ends v f)"
    using t resolved_extras [OF assms(1)] by (auto simp: field_end_def ends_def width_def f SIZES_def)
  show ?thesis using n d e by (simp add: struct_step_def f part_def)
qed

text \<open>Running the loop over a tail of the table.\<close>

fun body_of :: "symtab \<Rightarrow> int \<Rightarrow> (string \<times> string \<times> string) list \<Rightarrow> string list" where
  "body_of v cur [] = []"
| "body_of v cur (f # fs) = part v cur f @ body_of v (ends v f) fs"

fun last_end :: "symtab \<Rightarrow> int \<Rightarrow> (string \<times> string \<times> string) list \<Rightarrow> int" where
  "last_end v cur [] = cur"
| "last_end v cur (f # fs) = last_end v (ends v f) fs"

fun ordered :: "symtab \<Rightarrow> int \<Rightarrow> (string \<times> string \<times> string) list \<Rightarrow> bool" where
  "ordered v cur [] = True"
| "ordered v cur (f # fs) = (cur \<le> start v f \<and> ordered v (ends v f) fs)"

lemma foldE_struct:
  assumes "resolved v" "set fs \<subseteq> set FIELDS"
  shows "if ordered v cur fs then foldE (struct_step v) fs (ls, cur) = Inr (ls @ body_of v cur fs, last_end v cur fs)
    else \<exists>name. foldE (struct_step v) fs (ls, cur) =
           Inl (SystemExit ''qizo: bootinfo field %s overlaps previous field'' [FS name])"
  using assms(2)
proof (induction fs arbitrary: ls cur)
  case (Cons f fs)
  then have "f \<in> set FIELDS" "set fs \<subseteq> set FIELDS" by simp_all
  then show ?case using Cons.IH [of "ends v f" "ls @ part v cur f"] struct_step_eq [OF assms(1), of f ls cur]
    by (auto split: if_splits)
qed simp

lemma ordered_successively:
  "ordered v cur fs \<longleftrightarrow> fs = [] \<or> cur \<le> start v (hd fs) \<and> successively (\<lambda>f f'. ends v f \<le> start v f') fs"
proof (induction fs arbitrary: cur)
  case (Cons f fs)
  then show ?case by (cases fs) auto
qed simp

section \<open>The layout of the emitted structure\<close>

definition e820_fits :: "symtab \<Rightarrow> bool" where
  "e820_fits v = (ival v ''QIZO_E820_ENT'' = 24 \<and> 0 \<le> ival v ''QIZO_E820_MAX'')"

lemma member_decl:
  assumes "field_ok (t, name, sy)" "e820_fits v"
  shows "member 24 (tabbed (decl_text v t name)) = (name, nat (width v t))" "0 \<le> width v t"
proof -
  have w: "\<forall>c \<in> set name. is_word c" using assms(1) by (simp add: field_ok_def list_all_iff)
  have c: "(''u8 '', 1) \<in> set (c_types 24)" "(''u32 '', 4) \<in> set (c_types 24)" "(''u64 '', 8) \<in> set (c_types 24)"
      "(''struct qizo_e820 '', 24) \<in> set (c_types 24)" by (simp_all add: c_types_def)
  have t: "t \<in> {''u8'', ''u32'', ''u64'', ''u8arr16'', ''u8arr80'', ''e820arr''}" using assms(1) by (simp add: field_ok_def)
  show "member 24 (tabbed (decl_text v t name)) = (name, nat (width v t))"
    using t assms(2) member_array [OF c(1) w] member_array [OF c(4) w] member_scalar [OF c(1) w] member_scalar [OF c(2) w]
      member_scalar [OF c(3) w]
    by (auto simp: decl_text_def width_def e820_fits_def ARRS_def SIZES_def dec_int_def nat_mult_distrib)
  show "0 \<le> width v t" using t assms(2) by (auto simp: width_def e820_fits_def SIZES_def)
qed

lemma packed_part:
  assumes "field_ok f" "e820_fits v" "0 \<le> cur" "cur \<le> start v f"
  shows "packed_size 24 (part v cur f) = nat (ends v f - cur)"
    and "packed 24 (nat cur) (part v cur f) =
      (if cur < start v f then [(''pad_'' @ fst (snd f), nat cur)] else []) @ [(fst (snd f), nat (start v f))]"
proof -
  obtain t name sy where f: "f = (t, name, sy)" by (cases f) auto
  note m = member_decl [OF assms(1) [unfolded f] assms(2)]
  have "\<forall>c \<in> set (''pad_'' @ name). is_word c" using assms(1) f by (auto simp: field_ok_def list_all_iff is_word_def)
  then have "member 24 (tabbed (''u8 '' @ (''pad_'' @ name) @ ''['' @ dec k @ ''];'')) = (''pad_'' @ name, 1 * k)" for k
    by (intro member_array) (simp_all add: c_types_def)
  then have p: "member 24 (tabbed (''u8 pad_'' @ name @ ''['' @ dec k @ ''];'')) = (''pad_'' @ name, k)" for k
    by (simp add: tabbed_def)
  show "packed_size 24 (part v cur f) = nat (ends v f - cur)"
    using m p assms(4) by (simp add: packed_size_def part_def f ends_def dec_int_def) arith
  show "packed 24 (nat cur) (part v cur f) =
      (if cur < start v f then [(''pad_'' @ fst (snd f), nat cur)] else []) @ [(fst (snd f), nat (start v f))]"
    using m p assms(3,4) by (simp add: part_def f dec_int_def) arith
qed

lemma ordered_ends: "ordered v cur (f # fs) \<Longrightarrow> field_ok f \<Longrightarrow> e820_fits v \<Longrightarrow> 0 \<le> cur \<Longrightarrow> 0 \<le> ends v f \<and> cur \<le> ends v f"
  using member_decl(2) [of "fst f" "fst (snd f)" "snd (snd f)" v] by (simp add: ends_def)

lemma packed_size_body:
  assumes "list_all field_ok fs" "e820_fits v" "0 \<le> cur" "ordered v cur fs"
  shows "packed_size 24 (body_of v cur fs) = nat (last_end v cur fs - cur) \<and> cur \<le> last_end v cur fs"
  using assms
proof (induction fs arbitrary: cur)
  case (Cons f fs)
  then have e: "0 \<le> ends v f" "cur \<le> ends v f" using ordered_ends [of v cur f fs] by simp_all
  have "packed_size 24 (part v cur f) = nat (ends v f - cur)" using packed_part(1) Cons.prems by simp
  moreover have "packed_size 24 (body_of v (ends v f) fs) = nat (last_end v (ends v f) fs - ends v f)" "ends v f \<le> last_end v (ends v f) fs"
    using Cons.IH [of "ends v f"] Cons.prems e by simp_all
  ultimately show ?case using e by (simp add: packed_size_def)
qed (simp add: packed_size_def)

lemma packed_body:
  assumes "list_all field_ok fs" "e820_fits v" "0 \<le> cur" "ordered v cur fs" "distinct (map (\<lambda>(t, name, sy). name) fs)" "f \<in> set fs"
  shows "map_of (packed 24 (nat cur) (body_of v cur fs)) (fst (snd f)) = Some (nat (start v f))"
  using assms
proof (induction fs arbitrary: cur)
  case (Cons f' fs)
  let ?n = "fst (snd f)"
  have ok: "field_ok f'" "list_all field_ok fs" "cur \<le> start v f'" "ordered v (ends v f') fs" using Cons.prems by simp_all
  have e: "0 \<le> ends v f'" "cur \<le> ends v f'" using ordered_ends [of v cur f' fs] Cons.prems ok(1) by simp_all
  note p = packed_part [OF ok(1) assms(2) Cons.prems(3) ok(3)]
  have "field_ok f" using Cons.prems by (auto simp: list_all_iff)
  then have "take 4 ?n \<noteq> ''pad_''" by (simp add: field_ok_def)
  then have pad: "''pad_'' @ x \<noteq> ?n \<and> ?n \<noteq> ''pad_'' @ x" for x by (cases "?n = ''pad_'' @ x") simp_all
  have off: "nat cur + packed_size 24 (part v cur f') = nat (ends v f')" using p(1) e Cons.prems(3) by simp
  show ?case
  proof (cases "f = f'")
    case True
    then show ?thesis using pad by (simp add: packed_append p(2) map_add_def)
  next
    case False
    then have f: "f \<in> set fs" using Cons.prems(6) by simp
    then have "fst (snd f') \<noteq> ?n" using Cons.prems(5) by (force simp: case_prod_beta)
    then show ?thesis using Cons.IH [OF ok(2) assms(2) e(1) ok(4) _ f] Cons.prems(5) pad
      by (simp add: packed_append p(2) off map_add_def)
  qed
qed simp

lemma struct_body_eq:
  assumes "\<forall>l \<in> set pre. l \<noteq> ''struct '' @ name @ '' {''" "\<forall>l \<in> set body. l \<noteq> packed_end"
  shows "struct_body name (pre @ (''struct '' @ name @ '' {'') # body @ packed_end # post) = body"
  using assms by (simp add: struct_body_def dropWhile_append2 takeWhile_append2)

lemma body_tabbed: "l \<in> set (body_of v cur fs) \<Longrightarrow> l \<noteq> packed_end"
  by (induction fs arbitrary: cur) (auto simp: part_def tabbed_def packed_end_def split: if_splits)

lemma e820_lines_eq: "e820_lines = Inr (map tabbed [''u64 base;'', ''u64 size;'', ''u32 type;'', ''u32 acpi;''])"
  by (simp add: e820_lines_def E820_def decl_def ARRS_def)

lemma emit_ok:
  assumes "resolved (parse_inc ev inc)" "ordered (parse_inc ev inc) 0 FIELDS"
  obtains pre post where
    "emit ev inc = Inr (pre @ (''struct '' @ ''qizo_bootinfo'' @ '' {'') # body_of (parse_inc ev inc) 0 FIELDS @ packed_end # post)"
    "\<forall>l \<in> set pre. l \<noteq> ''struct '' @ ''qizo_bootinfo'' @ '' {''"
    "\<And>rest. struct_body ''qizo_e820'' (pre @ rest) = map tabbed [''u64 base;'', ''u64 size;'', ''u32 type;'', ''u32 acpi;'']"
proof -
  let ?v = "parse_inc ev inc"
  let ?e820 = "map tabbed [''u64 base;'', ''u64 size;'', ''u32 type;'', ''u32 acpi;'']"
  define pre0 where "pre0 = [''#pragma once'', ''/* generated by tools/qizoartifacts/qizobootinfo.py from boot/qizoboot.inc */'']
      @ concat (map (define_text ?v) (qizo_symbols ?v)) @ [[]]"
  define post0 where "post0 = map (\<lambda>(t, name, off). ''_Static_assert(__builtin_offsetof(struct qizo_e820, '' @ name @ '') == '' @ dec off
      @ '', '' @ quote @ ''e820 '' @ name @ quote @ '');'') E820
      @ [''_Static_assert(sizeof(struct qizo_e820) == QIZO_E820_ENT, '' @ quote @ ''e820 size'' @ quote @ '');'', []]"
  define pre where "pre = pre0 @ (''struct '' @ ''qizo_e820'' @ '' {'') # ?e820 @ packed_end # post0"
  have pre0: "l \<in> set pre0 \<Longrightarrow> hd l \<noteq> CHR ''s'' \<or> l = []" for l
    by (auto simp: pre0_def define_text_def split: option.splits pyval.splits)
  have post0: "l \<in> set post0 \<Longrightarrow> hd l \<noteq> CHR ''s'' \<or> l = []" for l by (auto simp: post0_def E820_def)
  have "\<exists>post. emit ev inc = Inr (pre @ (''struct '' @ ''qizo_bootinfo'' @ '' {'') # body_of ?v 0 FIELDS @ packed_end # post)"
    using assms foldE_struct [OF assms(1) subset_refl, of 0 "[]"]
    by (simp add: emit_def Let_def resolved_def e820_lines_eq define_lines_eq pre_def pre0_def post0_def)
  moreover have "\<forall>l \<in> set pre. l \<noteq> ''struct '' @ ''qizo_bootinfo'' @ '' {''"
    using pre0 [of "''struct qizo_bootinfo {''"] post0 [of "''struct qizo_bootinfo {''"]
    by (auto simp: pre_def tabbed_def packed_end_def)
  moreover have "struct_body ''qizo_e820'' (pre @ rest) = ?e820" for rest
    using struct_body_eq [of pre0 "''qizo_e820''" ?e820 "post0 @ rest"] pre0 [of "''struct qizo_e820 {''"]
    by (auto simp: pre_def tabbed_def packed_end_def)
  ultimately show thesis using that by blast
qed

lemma emit_cases:
  "emit ev inc =
     (let v = parse_inc ev inc in
      if unresolved v \<noteq> [] then Inl (SystemExit ''qizo: unresolved bootinfo symbols: %s'' [FS (join_comma (unresolved v))])
      else if \<not> integers v then Inl TypeError
      else bindE (foldE (struct_step v) FIELDS ([], 0)) (\<lambda>_. emit ev inc))"
  by (auto simp: emit_def Let_def guardE_def bindE_def e820_lines_eq define_lines_eq split: sum.split)

lemma emit_overlap:
  assumes "resolved (parse_inc ev inc)" "\<not> ordered (parse_inc ev inc) 0 FIELDS"
  shows "\<exists>name. emit ev inc = Inl (SystemExit ''qizo: bootinfo field %s overlaps previous field'' [FS name])"
  using foldE_struct [OF assms(1) subset_refl, of 0 "[]"] assms emit_cases [of ev inc]
  by (auto simp: resolved_def Let_def)

lemma emit_resolved: "emit ev inc = Inr out \<Longrightarrow> resolved (parse_inc ev inc)"
  using emit_cases [of ev inc] by (auto simp: resolved_def Let_def split: if_splits)

lemma parse_inc_lex:
  assumes "\<And>vals e n. py_int0 e = Some n \<Longrightarrow> ev vals e = Some (VInt n)"
  shows "inc_step ev line vals = fold (\<lambda>(k, x) vals. AList.update k (case x of Inl n \<Rightarrow> Some (VInt n) | Inr e \<Rightarrow> ev vals e) vals) (lex_line line) vals"
  using assms by (auto simp: inc_step_def lex_line_def split: option.splits)

lemma fold_update_new:
  "distinct (map fst vals @ map fst ts) \<Longrightarrow> (\<And>vals t. t \<in> set ts \<Longrightarrow> h (snd t) vals = r (snd t)) \<Longrightarrow>
   fold (\<lambda>(k, x) vals. AList.update k (h x vals) vals) ts vals = vals @ map (\<lambda>(k, x). (k, r x)) ts"
proof (induction ts arbitrary: vals)
  case (Cons t ts)
  obtain k x where t: "t = (k, x)" by fastforce
  have "AList.update k (r x) vals = vals @ [(k, r x)]" using Cons.prems(1) t by (intro update_new) auto
  moreover have "h x vals = r x" using Cons.prems(2) [of t vals] t by simp
  ultimately show ?case using Cons.IH [of "vals @ [(k, r x)]"] Cons.prems t by simp
qed simp

lemma parse_inc_LAYOUT:
  assumes "\<And>vals e n. py_int0 e = Some n \<Longrightarrow> ev vals e = Some (VInt n)" "\<And>vals. ev vals ''248 * 512'' = Some (VInt 126976)"
  shows "parse_inc ev qizoboot_inc = map (\<lambda>(k, n). (k, Some (VInt n))) LAYOUT"
proof -
  let ?h = "\<lambda>x vals. case x of Inl n \<Rightarrow> Some (VInt n) | Inr e \<Rightarrow> ev vals e"
  let ?r = "\<lambda>x. case x of Inl n \<Rightarrow> Some (VInt n) | Inr e \<Rightarrow> Some (VInt 126976)"
  let ?up = "\<lambda>(k, x) vals. AList.update k (?h x vals) vals"
  have "fold (inc_step ev) lines vals = fold ?up (concat (map lex_line lines)) vals" for lines vals
    by (induction lines arbitrary: vals) (simp_all add: parse_inc_lex [OF assms(1)])
  then have "parse_inc ev qizoboot_inc = fold ?up inc_tokens []" by (simp only: parse_inc_def lex_qizoboot_inc)
  also have "\<dots> = map (\<lambda>(k, x). (k, ?r x)) inc_tokens"
  proof -
    have "\<forall>t \<in> set inc_tokens. \<forall>e. snd t = Inr e \<longrightarrow> e = ''248 * 512''" by (simp add: inc_tokens_def)
    then have "t \<in> set inc_tokens \<Longrightarrow> ?h (snd t) vals = ?r (snd t)" for t vals using assms(2) by (auto split: sum.split)
    then show ?thesis using fold_update_new [of "[]" inc_tokens ?h ?r] distinct_inc_names by simp
  qed
  also have "\<dots> = map (\<lambda>(k, n). (k, Some (VInt n))) LAYOUT" by (simp add: inc_tokens_def LAYOUT_def)
  finally show ?thesis .
qed

definition LAYOUT_vals :: symtab where
  "LAYOUT_vals = map (\<lambda>(k, n). (k, Some (VInt n))) LAYOUT"

lemma layout_integers: "integers LAYOUT_vals"
  by (auto simp: integers_def list_all_iff get_def LAYOUT_vals_def dest!: map_of_SomeD split: option.splits)

lemma layout_unresolved: "unresolved LAYOUT_vals = []" "ordered LAYOUT_vals 0 FIELDS" "last_end LAYOUT_vals 0 FIELDS = 0x678"
    "get LAYOUT_vals ''QIZO_E820_ENT'' = Some (VInt 24)" "get LAYOUT_vals ''QIZO_E820_MAX'' = Some (VInt 32)"
  by code_simp+

lemma layout_resolved: "resolved LAYOUT_vals" "ordered LAYOUT_vals 0 FIELDS" "last_end LAYOUT_vals 0 FIELDS = 0x678"
    "get LAYOUT_vals ''QIZO_E820_ENT'' = Some (VInt 24)" "get LAYOUT_vals ''QIZO_E820_MAX'' = Some (VInt 32)"
  using layout_unresolved layout_integers by (simp_all add: resolved_def)

section \<open>Properties\<close>

text \<open>C17: in every header \<open>emit\<close> writes whose own assertion on the entry size holds (the entry size symbol is 24) and whose entry
  count is not negative, the packed structures are laid out as the other static assertions claim: the four members of
  \<open>qizo_e820\<close> are at 0, 8, 16 and 20 in 24 bytes, and each field of \<open>qizo_bootinfo\<close> is at the offset its symbol has in the
  include file.\<close>

theorem bootinfo_layout:
  assumes "emit ev inc = Inr out" "get (parse_inc ev inc) ''QIZO_E820_ENT'' = Some (VInt 24)"
    and "get (parse_inc ev inc) ''QIZO_E820_MAX'' = Some (VInt mx)" "0 \<le> mx" "(t, name, sy) \<in> set FIELDS"
  shows "packed 0 0 (struct_body ''qizo_e820'' out) = map (\<lambda>(t, name, off). (name, off)) E820 \<and>
         packed_size 0 (struct_body ''qizo_e820'' out) = 24 \<and>
         (\<exists>off. get (parse_inc ev inc) sy = Some (VInt off) \<and> 0 \<le> off \<and>
            map_of (packed (packed_size 0 (struct_body ''qizo_e820'' out)) 0 (struct_body ''qizo_bootinfo'' out)) name = Some (nat off))"
proof -
  let ?v = "parse_inc ev inc"
  have r: "resolved ?v" by (rule emit_resolved [OF assms(1)])
  have o: "ordered ?v 0 FIELDS" using emit_overlap [OF r] assms(1) by auto
  obtain pre post where out: "out = pre @ (''struct '' @ ''qizo_bootinfo'' @ '' {'') # body_of ?v 0 FIELDS @ packed_end # post"
    and pre: "\<forall>l \<in> set pre. l \<noteq> ''struct '' @ ''qizo_bootinfo'' @ '' {''"
    and e: "\<And>rest. struct_body ''qizo_e820'' (pre @ rest) = map tabbed [''u64 base;'', ''u64 size;'', ''u32 type;'', ''u32 acpi;'']"
    using emit_ok [OF r o] assms(1) by (metis sum.inject(2))
  have body: "struct_body ''qizo_bootinfo'' out = body_of ?v 0 FIELDS"
    unfolding out by (rule struct_body_eq [OF pre]) (use body_tabbed in blast)
  have m: "map (member 0) (map tabbed [''u64 base;'', ''u64 size;'', ''u32 type;'', ''u32 acpi;'']) =
      [(''base'', 8), (''size'', 8), (''type'', 4), (''acpi'', 4)]" by code_simp
  have fits: "e820_fits ?v" using assms(2-4) by (simp add: e820_fits_def ival_def)
  have f: "map_of (packed 24 0 (struct_body ''qizo_bootinfo'' out)) name = Some (nat (start ?v (t, name, sy)))"
    using packed_body [OF fields_ok(1) fits _ o fields_ok(2) assms(5)] by (simp add: body)
  have g: "get ?v sy = Some (VInt (start ?v (t, name, sy)))" using resolved_field [OF r assms(5)] by (simp add: num_get)
  have "0 \<le> start ?v f'" if "f' \<in> set fs" "ordered ?v cur fs" "list_all field_ok fs" "0 \<le> cur" for f' fs cur
    using that
  proof (induction fs arbitrary: cur)
    case (Cons h fs)
    then show ?case using ordered_ends [of ?v cur h fs] fits by auto
  qed simp
  then have "0 \<le> start ?v (t, name, sy)" using assms(5) o fields_ok(1) by blast
  moreover have "packed 0 0 (struct_body ''qizo_e820'' out) = map (\<lambda>(t, name, off). (name, off)) E820"
    using m unfolding out e by (simp add: E820_def)
  moreover have "packed_size 0 (struct_body ''qizo_e820'' out) = 24" using m unfolding out e by (simp add: packed_size_def)
  ultimately show ?thesis using f g by simp
qed

text \<open>C25: \<open>emit\<close> returns exactly when every symbol it needs has a value, every symbol of the header that has one has an integer, the
  first offset is not negative and every field starts at or after the end of the one before it. Otherwise it stops with one of its
  own two messages, or with \<open>TypeError\<close>, and with the latter exactly when all symbols it needs have values and some symbol of the
  header has a value that is no integer.\<close>

theorem emit_outcome:
  "((\<exists>out. emit ev inc = Inr out) \<longleftrightarrow>
      unresolved (parse_inc ev inc) = [] \<and> integers (parse_inc ev inc) \<and> 0 \<le> start (parse_inc ev inc) (hd FIELDS) \<and>
      successively (\<lambda>f f'. ends (parse_inc ev inc) f \<le> start (parse_inc ev inc) f') FIELDS) \<and>
   (emit ev inc = Inl TypeError \<longleftrightarrow> unresolved (parse_inc ev inc) = [] \<and> \<not> integers (parse_inc ev inc)) \<and>
   ((\<exists>out. emit ev inc = Inr out) \<or> emit ev inc = Inl TypeError \<or>
    emit ev inc = Inl (SystemExit ''qizo: unresolved bootinfo symbols: %s'' [FS (join_comma (unresolved (parse_inc ev inc)))]) \<or>
    (\<exists>name. emit ev inc = Inl (SystemExit ''qizo: bootinfo field %s overlaps previous field'' [FS name])))"
proof -
  let ?v = "parse_inc ev inc"
  have ne: "FIELDS \<noteq> []" by (simp add: FIELDS_def)
  show ?thesis
  proof (cases "resolved ?v")
    case False
    have "emit ev inc = Inl (if unresolved ?v \<noteq> [] then SystemExit ''qizo: unresolved bootinfo symbols: %s'' [FS (join_comma (unresolved ?v))] else TypeError)"
      by (subst emit_cases) (use False in \<open>simp add: resolved_def Let_def\<close>)
    then show ?thesis using False by (cases "unresolved ?v = []") (simp_all add: resolved_def)
  next
    case r: True
    then have u: "unresolved ?v = []" "integers ?v" by (simp_all add: resolved_def)
    show ?thesis
    proof (cases "ordered ?v 0 FIELDS")
      case True
      obtain out where "emit ev inc = Inr out" using emit_ok [OF r True] by metis
      then show ?thesis using True ordered_successively [of ?v 0 FIELDS] ne u by simp
    next
      case False
      then obtain name where "emit ev inc = Inl (SystemExit ''qizo: bootinfo field %s overlaps previous field'' [FS name])"
        using emit_overlap [OF r] by blast
      moreover have "\<not> (0 \<le> start ?v (hd FIELDS) \<and> successively (\<lambda>f f'. ends ?v f \<le> start ?v f') FIELDS)"
        using False ordered_successively [of ?v 0 FIELDS] ne by blast
      ultimately show ?thesis using u by auto
    qed
  qed
qed

text \<open>C37: for the include file of the repository the header is written, and the structure takes 0x678 bytes, within the size the
  boot stages reserve. The two hypotheses are Python's \<open>eval\<close> on integer literals and on the one product of the file.\<close>

theorem bootinfo_header:
  assumes "\<And>vals e n. py_int0 e = Some n \<Longrightarrow> ev vals e = Some (VInt n)" "\<And>vals. ev vals ''248 * 512'' = Some (VInt 126976)"
  shows "\<exists>out. emit ev qizoboot_inc = Inr out \<and> packed_size 24 (struct_body ''qizo_bootinfo'' out) = 0x678 \<and> 0x678 \<le> BOOTINFO_SIZE"
proof -
  have v: "parse_inc ev qizoboot_inc = LAYOUT_vals" using parse_inc_LAYOUT [of ev, OF assms] by (simp add: LAYOUT_vals_def)
  obtain pre post where
    out: "emit ev qizoboot_inc = Inr (pre @ (''struct '' @ ''qizo_bootinfo'' @ '' {'') # body_of LAYOUT_vals 0 FIELDS @ packed_end # post)"
    and pre: "\<forall>l \<in> set pre. l \<noteq> ''struct '' @ ''qizo_bootinfo'' @ '' {''"
    using emit_ok [of ev qizoboot_inc] layout_resolved(1,2) unfolding v by metis
  have "e820_fits LAYOUT_vals" using layout_resolved(4,5) by (simp add: e820_fits_def ival_def)
  then have "packed_size 24 (body_of LAYOUT_vals 0 FIELDS) = 0x678"
    using packed_size_body [OF fields_ok(1) _ _ layout_resolved(2)] layout_resolved(3) by simp
  moreover have "struct_body ''qizo_bootinfo'' (pre @ (''struct '' @ ''qizo_bootinfo'' @ '' {'') # body_of LAYOUT_vals 0 FIELDS @ packed_end # post) =
      body_of LAYOUT_vals 0 FIELDS" by (rule struct_body_eq [OF pre]) (use body_tabbed in blast)
  ultimately show ?thesis using out by (auto simp: BOOTINFO_SIZE_def)
qed

text \<open>An \<open>eval\<close> for the witnesses: integer literals and the product.\<close>

definition demo_eval :: "symtab \<Rightarrow> string \<Rightarrow> pyval option" where
  "demo_eval vals e = (if e = ''248 * 512'' then Some (VInt (248 * 512)) else map_option VInt (py_int0 e))"

lemma demo_eval_ok: "py_int0 e = Some n \<Longrightarrow> demo_eval vals e = Some (VInt n)" "demo_eval vals ''248 * 512'' = Some (VInt 126976)"
proof -
  have "py_int0 ''248 * 512'' = None" by code_simp
  then show "py_int0 e = Some n \<Longrightarrow> demo_eval vals e = Some (VInt n)" by (auto simp: demo_eval_def)
qed (simp add: demo_eval_def)

theorem bootinfo_header_witness:
  "\<exists>out. emit demo_eval qizoboot_inc = Inr out \<and> packed_size 24 (struct_body ''qizo_bootinfo'' out) = 0x678"
  using bootinfo_header [of demo_eval, OF demo_eval_ok] by blast

theorem bootinfo_layout_witness:
  "\<exists>out. emit demo_eval qizoboot_inc = Inr out \<and>
     map_of (packed (packed_size 0 (struct_body ''qizo_e820'' out)) 0 (struct_body ''qizo_bootinfo'' out)) ''brand'' = Some 0x610"
proof -
  have v: "parse_inc demo_eval qizoboot_inc = LAYOUT_vals" using parse_inc_LAYOUT [of demo_eval, OF demo_eval_ok] by (simp add: LAYOUT_vals_def)
  obtain out where out: "emit demo_eval qizoboot_inc = Inr out"
    using emit_ok [of demo_eval qizoboot_inc] layout_resolved(1,2) unfolding v by blast
  have "(''u8arr80'', ''brand'', ''QIZO_BI_BRAND'') \<in> set FIELDS" by (simp add: FIELDS_def)
  moreover have "get LAYOUT_vals ''QIZO_BI_BRAND'' = Some (VInt 0x610)" by code_simp
  ultimately show ?thesis using bootinfo_layout [OF out, unfolded v, OF layout_resolved(4,5)] out by fastforce
qed

end
