(* ===== verification/Qizo_Size.thy ===== *)
theory Qizo_Size
  imports Qizo_Artifacts
begin

text \<open>
  The size gate of the build, \<^verbatim>\<open>src/tools/ci/qizosize.py\<close>. The file system is the argument \<open>fs\<close> (the size of the file
  at a path, \<open>None\<close> when there is none) and \<open>elf\<close> is what \<^verbatim>\<open>size -A build/qizo.elf\<close> prints, \<open>None\<close> when that file
  is missing; \<open>main\<close> gives the lines printed and the exit status.
\<close>

section \<open>Definitions\<close>

text \<open>
  \<open>human\<close>: after \<open>i\<close> rounds the variable \<open>n\<close> holds the double \<open>fl n / 1024 ^ i\<close>, the division by 1024 being exact;
  before the first it is the integer itself. \<open>None\<close> is the end of the loop without a return.
\<close>

fun human_units :: "nat \<Rightarrow> nat \<Rightarrow> string list \<Rightarrow> string option" where
  "human_units n i [] = None"
| "human_units n i (unit # us) =
     (if (if i = 0 then n < 1024 else fl n < 1024 * 1024 ^ i) \<or> unit = ''GiB''
      then Some (if unit \<noteq> ''B'' then fmt1 (fl n, 10 * i) @ '' '' @ unit else dec n @ '' B'')
      else human_units n (Suc i) us)"

definition size_human :: "nat \<Rightarrow> string" where
  "size_human n = (case human_units n 0 [''B'', ''KiB'', ''MiB'', ''GiB''] of Some s \<Rightarrow> s | None \<Rightarrow> ''None'')"

definition file_size :: "(string \<Rightarrow> nat option) \<Rightarrow> string \<Rightarrow> int" where
  "file_size fs path = (case fs path of Some n \<Rightarrow> int n | None \<Rightarrow> -1)"

definition budgets :: "(string \<times> string \<times> nat) list" where
  "budgets = [
     (''qizo.img'', ''build/artifacts/qizo.img'', 4 * 2 ^ 20),
     (''qizo.img.xz'', ''build/artifacts/qizo.img.xz'', 64 * 2 ^ 10),
     (''qizo.iso'', ''build/artifacts/qizo.iso'', 4 * 2 ^ 20),
     (''qizo.iso.xz'', ''build/artifacts/qizo.iso.xz'', 64 * 2 ^ 10),
     (''kernel flat image'', ''build/qizo.bin'', KERNEL_MAX),
     (''stage1'', ''build/boot/stage1.bin'', 512),
     (''stage2'', ''build/boot/stage2.bin'', STAGE2_BYTES)]"

text \<open>One pass of the loop over the checks: the failures so far and the lines printed.\<close>

definition check_step :: "(string \<Rightarrow> nat option) \<Rightarrow> string \<times> string \<times> nat \<Rightarrow> string list \<times> string list \<Rightarrow> string list \<times> string list" where
  "check_step fs = (\<lambda>(name, path, limit) (bad, out).
     let got = file_size fs path in
     if got < 0 then
       (bad @ [name @ '' missing''], out @ [ljust 18 (CHR '' '') name @ '' missing   budget '' @ size_human limit])
     else
       let state = (if got \<le> int limit then ''ok'' else ''OVER'');
           bad = (if int limit < got
                  then bad @ [name @ '' is '' @ size_human (nat got) @ '', budget '' @ size_human limit] else bad)
       in (bad, out @ [ljust 18 (CHR '' '') name @ '' '' @ ljust 9 (CHR '' '') (size_human (nat got)) @ '' budget '' @ ljust 9 (CHR '' '') (size_human limit) @ '' '' @ state]))"

definition main :: "(string \<Rightarrow> nat option) \<Rightarrow> string option \<Rightarrow> string list \<times> nat" where
  "main fs elf =
     (let (bad, out) = fold (check_step fs) budgets ([], []);
          out = out @ (case elf of None \<Rightarrow> [] | Some s \<Rightarrow> [[], strip_ws s])
      in if bad \<noteq> [] then (out @ [[], ''qizo: bloat check failed:''] @ map (\<lambda>line. ''  '' @ line) bad, 1)
         else (out @ [[], ''qizo: inside every size budget''], 0))"

section \<open>Lemmas\<close>

lemma fl_small: "n < 2 ^ 53 \<Longrightarrow> fl n = n"
  by (simp add: fl_def)

lemma rne_ge: "p div q \<le> rne p q"
  by (simp add: rne_def Let_def)

lemma fl_large: "2 ^ 53 \<le> n \<Longrightarrow> 2 ^ 52 \<le> fl n"
proof -
  assume n: "2 ^ 53 \<le> n"
  let ?e = "floorlog 2 n - 53"
  have b: "2 ^ (floorlog 2 n - 1) \<le> n" "n < 2 ^ floorlog 2 n" using floorlog_bounds [of n 2] n by auto
  have "(2 :: nat) ^ 53 < 2 ^ floorlog 2 n" using n b(2) by (rule le_less_trans)
  then have "53 < floorlog 2 n" by (simp only: power_strict_increasing_iff [of "2 :: nat"] one_less_numeral_iff semiring_norm)
  then have k: "floorlog 2 n - 1 = 52 + ?e" by simp
  have "2 ^ 52 * 2 ^ ?e \<le> n" using b(1) unfolding k power_add .
  then have "2 ^ 52 \<le> n div 2 ^ ?e" by (simp add: less_eq_div_iff_mult_less_eq)
  then have "2 ^ 52 \<le> rne n (2 ^ ?e)" using rne_ge [of n "2 ^ ?e"] by (rule le_trans)
  then have "2 ^ 52 * 1 \<le> rne n (2 ^ ?e) * 2 ^ ?e" by (intro mult_le_mono) simp_all
  then show ?thesis using n by (simp add: fl_def Let_def)
qed

lemma fl_1024: "n < 1024 \<longleftrightarrow> fl n < 1024"
proof (cases "n < 2 ^ 53")
  case False
  then have "2 ^ 53 \<le> n" "2 ^ 52 \<le> fl n" using fl_large by simp_all
  then show ?thesis by simp
qed (simp add: fl_small)

lemma size_human_eq: "human_units n 0 units = Some (human n)"
  using fl_1024 [of n] by (simp add: human_def units_def Let_def numeral_2_eq_2 numeral_3_eq_3 not_le)

definition in_budget :: "(string \<Rightarrow> nat option) \<Rightarrow> string \<times> string \<times> nat \<Rightarrow> bool" where
  "in_budget fs c = (\<exists>n. fs (fst (snd c)) = Some n \<and> n \<le> snd (snd c))"

lemma check_step_bad: "\<exists>out' b. check_step fs c (bad, out) = (bad @ b, out @ out') \<and> (b = [] \<longleftrightarrow> in_budget fs c) \<and> length out' = 1"
proof (cases "fs (fst (snd c))")
  case None
  then show ?thesis by (simp add: check_step_def in_budget_def file_size_def Let_def case_prod_beta)
next
  case (Some n)
  then show ?thesis by (simp add: check_step_def in_budget_def file_size_def Let_def case_prod_beta not_le)
qed

lemma fold_check:
  "\<exists>out' b. fold (check_step fs) cs (bad, out) = (bad @ b, out @ out') \<and> (b = [] \<longleftrightarrow> list_all (in_budget fs) cs) \<and> length out' = length cs"
proof (induction cs arbitrary: bad out)
  case (Cons c cs)
  obtain o1 b1 where 1: "check_step fs c (bad, out) = (bad @ b1, out @ o1)" "b1 = [] \<longleftrightarrow> in_budget fs c" "length o1 = 1"
    using check_step_bad [of fs c bad out] by blast
  obtain o2 b2 where 2: "fold (check_step fs) cs (bad @ b1, out @ o1) = ((bad @ b1) @ b2, (out @ o1) @ o2)"
      "b2 = [] \<longleftrightarrow> list_all (in_budget fs) cs" "length o2 = length cs"
    using Cons.IH [of "bad @ b1" "out @ o1"] by blast
  have "fold (check_step fs) (c # cs) (bad, out) = (bad @ (b1 @ b2), out @ (o1 @ o2))" using 1(1) 2(1) by simp
  moreover have "b1 @ b2 = [] \<longleftrightarrow> list_all (in_budget fs) (c # cs)" using 1(2) 2(2) by simp
  moreover have "length (o1 @ o2) = length (c # cs)" using 1(3) 2(3) by simp
  ultimately show ?case by blast
qed simp

section \<open>Properties\<close>

text \<open>The size formatting of the gate, whose loop divides a running value, is that of the artifact tools, whose loop counts
  units: the unit is the one the double of the size falls in.\<close>

lemma size_human_agrees: "size_human n = human n \<and> human_loop (fl n) 3 0 = unit_index (fl n)"
  using size_human_eq [of n] by (simp add: size_human_def units_def unit_index_def numeral_2_eq_2 numeral_3_eq_3 not_le)

text \<open>C35: the gate exits with status 0 exactly when all seven files exist and each is within its budget as the code has it, and
  with 1 otherwise; it prints a line for each file whatever the outcome. The budget of the kernel is \<open>KERNEL_MAX\<close>, 512 KiB: a kernel
  beyond the 128 KiB that the documentation names as the limit still passes when the other files are within theirs.\<close>

theorem size_gate_exact:
  "(snd (main fs elf) = 0 \<longleftrightarrow> (\<forall>(name, path, limit) \<in> set budgets. \<exists>n. fs path = Some n \<and> n \<le> limit)) \<and>
   snd (main fs elf) \<le> 1 \<and> length budgets < length (fst (main fs elf)) \<and>
   (fs ''build/qizo.bin'' = Some k \<and> 128 * 1024 < k \<and> k \<le> 512 * 1024 \<and>
    (\<forall>(name, path, limit) \<in> set budgets. path \<noteq> ''build/qizo.bin'' \<longrightarrow> (\<exists>n. fs path = Some n \<and> n \<le> limit))
    \<longrightarrow> snd (main fs elf) = 0)"
proof -
  obtain out b where o: "fold (check_step fs) budgets ([], []) = ([] @ b, [] @ out)" "b = [] \<longleftrightarrow> list_all (in_budget fs) budgets"
      "length out = length budgets"
    using fold_check [of fs budgets "[]" "[]"] by blast
  have w: "list_all (in_budget fs) budgets \<longleftrightarrow> (\<forall>(name, path, limit) \<in> set budgets. \<exists>n. fs path = Some n \<and> n \<le> limit)"
    by (auto simp: list_all_iff in_budget_def)
  have z: "snd (main fs elf) = 0 \<longleftrightarrow> list_all (in_budget fs) budgets" "snd (main fs elf) \<le> 1" "length budgets < length (fst (main fs elf))"
    using o by (simp_all add: main_def Let_def)
  have "list_all (in_budget fs) budgets"
    if "fs ''build/qizo.bin'' = Some k" "k \<le> 512 * 1024"
      "\<forall>(name, path, limit) \<in> set budgets. path \<noteq> ''build/qizo.bin'' \<longrightarrow> (\<exists>n. fs path = Some n \<and> n \<le> limit)"
    using that by (simp add: budgets_def in_budget_def KERNEL_MAX_def)
  then show ?thesis using z unfolding w [symmetric] by blast
qed

theorem size_gate_exact_witness:
  "snd (main (\<lambda>path. if path = ''build/boot/stage2.bin'' then Some 4097 else Some 512) None) \<noteq> 0 \<and>
   snd (main (\<lambda>path. if path = ''build/qizo.bin'' then Some 400000 else Some 512) None) = 0"
proof
  let ?fs = "\<lambda>path :: string. if path = ''build/boot/stage2.bin'' then Some 4097 else Some (512 :: nat)"
  have "(''stage2'', ''build/boot/stage2.bin'', STAGE2_BYTES) \<in> set budgets" "\<not> (\<exists>n. ?fs ''build/boot/stage2.bin'' = Some n \<and> n \<le> STAGE2_BYTES)"
    by (simp_all add: budgets_def STAGE2_BYTES_def)
  then show "snd (main ?fs None) \<noteq> 0" using size_gate_exact [of ?fs None] by blast
  let ?fs = "\<lambda>path :: string. if path = ''build/qizo.bin'' then Some 400000 else Some (512 :: nat)"
  show "snd (main ?fs None) = 0"
    using size_gate_exact [of ?fs None 400000] by (simp add: budgets_def STAGE2_BYTES_def)
qed

end
