(* ===== verification/Qizo_Lzss.thy ===== *)
theory Qizo_Lzss
  imports Qizo_Prelude
begin

text \<open>
  The container format of the kernel module: \<^verbatim>\<open>src/tools/common/qizolzss.py\<close> (the adler32
  checksum, the LZSS compressor with its match search, the decompressor) and the
  hand-written checksum loop of \<^verbatim>\<open>src/tools/qizocheck/qizotest.py\<close>.

  The compressor's two loops (\<open>compress_loop\<close>, \<open>enc_bits\<close>) and the decompressor's
  (\<open>decompress_loop\<close>, \<open>dec_bits\<close>, \<open>copy_match\<close>) are recursive functions over the same
  variables; every \<open>struct.error\<close>, \<open>IndexError\<close> and \<open>ValueError\<close> is a result. The lemmas
  give the match search its specification, the encoder its progress and size, the decoder
  its bound on the output, and the round trip that the image tools rely on, which the
  locale \<open>padded_codec\<close> states as an interface.
\<close>

section \<open>Definitions\<close>

definition LZSS_MAGIC :: nat where "LZSS_MAGIC = 0x51495A4C"
definition WINDOW :: nat where "WINDOW = 4096"
definition MIN_MATCH :: nat where "MIN_MATCH = 3"
definition MAX_MATCH :: nat where "MAX_MATCH = 18"

subsection \<open>Checksum\<close>

text \<open>
  \<open>zlib.adler32(data, value)\<close>: two running sums seeded from the halves of \<open>value\<close>,
  reduced modulo 65521.
\<close>

definition adler_sums :: "bytes \<Rightarrow> nat \<times> nat \<Rightarrow> nat \<times> nat" where
  "adler_sums data ab = fold (\<lambda>d (a, b). (a + unat d, b + (a + unat d))) data ab"

definition adler32 :: "bytes \<Rightarrow> nat \<Rightarrow> nat" where
  "adler32 data value =
     (let (a, b) = adler_sums data (value mod 65536, value div 65536 mod 65536)
      in b mod 65521 * 65536 + a mod 65521)"

definition checksum :: "bytes \<Rightarrow> nat" where
  "checksum data = adler32 data 1 AND 0xFFFFFFFF"

text \<open>The loop the unit tests compare it with.\<close>

definition hand_adler :: "bytes \<Rightarrow> nat" where
  "hand_adler data =
     (let (a, b) = fold (\<lambda>byte (a, b). let a' = (a + unat byte) mod 65521
                                        in (a', (b + a') mod 65521)) data (1, 0)
      in (push_bit 16 b OR a) AND 0xFFFFFFFF)"

subsection \<open>Compressor\<close>

text \<open>\<open>while l < limit and src[j + l] == src[i + l]: l += 1\<close>\<close>

function match_len :: "bytes \<Rightarrow> nat \<Rightarrow> nat \<Rightarrow> nat \<Rightarrow> nat \<Rightarrow> nat" where
  "match_len src i j limit l =
     (if l < limit \<and> src ! (j + l) = src ! (i + l) then match_len src i j limit (Suc l) else l)"
  by pat_completeness auto
termination by (relation "measure (\<lambda>(src, i, j, limit, l). limit - l)") auto

declare match_len.simps [simp del]

text \<open>The scan of the window, from \<open>i - 1\<close> down to \<open>start\<close>.\<close>

function find_loop :: "bytes \<Rightarrow> nat \<Rightarrow> nat \<Rightarrow> int \<Rightarrow> int \<Rightarrow> nat \<Rightarrow> nat \<Rightarrow> nat \<times> nat" where
  "find_loop src i limit start j best_len best_off =
     (if start \<le> j then
        let l = match_len src i (nat j) limit 0 in
        if best_len < l then
          if l = limit then (l, nat (int i - j))
          else find_loop src i limit start (j - 1) l (nat (int i - j))
        else find_loop src i limit start (j - 1) best_len best_off
      else (best_len, best_off))"
  by pat_completeness auto
termination
  by (relation "measure (\<lambda>(src, i, limit, start, j, best_len, best_off). nat (j - start + 1))") auto

declare find_loop.simps [simp del]

definition find_match :: "bytes \<Rightarrow> nat \<Rightarrow> nat \<Rightarrow> nat \<times> nat" where
  "find_match src i n =
     (let limit = min MAX_MATCH (n - i) in
      if limit < MIN_MATCH then (0, 0)
      else
        let start = (if int i - int WINDOW < 0 then 0 else int i - int WINDOW);
            (best_len, best_off) = find_loop src i limit start (int i - 1) 0 0
        in if best_len < MIN_MATCH then (0, 0) else (best_off, best_len))"

text \<open>The \<open>for bit in range(8)\<close> loop of the compressor: position, flag byte, output.\<close>

fun enc_bits :: "bytes \<Rightarrow> nat \<Rightarrow> nat list \<Rightarrow> nat \<Rightarrow> nat \<Rightarrow> bytes \<Rightarrow> (nat \<times> nat \<times> bytes) res" where
  "enc_bits src n [] i flags out = Inr (i, flags, out)"
| "enc_bits src n (k # ks) i flags out =
     (if n \<le> i then Inr (i, flags, out)
      else
        let (off, ln) = find_match src i n in
        if ln \<noteq> 0 then
          bindE (pack_le 2 (int (push_bit 4 (off - 1) OR (ln - MIN_MATCH))))
            (\<lambda>tok. enc_bits src n ks (i + ln) (flags OR push_bit k 1) (out @ tok))
        else enc_bits src n ks (i + 1) flags (out @ [src ! i]))"

lemma enc_bits_progress:
  "enc_bits src n ks i flags out = Inr (i', flags', out') \<Longrightarrow> i \<le> i' \<and> (i + length ks \<le> i' \<or> n \<le> i')"
  by (induction src n ks i flags out rule: enc_bits.induct)
     (fastforce split: if_splits prod.splits)+

function compress_loop :: "bytes \<Rightarrow> nat \<Rightarrow> nat \<Rightarrow> bytes \<Rightarrow> bytes res" where
  "compress_loop src n i out =
     (if i < n then
        bindE (enc_bits src n [0..<8] i 0 (out @ [0]))
          (\<lambda>(i', flags, out').
             bindE (do_write (SetByte (length out) (int flags)) out')
               (\<lambda>out''. compress_loop src n i' out''))
      else Inr out)"
  by pat_completeness auto
termination
  by (relation "measure (\<lambda>(src, n, i, out). n - i)") (auto dest!: enc_bits_progress)

declare compress_loop.simps [simp del]

definition compress :: "bytes \<Rightarrow> bytes res" where
  "compress src =
     bindE (pack_le 4 (int LZSS_MAGIC)) (\<lambda>m.
     bindE (pack_le 4 (int (length src))) (\<lambda>l.
     compress_loop src (length src) 0 (m @ l)))"

subsection \<open>Decompressor\<close>

text \<open>\<open>for k in range(ln): out.append(out[start + k])\<close>; a negative index counts from the end.\<close>

fun copy_match :: "int \<Rightarrow> nat list \<Rightarrow> bytes \<Rightarrow> bytes res" where
  "copy_match start [] out = Inr out"
| "copy_match start (k # ks) out =
     bindE (bidx_int out (start + int k)) (\<lambda>b. copy_match start ks (out @ [b]))"

fun dec_bits :: "bytes \<Rightarrow> nat \<Rightarrow> byte \<Rightarrow> nat list \<Rightarrow> nat \<Rightarrow> bytes \<Rightarrow> (nat \<times> bytes) res" where
  "dec_bits src tot flags [] i out = Inr (i, out)"
| "dec_bits src tot flags (k # ks) i out =
     (if tot \<le> length out then Inr (i, out)
      else if bit flags k then
        bindE (unpack_le 2 src i) (\<lambda>tok.
          let off = drop_bit 4 tok + 1;
              ln = (tok AND 0xF) + MIN_MATCH
          in bindE (copy_match (int (length out) - int off) [0..<ln] out)
               (dec_bits src tot flags ks (i + 2)))
      else bindE (bidx src i) (\<lambda>b. dec_bits src tot flags ks (i + 1) (out @ [b])))"

lemma dec_bits_pos: "dec_bits src tot flags ks i out = Inr (i', out') \<Longrightarrow> i \<le> i'"
  by (induction src tot flags ks i out rule: dec_bits.induct)
     (fastforce simp: Let_def split: if_splits)+

function decompress_loop :: "bytes \<Rightarrow> nat \<Rightarrow> nat \<Rightarrow> bytes \<Rightarrow> bytes res" where
  "decompress_loop src tot i out =
     (if length out < tot then
        if length src \<le> i then Inl (ValueError ''truncated lzss stream'')
        else bindE (dec_bits src tot (src ! i) [0..<8] (i + 1) out)
               (\<lambda>(i', out'). decompress_loop src tot i' out')
      else Inr out)"
  by pat_completeness auto
termination
  by (relation "measure (\<lambda>(src, tot, i, out). length src - i)") (auto dest!: dec_bits_pos)

declare decompress_loop.simps [simp del]

definition decompress :: "bytes \<Rightarrow> bytes res" where
  "decompress src =
     (if length src < 8 then Inl StructError
      else
        let magic = le_nat (bslice 0 4 src); tot = le_nat (bslice 4 8 src) in
        if magic \<noteq> LZSS_MAGIC then Inl (ValueError ''bad lzss magic'')
        else decompress_loop src tot 8 [])"


section \<open>The match search\<close>

lemma match_len_bounds:
  "l \<le> limit \<Longrightarrow> l \<le> match_len src i j limit l \<and> match_len src i j limit l \<le> limit"
proof (induction src i j limit l rule: match_len.induct)
  case (1 src i j limit l)
  then show ?case by (subst (1 2) match_len.simps) force
qed

lemma match_len_le [simp]: "match_len src i j limit 0 \<le> limit"
  using match_len_bounds [of 0 limit] by simp

lemma match_len_agree:
  "l \<le> k \<Longrightarrow> k < match_len src i j limit l \<Longrightarrow> src ! (j + k) = src ! (i + k)"
proof (induction src i j limit l rule: match_len.induct)
  case (1 src i j limit l)
  show ?case
  proof (cases "l < limit \<and> src ! (j + l) = src ! (i + l)")
    case True
    with "1.prems"(2) have "k < match_len src i j limit (Suc l)"
      by (subst (asm) match_len.simps) simp
    with "1.IH" [OF True] "1.prems"(1) True show ?thesis
      by (cases "k = l") auto
  next
    case False
    with "1.prems" show ?thesis by (subst (asm) match_len.simps) auto
  qed
qed

lemma match_len_stop:
  "match_len src i j limit l < limit \<Longrightarrow> l \<le> limit \<Longrightarrow>
   src ! (j + match_len src i j limit l) \<noteq> src ! (i + match_len src i j limit l)"
proof (induction src i j limit l rule: match_len.induct)
  case (1 src i j limit l)
  show ?case
  proof (cases "l < limit \<and> src ! (j + l) = src ! (i + l)")
    case True
    then have "match_len src i j limit l = match_len src i j limit (Suc l)"
      by (subst match_len.simps) simp
    with "1.IH" [OF True] "1.prems" True show ?thesis by simp
  next
    case False
    then have "match_len src i j limit l = l" by (subst match_len.simps) auto
    with False "1.prems" show ?thesis by simp
  qed
qed

text \<open>\<open>match_len\<close> is the length of the longest agreement, up to the limit.\<close>

lemma match_len_ge_iff:
  assumes "L \<le> limit"
  shows "L \<le> match_len src i j limit 0 \<longleftrightarrow> (\<forall>k < L. src ! (j + k) = src ! (i + k))"
proof
  assume "L \<le> match_len src i j limit 0"
  then show "\<forall>k < L. src ! (j + k) = src ! (i + k)" by (metis le0 match_len_agree order_less_le_trans)
next
  assume agree: "\<forall>k < L. src ! (j + k) = src ! (i + k)"
  show "L \<le> match_len src i j limit 0"
  proof (rule ccontr)
    assume "\<not> ?thesis"
    with assms match_len_stop [of src i j limit 0] agree show False by auto
  qed
qed


text \<open>
  What a downward scan of \<open>hi, hi - 1, \<dots>, lo\<close> with a strict improvement test ends with:
  the maximum of \<open>M\<close> together with the first (largest) position that attains it, or the
  initial best if nothing improves on it.
\<close>

definition scan_best ::
    "(int \<Rightarrow> nat) \<Rightarrow> int \<Rightarrow> int \<Rightarrow> int \<Rightarrow> nat \<Rightarrow> nat \<Rightarrow> nat \<Rightarrow> nat \<Rightarrow> bool" where
  "scan_best M i lo hi bl bo L ob \<longleftrightarrow>
     bl \<le> L \<and> (\<forall>j \<in> {lo..hi}. M j \<le> L) \<and>
     (L = bl \<and> ob = bo \<or>
      (\<exists>j \<in> {lo..hi}. L = M j \<and> bl < L \<and> ob = nat (i - j) \<and> (\<forall>j' \<in> {j<..hi}. M j' < L)))"

lemma atLeastAtMost_pred: "lo \<le> j \<Longrightarrow> {lo..j} = insert j {lo..j - 1}" for j :: int
  by auto

lemma scan_best_better:
  assumes "lo \<le> j" and "bl < M j" and "scan_best M i lo (j - 1) (M j) (nat (i - j)) L ob"
  shows "scan_best M i lo j bl bo L ob"
proof -
  have "M j \<le> L" and all: "\<forall>k \<in> {lo..j - 1}. M k \<le> L"
    using assms(3) by (auto simp: scan_best_def)
  moreover have "\<exists>k \<in> {lo..j}. L = M k \<and> bl < L \<and> ob = nat (i - k) \<and> (\<forall>j' \<in> {k<..j}. M j' < L)"
  proof (cases "L = M j \<and> ob = nat (i - j)")
    case True
    with assms(1,2) show ?thesis by (intro bexI [of _ j]) auto
  next
    case False
    with assms(3) obtain k where k: "k \<in> {lo..j - 1}" "L = M k" "M j < L" "ob = nat (i - k)"
      "\<forall>j' \<in> {k<..j - 1}. M j' < L" by (auto simp: scan_best_def)
    have "\<forall>j' \<in> {k<..j}. M j' < L"
    proof
      fix j' assume "j' \<in> {k<..j}"
      with k show "M j' < L" by (cases "j' = j") auto
    qed
    moreover have "bl < L" using assms(2) k(3) by simp
    ultimately show ?thesis using k by (intro bexI [of _ k]) auto
  qed
  ultimately show ?thesis
    using assms(1,2) by (simp add: scan_best_def atLeastAtMost_pred)
qed

lemma scan_best_worse:
  assumes "lo \<le> j" and "M j \<le> bl" and "scan_best M i lo (j - 1) bl bo L ob"
  shows "scan_best M i lo j bl bo L ob"
proof -
  have ext: "{k<..j} = insert j {k<..j - 1}" if "k \<in> {lo..j - 1}" for k
    using that by auto
  have "bl \<le> L" and all: "\<forall>k \<in> {lo..j - 1}. M k \<le> L"
    using assms(3) by (auto simp: scan_best_def)
  moreover have "\<forall>k \<in> {lo..j}. M k \<le> L"
    using \<open>bl \<le> L\<close> all assms(1,2) by (simp add: atLeastAtMost_pred)
  moreover have "\<exists>k \<in> {lo..j}. L = M k \<and> bl < L \<and> ob = nat (i - k) \<and> (\<forall>j' \<in> {k<..j}. M j' < L)"
    if change: "\<not> (L = bl \<and> ob = bo)"
  proof -
    from assms(3) change obtain k where k: "k \<in> {lo..j - 1}" "L = M k" "bl < L" "ob = nat (i - k)"
      "\<forall>j' \<in> {k<..j - 1}. M j' < L" unfolding scan_best_def by blast
    then have "\<forall>j' \<in> {k<..j}. M j' < L" using assms(2) by (simp add: ext)
    with k show ?thesis by (intro bexI [of _ k]) auto
  qed
  ultimately show ?thesis unfolding scan_best_def by blast
qed

lemma find_loop_best:
  assumes "find_loop src i limit start j bl bo = (L, ob)"
  shows "scan_best (\<lambda>j. match_len src i (nat j) limit 0) (int i) start j bl bo L ob"
  using assms
proof (induction src i limit start j bl bo rule: find_loop.induct)
  case (1 src i limit start j bl bo)
  let ?M = "\<lambda>j. match_len src i (nat j) limit 0"
  consider (stop) "\<not> start \<le> j" | (full) "start \<le> j" "bl < ?M j" "?M j = limit"
    | (better) "start \<le> j" "bl < ?M j" "?M j \<noteq> limit" | (worse) "start \<le> j" "\<not> bl < ?M j"
    by blast
  then show ?case
  proof cases
    case stop
    with "1.prems" show ?thesis by (simp add: find_loop.simps [of src i limit start j bl bo] scan_best_def)
  next
    case full
    with "1.prems" have "L = limit" "ob = nat (int i - j)"
      by (simp_all add: find_loop.simps [of src i limit start j bl bo])
    with full show ?thesis
      unfolding scan_best_def by (intro conjI disjI2 bexI [of _ j]) simp_all
  next
    case better
    with "1.prems" have r: "find_loop src i limit start (j - 1) (?M j) (nat (int i - j)) = (L, ob)"
      by (simp add: find_loop.simps [of src i limit start j bl bo])
    show ?thesis
      by (rule scan_best_better [where M = ?M, OF better(1,2)]) (rule "1.IH"(1) [OF better(1) refl better(2,3) r])
  next
    case worse
    with "1.prems" have r: "find_loop src i limit start (j - 1) bl bo = (L, ob)"
      by (simp add: find_loop.simps [of src i limit start j bl bo])
    show ?thesis
      using scan_best_worse [where M = ?M, OF worse(1) _ "1.IH"(2) [OF worse(1) refl worse(2) r]] worse(2) by simp
  qed
qed

lemma find_match_spec:
  assumes "find_match src i n = (off, ln)" and "ln \<noteq> 0"
  shows "MIN_MATCH \<le> ln" "ln \<le> MAX_MATCH" "i + ln \<le> n" "1 \<le> off" "off \<le> i" "off \<le> WINDOW"
    "\<forall>k < ln. src ! (i - off + k) = src ! (i + k)"
    "\<forall>j < i. i \<le> j + WINDOW \<longrightarrow> match_len src i j (min MAX_MATCH (n - i)) 0 \<le> ln"
    "\<forall>j < i. i < j + off \<longrightarrow> match_len src i j (min MAX_MATCH (n - i)) 0 < ln"
proof -
  let ?lim = "min MAX_MATCH (n - i)"
  let ?start = "(if int i - int WINDOW < 0 then 0 else int i - int WINDOW)"
  let ?M = "\<lambda>j. match_len src i (nat j) ?lim 0"
  have fl: "find_loop src i ?lim ?start (int i - 1) 0 0 = (ln, off)" and ge: "MIN_MATCH \<le> ln"
    using assms by (auto simp: find_match_def Let_def split: if_splits prod.splits)
  from find_loop_best [OF fl] assms(2) obtain j where j: "j \<in> {?start..int i - 1}" "ln = ?M j"
    "off = nat (int i - j)" "\<forall>j' \<in> {j<..int i - 1}. ?M j' < ln"
    and all: "\<forall>j \<in> {?start..int i - 1}. ?M j \<le> ln"
    unfolding scan_best_def by auto
  from j(1) have j0: "0 \<le> j" "j < int i" "int i \<le> j + int WINDOW" by (auto split: if_splits)
  show "MIN_MATCH \<le> ln" by (rule ge)
  have "ln \<le> ?lim" unfolding j(2) by (rule match_len_le)
  with ge show "ln \<le> MAX_MATCH" "i + ln \<le> n" by (auto simp: MIN_MATCH_def)
  from j(3) j0 show o: "1 \<le> off" "off \<le> i" "off \<le> WINDOW" by auto
  have ij: "i - off = nat j" using j(3) j0 by auto
  show "\<forall>k < ln. src ! (i - off + k) = src ! (i + k)"
    unfolding ij j(2) by (simp add: match_len_agree [OF le0])
  show "\<forall>j < i. i \<le> j + WINDOW \<longrightarrow> match_len src i j ?lim 0 \<le> ln"
  proof (intro allI impI)
    fix k assume "k < i" "i \<le> k + WINDOW"
    then have "int k \<in> {?start..int i - 1}" by auto
    with all have "?M (int k) \<le> ln" by blast
    then show "match_len src i k ?lim 0 \<le> ln" by simp
  qed
  show "\<forall>j < i. i < j + off \<longrightarrow> match_len src i j ?lim 0 < ln"
  proof (intro allI impI)
    fix k assume "k < i" "i < k + off"
    with ij o have "int k \<in> {j<..int i - 1}" by auto
    with j(4) have "?M (int k) < ln" by blast
    then show "match_len src i k ?lim 0 < ln" by simp
  qed
qed

lemma find_match_none:
  assumes "find_match src i n = (off, 0)" and "j < i" and "i \<le> j + WINDOW"
  shows "match_len src i j (min MAX_MATCH (n - i)) 0 < MIN_MATCH"
proof -
  let ?lim = "min MAX_MATCH (n - i)"
  let ?start = "(if int i - int WINDOW < 0 then 0 else int i - int WINDOW)"
  show ?thesis
  proof (cases "?lim < MIN_MATCH")
    case True
    then show ?thesis using match_len_le [of src i j ?lim] by linarith
  next
    case False
    obtain L ob where fl: "find_loop src i ?lim ?start (int i - 1) 0 0 = (L, ob)" by fastforce
    with False assms(1) have "L < MIN_MATCH"
      by (auto simp: find_match_def Let_def MIN_MATCH_def split: if_splits)
    moreover have "int j \<in> {?start..int i - 1}" using assms(2,3) by auto
    ultimately show ?thesis using find_loop_best [OF fl] unfolding scan_best_def by fastforce
  qed
qed

lemmas find_match_bounds = find_match_spec(1-7)

section \<open>The encoder\<close>

text \<open>The 16-bit token of a match and what the decoder reads back from it.\<close>

lemma token_fields:
  assumes "1 \<le> off" "off \<le> WINDOW" "MIN_MATCH \<le> ln" "ln \<le> MAX_MATCH"
  defines "tok \<equiv> push_bit 4 (off - 1) OR (ln - MIN_MATCH)"
  shows "tok < 65536" "drop_bit 4 tok + 1 = off" "(tok AND 0xF) + MIN_MATCH = ln"
proof -
  have "ln - MIN_MATCH < 2 ^ 4" using assms by (simp add: MIN_MATCH_def MAX_MATCH_def)
  then have tok: "tok = 16 * (off - 1) + (ln - MIN_MATCH)"
    unfolding tok_def by (subst push_bit_or_add) (simp_all add: push_bit_eq_mult)
  show "tok < 65536" using assms(1-4) unfolding tok by (simp add: WINDOW_def MIN_MATCH_def MAX_MATCH_def)
  show "drop_bit 4 tok + 1 = off"
    using assms(1-4) unfolding tok by (simp add: drop_bit_eq_div MIN_MATCH_def MAX_MATCH_def)
  have "tok AND 0xF = tok mod 16"
    using take_bit_eq_mask [of 4 tok] by (simp add: mask_eq_exp_minus_1 take_bit_eq_mod)
  then show "(tok AND 0xF) + MIN_MATCH = ln"
    using assms(1-4) unfolding tok by (simp add: MIN_MATCH_def MAX_MATCH_def)
qed


lemma token_pack:
  assumes "find_match src i n = (off, ln)" and "ln \<noteq> 0"
  shows "pack_le 2 (int (push_bit 4 (off - 1) OR (ln - MIN_MATCH)))
           = Inr (le_bytes 2 (push_bit 4 (off - 1) OR (ln - MIN_MATCH)))"
  using token_fields(1) [of off ln] find_match_spec [OF assms] by (intro pack_le_int) simp

text \<open>One token at a time: the three ways a step of the inner loop goes.\<close>

definition token :: "nat \<Rightarrow> nat \<Rightarrow> bytes" where
  "token off ln = le_bytes 2 (push_bit 4 (off - 1) OR (ln - MIN_MATCH))"

lemma length_token [simp]: "length (token off ln) = 2"
  by (simp add: token_def)

lemma enc_bits_end: "n \<le> i \<Longrightarrow> enc_bits src n ks i f out = Inr (i, f, out)"
  by (cases ks) simp_all

lemma enc_bits_lit:
  "i < n \<Longrightarrow> find_match src i n = (off, 0) \<Longrightarrow>
   enc_bits src n (k # ks) i f out = enc_bits src n ks (i + 1) f (out @ [src ! i])"
  by simp

lemma enc_bits_mat:
  "i < n \<Longrightarrow> find_match src i n = (off, ln) \<Longrightarrow> ln \<noteq> 0 \<Longrightarrow>
   enc_bits src n (k # ks) i f out = enc_bits src n ks (i + ln) (f OR push_bit k 1) (out @ token off ln)"
  using token_pack [of src i n off ln] by (simp add: token_def)

declare enc_bits.simps(2) [simp del]

lemma enc_bits_induct [consumes 1, case_names fin lit mat]:
  assumes "enc_bits src n ks i f out = Inr (i', f', out')"
    and fin: "\<And>ks i f out. ks = [] \<or> n \<le> i \<Longrightarrow> P ks i f out i f out"
    and lit: "\<And>k ks i f out i' f' out' off. i < n \<Longrightarrow> find_match src i n = (off, 0) \<Longrightarrow>
       enc_bits src n ks (i + 1) f (out @ [src ! i]) = Inr (i', f', out') \<Longrightarrow>
       P ks (i + 1) f (out @ [src ! i]) i' f' out' \<Longrightarrow> P (k # ks) i f out i' f' out'"
    and mat: "\<And>k ks i f out i' f' out' off ln. i < n \<Longrightarrow> find_match src i n = (off, ln) \<Longrightarrow>
       ln \<noteq> 0 \<Longrightarrow> enc_bits src n ks (i + ln) (f OR push_bit k 1) (out @ token off ln) = Inr (i', f', out') \<Longrightarrow>
       P ks (i + ln) (f OR push_bit k 1) (out @ token off ln) i' f' out' \<Longrightarrow> P (k # ks) i f out i' f' out'"
  shows "P ks i f out i' f' out'"
  using assms(1)
proof (induction ks arbitrary: i f out)
  case Nil
  then show ?case using fin [of "[]"] by simp
next
  case (Cons k ks)
  obtain off ln where fm: "find_match src i n = (off, ln)" by fastforce
  consider "n \<le> i" | "i < n" "ln = 0" | "i < n" "ln \<noteq> 0" by linarith
  then show ?case
  proof cases
    case 1
    with Cons.prems fin [of "k # ks" i] show ?thesis by (simp add: enc_bits_end)
  next
    case 2
    with Cons fm lit [of i off ks] show ?thesis by (simp add: enc_bits_lit)
  next
    case 3
    with Cons fm mat [of i off ln ks] show ?thesis by (simp add: enc_bits_mat)
  qed
qed

lemma enc_bits_total: "\<exists>i' f' out'. enc_bits src n ks i f out = Inr (i', f', out')"
proof (induction ks arbitrary: i f out)
  case (Cons k ks)
  obtain off ln where fm: "find_match src i n = (off, ln)" by fastforce
  consider "n \<le> i" | "i < n" "ln = 0" | "i < n" "ln \<noteq> 0" by linarith
  then show ?case
    by cases (use Cons fm in \<open>simp_all add: enc_bits_end enc_bits_lit enc_bits_mat\<close>)
qed simp

lemma enc_bits_le: "enc_bits src n ks i f out = Inr (i', f', out') \<Longrightarrow> i \<le> n \<Longrightarrow> i' \<le> n"
  by (induction rule: enc_bits_induct) (auto dest: find_match_spec(3))

lemma enc_bits_flags_other:
  "enc_bits src n ks i f out = Inr (i', f', out') \<Longrightarrow> k \<notin> set ks \<Longrightarrow> bit f' k = bit f k"
  by (induction rule: enc_bits_induct) (auto simp: bit_simps)

lemma or_exp_less: "f < 2 ^ w \<Longrightarrow> k < w \<Longrightarrow> f OR 2 ^ k < 2 ^ w" for f :: nat
proof -
  assume "f < 2 ^ w" "k < w"
  then have "take_bit w (f OR 2 ^ k) = f OR 2 ^ k"
    by (simp add: take_bit_nat_eq_self)
  then show ?thesis by (simp only: take_bit_nat_eq_self_iff)
qed

lemma enc_bits_flags_less:
  "enc_bits src n ks i f out = Inr (i', f', out') \<Longrightarrow> set ks \<subseteq> {..<w} \<Longrightarrow> f < 2 ^ w \<Longrightarrow> f' < 2 ^ w"
  by (induction rule: enc_bits_induct) (auto simp: or_exp_less)

lemma enc_bits_body:
  "enc_bits src n ks i f out = Inr (i', f', out') \<Longrightarrow>
   i \<le> i' \<and> (\<exists>body. out' = out @ body \<and> length body \<le> i' - i)"
proof (induction rule: enc_bits_induct)
  case (mat k ks i f out i' f' out' off ln)
  have "3 \<le> ln" using find_match_spec(1) [OF mat(2,3)] by (simp add: MIN_MATCH_def)
  moreover obtain b where "out' = (out @ token off ln) @ b" "length b \<le> i' - (i + ln)"
    using mat by blast
  ultimately show ?case using mat.IH by (intro conjI exI [of _ "token off ln @ b"]) auto
next
  case (lit k ks i f out i' f' out' off)
  then obtain b where "out' = (out @ [src ! i]) @ b" "length b \<le> i' - (i + 1)" by blast
  then show ?case using lit.IH by (intro conjI exI [of _ "src ! i # b"]) auto
qed auto

section \<open>The decoder\<close>

lemma bidx_int_nat: "i < length xs \<Longrightarrow> bidx_int xs (int i) = Inr (xs ! i)"
  by (simp add: bidx_int_def)

lemma copy_match_take:
  assumes "1 \<le> off" "off \<le> i" "i + ln \<le> length src" "m \<le> ln"
    and "\<forall>k < ln. src ! (i - off + k) = src ! (i + k)"
  shows "copy_match (int i - int off) [ln - m..<ln] (take (i + (ln - m)) src) = Inr (take (i + ln) src)"
  using assms(4)
proof (induction m)
  case (Suc m)
  let ?k = "ln - Suc m"
  have k: "[?k..<ln] = ?k # [ln - m..<ln]" "i + (ln - m) = Suc (i + ?k)"
    using Suc.prems upt_conv_Cons [of ?k ln] by (simp_all add: Suc_diff_Suc)
  have "int i - int off + int ?k = int (i - off + ?k)" using assms(2) by simp
  moreover have "i - off + ?k < i + ?k" "i - off + ?k < length src"
    using assms(1-3) Suc.prems by linarith+
  moreover have "src ! (i - off + ?k) = src ! (i + ?k)"
    using Suc.prems by (intro assms(5) [rule_format]) simp
  ultimately have "bidx_int (take (i + ?k) src) (int i - int off + int ?k) = Inr (src ! (i + ?k))"
    by (simp only: bidx_int_nat length_take min_less_iff_conj simp_thms nth_take)
  moreover have "take (i + ?k) src @ [src ! (i + ?k)] = take (i + (ln - m)) src"
    using assms(3) Suc.prems k(2) by (simp add: take_Suc_conv_app_nth)
  ultimately show ?case using Suc by (simp add: k(1))
qed simp

lemma copy_match_found:
  assumes "find_match src i (length src) = (off, ln)" and "ln \<noteq> 0" and "i < length src"
  shows "copy_match (int i - int off) [0..<ln] (take i src) = Inr (take (i + ln) src)"
  using copy_match_take [of off i ln src ln] find_match_spec [OF assms(1,2)] by simp

lemma unpack_le_drop: "drop p s = d @ r \<Longrightarrow> length d = w \<Longrightarrow> 0 < w \<Longrightarrow> unpack_le w s p = Inr (le_nat d)"
proof -
  assume s: "drop p s = d @ r" and w: "length d = w" "0 < w"
  from s have "length s - p = length d + length r" by (metis length_append length_drop)
  with s w show ?thesis by (simp add: unpack_le_def bslice_def)
qed

lemma bidx_drop: "drop p s = b # r \<Longrightarrow> bidx s p = Inr b"
  by (cases "p < length s") (simp_all add: nth_via_drop)

lemma dec_bits_lit:
  "length out < tot \<Longrightarrow> \<not> bit F k \<Longrightarrow> bidx s p = Inr b \<Longrightarrow>
   dec_bits s tot F (k # ks) p out = dec_bits s tot F ks (p + 1) (out @ [b])"
  by simp

lemma dec_bits_mat:
  "length out < tot \<Longrightarrow> bit F k \<Longrightarrow> unpack_le 2 s p = Inr tok \<Longrightarrow> drop_bit 4 tok + 1 = off \<Longrightarrow>
   (tok AND 0xF) + MIN_MATCH = ln \<Longrightarrow> copy_match (int (length out) - int off) [0..<ln] out = Inr out2 \<Longrightarrow>
   dec_bits s tot F (k # ks) p out = dec_bits s tot F ks (p + 2) out2"
  by (hypsubst, simp only: dec_bits.simps Let_def) simp

lemma dec_bits_end: "tot \<le> length out \<Longrightarrow> dec_bits s tot F ks p out = Inr (p, out)"
  by (cases ks) simp_all

text \<open>
  A group written by the encoder is read back by the decoder, whatever follows it in the
  stream: with the first \<open>i\<close> bytes already restored, it restores the first \<open>i'\<close>.
\<close>

lemma dec_enc_bits:
  assumes "enc_bits src n ks i f out = Inr (i', f', out')" and "n = length src"
    and "distinct ks" "\<forall>k \<in> set ks. \<not> bit f k" "\<forall>k \<in> set ks. bit F k = bit f' k"
    and "i \<le> n" "out' = out @ body" "drop p s = body @ post"
  shows "dec_bits s n F ks p (take i src) = Inr (p + length body, take i' src)"
  using assms
proof (induction arbitrary: body p rule: enc_bits_induct)
  case (fin ks i f out)
  then show ?case by (cases ks) auto
next
  case (lit k ks i f out i' f' out' off)
  obtain b where b: "out' = (out @ [src ! i]) @ b" using enc_bits_body [OF lit(3)] by blast
  with lit.prems have body: "body = src ! i # b" by simp
  have "bit f' k = bit f k" using enc_bits_flags_other [OF lit(3)] lit.prems by simp
  then have "\<not> bit F k" using lit.prems by simp
  moreover have "drop (Suc p) s = b @ post" using lit.prems(7) body by (simp add: drop_Suc flip: tl_drop)
  moreover have "bidx s p = Inr (src ! i)" using lit.prems(7) body by (simp add: bidx_drop)
  moreover have "take i src @ [src ! i] = take (i + 1) src" using lit by (simp add: take_Suc_conv_app_nth)
  moreover note lit.IH [of b "Suc p"]
  ultimately show ?case using lit.prems lit.hyps b body
    by (subst dec_bits_lit [where b = "src ! i"]) simp_all
next
  case (mat k ks i f out i' f' out' off ln)
  let ?t = "push_bit 4 (off - 1) OR (ln - MIN_MATCH)"
  obtain b where b: "out' = (out @ token off ln) @ b" using enc_bits_body [OF mat(4)] by blast
  with mat.prems have body: "body = token off ln @ b" by simp
  note fm = find_match_spec [OF mat(2,3)]
  note tf = token_fields [OF fm(4,6,1,2)]
  have "bit f' k = bit (f OR push_bit k 1) k" using enc_bits_flags_other [OF mat(4)] mat.prems by simp
  then have "bit F k" using mat.prems by (simp add: bit_simps)
  moreover have "drop (p + 2) s = b @ post"
    using arg_cong [OF mat.prems(7), of "drop 2"] body by (simp add: add.commute)
  moreover have "unpack_le 2 s p = Inr ?t"
    using unpack_le_drop [of p s "token off ln" "b @ post" 2] mat.prems(7) body tf(1) by (simp add: token_def)
  moreover have "copy_match (int i - int off) [0..<ln] (take i src) = Inr (take (i + ln) src)"
    using mat copy_match_found by simp
  moreover have "\<forall>j \<in> set ks. \<not> bit (f OR push_bit k 1) j"
    using mat.prems by (auto simp: bit_simps)
  moreover note mat.IH [of b "p + 2"]
  ultimately show ?case using mat.prems mat.hyps b body fm(3)
    by (subst dec_bits_mat [OF _ _ _ tf(2,3)]) simp_all
qed

section \<open>The outer loops\<close>

lemma bit_flag_byte: "k < 8 \<Longrightarrow> bit (of_nat f :: byte) k = bit f k"
  by (simp add: bit_simps)

text \<open>One turn of the compressor's outer loop: a flag byte and the body of its group.\<close>

lemma compress_loop_step:
  assumes "i < n"
  obtains i' f' b where
    "enc_bits src n [0..<8] i 0 (out @ [0]) = Inr (i', f', (out @ [0]) @ b)"
    "i < i'" "i + 8 \<le> i' \<or> n \<le> i'" "f' < 256" "length b \<le> i' - i"
    "compress_loop src n i out = compress_loop src n i' (out @ of_nat f' # b)"
proof -
  obtain i' f' out' where e: "enc_bits src n [0..<8] i 0 (out @ [0]) = Inr (i', f', out')"
    using enc_bits_total by blast
  obtain b where b: "out' = (out @ [0]) @ b" "length b \<le> i' - i" using enc_bits_body [OF e] by blast
  have p: "i \<le> i'" "i + 8 \<le> i' \<or> n \<le> i'" using enc_bits_progress [OF e] by auto
  have f: "f' < 256" using enc_bits_flags_less [OF e, of 8] by (simp add: atLeast0LessThan)
  have "do_write (SetByte (length out) (int f')) out' = Inr (out @ of_nat f' # b)"
    using b(1) f by simp
  with e assms have "compress_loop src n i out = compress_loop src n i' (out @ of_nat f' # b)"
    by (subst compress_loop.simps) simp
  with that e b p f assms show thesis by auto
qed

lemma compress_loop_total: "\<exists>z. compress_loop src n i out = Inr z"
proof (induction "n - i" arbitrary: i out rule: less_induct)
  case less
  show ?case
  proof (cases "i < n")
    case True
    from compress_loop_step [OF True, of src out] obtain i' out2
      where "i < i'" "compress_loop src n i out = compress_loop src n i' out2" by metis
    then show ?thesis using less [of i' out2] True by simp
  qed (simp add: compress_loop.simps)
qed

lemma compress_loop_decodes:
  assumes "compress_loop src n i out = Inr z" and "n = length src" and "i \<le> n"
  shows "\<exists>body. z = out @ body \<and> length body \<le> (n - i) + (n - i + 7) div 8 \<and>
     (\<forall>s p post. drop p s = body @ post \<longrightarrow> decompress_loop s n p (take i src) = Inr src)"
  using assms
proof (induction "n - i" arbitrary: i out rule: less_induct)
  case less
  show ?case
  proof (cases "i < n")
    case True
    from compress_loop_step [OF True, of src out] obtain i' f' b where
      e: "enc_bits src n [0..<8] i 0 (out @ [0]) = Inr (i', f', (out @ [0]) @ b)" and
      st: "i < i'" "i + 8 \<le> i' \<or> n \<le> i'" "f' < 256" "length b \<le> i' - i"
      "compress_loop src n i out = compress_loop src n i' (out @ of_nat f' # b)" by metis
    have i': "i' \<le> n" using enc_bits_le [OF e] True by simp
    have "n - i' < n - i" using st(1) True by linarith
    from less.hyps [OF this, of "out @ of_nat f' # b"] less.prems st(5) i'
    obtain body where z: "z = (out @ of_nat f' # b) @ body"
      and len: "length body \<le> (n - i') + (n - i' + 7) div 8"
      and dec: "\<And>s p post. drop p s = body @ post \<Longrightarrow> decompress_loop s n p (take i' src) = Inr src"
      by auto
    have "decompress_loop s n p (take i src) = Inr src" if s: "drop p s = of_nat f' # b @ body @ post" for s p post
    proof -
      have p: "p < length s" "s ! p = of_nat f'"
        using s by (metis drop_all linorder_not_le list.distinct(1), metis nth_via_drop)
      have "drop (Suc p) s = b @ body @ post" using s by (simp add: drop_Suc flip: tl_drop)
      then have "dec_bits s n (of_nat f') [0..<8] (Suc p) (take i src) = Inr (Suc p + length b, take i' src)"
        using less.prems True by (intro dec_enc_bits [OF e]) (auto simp: bit_flag_byte)
      moreover have "drop (Suc p + length b) s = body @ post"
        using arg_cong [OF \<open>drop (Suc p) s = _\<close>, of "drop (length b)"] by (simp add: add.commute)
      ultimately show ?thesis
        using p dec True less.prems(2,3) by (subst decompress_loop.simps) (simp add: min_def)
    qed
    moreover have "length (of_nat f' # b @ body) \<le> (n - i) + (n - i + 7) div 8"
      using st(1,2,4) len i' True by auto
    ultimately show ?thesis
      by (intro exI [of _ "of_nat f' # b @ body"]) (simp add: z)
  next
    case False
    with less.prems show ?thesis by (simp add: compress_loop.simps decompress_loop.simps)
  qed
qed

lemma compress_container:
  assumes "length src < 2 ^ 32"
  obtains body where
    "compress src = Inr (le_bytes 4 LZSS_MAGIC @ le_bytes 4 (length src) @ body)"
    "length body \<le> length src + (length src + 7) div 8"
    "\<forall>s p post. drop p s = body @ post \<longrightarrow> decompress_loop s (length src) p [] = Inr src"
proof -
  let ?h = "le_bytes 4 LZSS_MAGIC @ le_bytes 4 (length src)"
  obtain z where z: "compress_loop src (length src) 0 ?h = Inr z" using compress_loop_total by blast
  with assms have "compress src = Inr z" by (simp add: compress_def pack_le_def LZSS_MAGIC_def)
  with compress_loop_decodes [OF z refl] that show thesis by auto
qed

lemma decompress_compress:
  assumes "compress src = Inr z"
  shows "decompress (z @ post) = Inr src"
proof -
  have "length src < 2 ^ 32"
    using assms by (auto simp: compress_def pack_le_eq_Inr)
  from compress_container [OF this] obtain body where
    b: "compress src = Inr (le_bytes 4 LZSS_MAGIC @ le_bytes 4 (length src) @ body)"
    "\<forall>s p post. drop p s = body @ post \<longrightarrow> decompress_loop s (length src) p [] = Inr src" by metis
  let ?s = "le_bytes 4 LZSS_MAGIC @ le_bytes 4 (length src) @ body @ post"
  have z: "z @ post = ?s" using b(1) assms by simp
  have "bslice 0 4 ?s = le_bytes 4 LZSS_MAGIC" "bslice 4 8 ?s = le_bytes 4 (length src)"
    by (simp_all add: bslice_def)
  moreover have "drop 8 ?s = body @ post" by simp
  ultimately show ?thesis
    using b(2) \<open>length src < _\<close> unfolding decompress_def z by (simp add: LZSS_MAGIC_def Let_def)
qed

text \<open>What a decoder returns never exceeds the declared length by a whole match.\<close>

lemma copy_match_length: "copy_match st ks out = Inr out' \<Longrightarrow> length out' = length out + length ks"
  by (induction st ks out rule: copy_match.induct) auto

lemma token_length_less: "(tok AND 0xF) + MIN_MATCH < 19" for tok :: nat
  using take_bit_eq_mask [of 4 tok] by (simp add: mask_eq_exp_minus_1 take_bit_eq_mod MIN_MATCH_def flip: take_bit_eq_mask)

lemma dec_bits_bound:
  "dec_bits s tot F ks i out = Inr (i', out') \<Longrightarrow> length out < tot + 18 \<Longrightarrow>
   length out \<le> length out' \<and> length out' < tot + 18"
proof (induction s tot F ks i out rule: dec_bits.induct)
  case (2 s tot F k ks i out)
  show ?case
  proof (cases "tot \<le> length out")
    case True
    with 2 show ?thesis by simp
  next
    case False
    show ?thesis
    proof (cases "bit F k")
      case True
      with False 2(3) obtain tok out2 where t: "unpack_le 2 s i = Inr tok"
        "copy_match (int (length out) - int (drop_bit 4 tok + 1)) [0..<(tok AND 0xF) + MIN_MATCH] out = Inr out2"
        "dec_bits s tot F ks (i + 2) out2 = Inr (i', out')" by (auto simp: Let_def)
      have "length out2 = length out + ((tok AND 0xF) + MIN_MATCH)"
        using copy_match_length [OF t(2)] by simp
      with False token_length_less [of tok] 2(1) [OF False True t(1) refl refl t(2,3)] show ?thesis by simp
    next
      case lit: False
      with 2 False show ?thesis by (auto simp: bidx_eq_Inr)
    qed
  qed
qed simp

lemma decompress_loop_end: "tot \<le> length out \<Longrightarrow> decompress_loop s tot i out = Inr out"
  by (simp add: decompress_loop.simps)

lemma decompress_loop_bound:
  "decompress_loop s tot i out = Inr out' \<Longrightarrow> length out < tot + 18 \<Longrightarrow>
   tot \<le> length out' \<and> length out' < tot + 18"
proof (induction s tot i out rule: decompress_loop.induct)
  case (1 s tot i out)
  show ?case
  proof (cases "length out < tot")
    case True
    with "1.prems"(1) obtain i2 out2 where d: "dec_bits s tot (s ! i) [0..<8] (i + 1) out = Inr (i2, out2)"
      "decompress_loop s tot i2 out2 = Inr out'" "\<not> length s \<le> i"
      by (subst (asm) decompress_loop.simps) (auto split: if_splits)
    then show ?thesis using "1.IH" [OF True d(3,1) refl d(2)] dec_bits_bound [OF d(1)] "1.prems"(2) by simp
  next
    case False
    with "1.prems" show ?thesis by (simp add: decompress_loop_end)
  qed
qed

text \<open>Bytes after the end of a stream never change what it decodes to.\<close>

lemma dec_bits_extend: "dec_bits s tot F ks i out = Inr r \<Longrightarrow> dec_bits (s @ post) tot F ks i out = Inr r"
  by (induction s tot F ks i out rule: dec_bits.induct)
     (auto simp: Let_def unpack_le_eq_Inr bidx_eq_Inr nth_append unpack_le_ok split: if_splits)

lemma decompress_loop_extend:
  "decompress_loop s tot i out = Inr r \<Longrightarrow> decompress_loop (s @ post) tot i out = Inr r"
proof (induction s tot i out rule: decompress_loop.induct)
  case (1 s tot i out)
  show ?case
  proof (cases "length out < tot")
    case True
    with "1.prems"(1) obtain i2 out2 where d: "dec_bits s tot (s ! i) [0..<8] (i + 1) out = Inr (i2, out2)"
      "decompress_loop s tot i2 out2 = Inr r" "\<not> length s \<le> i"
      by (subst (asm) decompress_loop.simps) (auto split: if_splits)
    then show ?thesis
      using "1.IH" [OF True d(3,1) refl d(2)] dec_bits_extend [OF d(1), of post] True
      by (subst decompress_loop.simps) (simp add: nth_append)
  next
    case False
    with "1.prems" show ?thesis
      by (simp add: decompress_loop_end)
  qed
qed

section \<open>Checksum\<close>

lemma adler_sums_Cons: "adler_sums (d # ds) (a, b) = adler_sums ds (a + unat d, b + (a + unat d))"
  by (simp add: adler_sums_def)

lemma adler_sums_Nil [simp]: "adler_sums [] ab = ab"
  by (simp add: adler_sums_def)

lemma adler_sums_append: "adler_sums (xs @ ys) ab = adler_sums ys (adler_sums xs ab)"
  by (simp add: adler_sums_def)

lemma adler_sums_fst: "fst (adler_sums ds (a, b)) = a + sum_list (map unat ds)"
  by (induction ds arbitrary: a b) (auto simp: adler_sums_Cons)

lemma adler_sums_shift: "adler_sums ds (a + c, b + e) =
   (fst (adler_sums ds (a, b)) + c, snd (adler_sums ds (a, b)) + e + length ds * c)"
  by (induction ds arbitrary: a b c e) (auto simp: adler_sums_Cons add.assoc add.left_commute algebra_simps)

lemma hand_sums:
  "fold (\<lambda>byte (a, b). let a' = (a + unat byte) mod 65521 in (a', (b + a') mod 65521)) ds
     (a mod 65521, b mod 65521)
   = (fst (adler_sums ds (a, b)) mod 65521, snd (adler_sums ds (a, b)) mod 65521)"
proof (induction ds arbitrary: a b)
  case (Cons d ds)
  have "(a mod 65521 + unat d) mod 65521 = (a + unat d) mod 65521"
    and "(b mod 65521 + (a + unat d) mod 65521) mod 65521 = (b + (a + unat d)) mod 65521"
    by (simp_all only: mod_add_left_eq mod_add_right_eq)
  then show ?case using Cons [of "a + unat d" "b + (a + unat d)"]
    by (simp only: adler_sums_Cons Let_def fold_simps case_prod_conv)
qed simp

lemma and_u32: "x < 2 ^ 32 \<Longrightarrow> x AND 0xFFFFFFFF = x" for x :: nat
  using take_bit_eq_mask [of 32 x] take_bit_nat_eq_self [of x 32] by (simp add: mask_eq_exp_minus_1)

lemma checksum_eq: "checksum data =
   snd (adler_sums data (1, 0)) mod 65521 * 65536 + fst (adler_sums data (1, 0)) mod 65521"
proof -
  have "snd (adler_sums data (1, 0)) mod 65521 < 65521" "fst (adler_sums data (1, 0)) mod 65521 < 65521"
    by simp_all
  then show ?thesis
    by (simp add: checksum_def adler32_def case_prod_beta and_u32)
qed

lemma checksum_halves:
  "checksum data mod 65536 = fst (adler_sums data (1, 0)) mod 65521"
  "checksum data div 65536 = snd (adler_sums data (1, 0)) mod 65521"
proof -
  have "fst (adler_sums data (1, 0)) mod 65521 < 65536" by (rule less_trans [of _ 65521]) simp_all
  then show "checksum data mod 65536 = fst (adler_sums data (1, 0)) mod 65521"
    "checksum data div 65536 = snd (adler_sums data (1, 0)) mod 65521"
    by (simp_all add: checksum_eq)
qed

lemma checksum_less: "checksum data < 2 ^ 32"
proof -
  have "snd (adler_sums data (1, 0)) mod 65521 < 65521" "fst (adler_sums data (1, 0)) mod 65521 < 65521"
    by simp_all
  then show ?thesis unfolding checksum_eq by simp
qed

lemma mod_eq_close: "x mod m = y mod m \<Longrightarrow> x \<le> y \<Longrightarrow> y - x < m \<Longrightarrow> x = y" for x y m :: nat
proof -
  assume eq: "x mod m = y mod m" and le: "x \<le> y" and lt: "y - x < m"
  have "m dvd y - x" using eq le by (metis mod_eq_dvd_iff_nat)
  then have "\<not> 0 < y - x" using lt by (metis nat_dvd_not_less)
  with le show "x = y" by linarith
qed

lemma sum_list_unat_update:
  "i < length ds \<Longrightarrow>
   sum_list (map unat (ds[i := b])) + unat (ds ! i) = sum_list (map unat ds) + unat (b :: byte)"
  by (induction ds arbitrary: i) (auto simp: nth_Cons' split: nat.splits)

lemma adler_byte_change:
  assumes "i < length data" and "b \<noteq> data ! i"
  shows "fst (adler_sums (data[i := b]) (1, 0)) mod 65521 \<noteq> fst (adler_sums data (1, 0)) mod 65521"
proof
  let ?x = "fst (adler_sums (data[i := b]) (1, 0))" and ?y = "fst (adler_sums data (1, 0))"
  assume eq: "?x mod 65521 = ?y mod 65521"
  have sum: "?x + unat (data ! i) = ?y + unat b"
    using sum_list_unat_update [OF assms(1), of b] by (simp add: adler_sums_fst)
  have "unat (data ! i) < 256" "unat b < 256" by simp_all
  with sum have "?x - ?y < 65521" "?y - ?x < 65521" by linarith+
  with eq mod_eq_close [of ?x 65521 ?y] mod_eq_close [of ?y 65521 ?x] have "?x = ?y" by linarith
  with sum have "unat b = unat (data ! i)" by linarith
  with assms(2) show False by (simp add: word_unat_eq_iff)
qed

section \<open>The codec as an interface\<close>

text \<open>
  What the image builder, the checker and the boot model rely on: every input below the
  format's limit is encoded, and an encoding is decoded back whatever padding follows it.
\<close>

locale padded_codec =
  fixes enc dec :: "bytes \<Rightarrow> bytes res" and cap :: nat
  assumes enc_total: "length s < cap \<Longrightarrow> \<exists>z. enc s = Inr z"
    and dec_enc: "enc s = Inr z \<Longrightarrow> dec (z @ pad) = Inr s"
begin

lemma enc_prefix_free: "enc s = Inr z \<Longrightarrow> enc t = Inr (z @ pad) \<Longrightarrow> s = t"
  using dec_enc [of s z pad] dec_enc [of t "z @ pad" "[]"] by simp

lemma enc_injective: "enc s = Inr z \<Longrightarrow> enc t = Inr z \<Longrightarrow> s = t"
  using enc_prefix_free [of s z t "[]"] by simp

lemma dec_padded: "enc s = Inr z \<Longrightarrow> bslice 0 (length z) img = z \<Longrightarrow> dec img = Inr s"
proof -
  assume e: "enc s = Inr z" and "bslice 0 (length z) img = z"
  then have "img = z @ drop (length z) img" by (metis append_take_drop_id bslice_def drop0 diff_zero)
  with dec_enc [OF e] show ?thesis by metis
qed

end

interpretation lz: padded_codec compress decompress "2 ^ 32"
proof unfold_locales
  fix s :: bytes
  assume "length s < 2 ^ 32"
  then show "\<exists>z. compress s = Inr z" by (metis compress_container)
qed (rule decompress_compress)

section \<open>Properties\<close>

text \<open>C3: every input shorter than 4 GiB is compressed, and the decompressor restores it exactly,
  whatever bytes (the zero padding of the last sector, the volume behind it) follow the stream.\<close>

theorem lzss_roundtrip:
  assumes "length src < 2 ^ 32"
  shows "\<exists>z. compress src = Inr z \<and> (\<forall>pad. decompress (z @ pad) = Inr src)"
  using lz.enc_total [OF assms] lz.dec_enc by blast

theorem lzss_roundtrip_witness:
  "length [113, 105, 122, 111, 113, 105, 122, 111 :: byte] < 2 ^ 32 \<and>
   (\<exists>z. compress [113, 105, 122, 111, 113, 105, 122, 111] = Inr z \<and>
        (\<forall>pad. decompress (z @ pad) = Inr [113, 105, 122, 111, 113, 105, 122, 111]))"
  using lzss_roundtrip [of "[113, 105, 122, 111, 113, 105, 122, 111]"] by simp

text \<open>C28: the compressor never fails below 4 GiB and never grows its input by more than the eight
  header bytes and one flag byte for every eight input bytes; the header it writes is the
  magic number and the input length.\<close>

theorem compress_size_bound:
  assumes "length src < 2 ^ 32"
  shows "\<exists>z. compress src = Inr z \<and> length z \<le> 8 + length src + (length src + 7) div 8 \<and>
             unpack_le 4 z 0 = Inr LZSS_MAGIC \<and> unpack_le 4 z 4 = Inr (length src)"
proof -
  from compress_container [OF assms] obtain body where
    z: "compress src = Inr (le_bytes 4 LZSS_MAGIC @ le_bytes 4 (length src) @ body)"
    and "length body \<le> length src + (length src + 7) div 8" by metis
  moreover have "unpack_le 4 (le_bytes 4 LZSS_MAGIC @ le_bytes 4 (length src) @ body) 0 = Inr LZSS_MAGIC"
    by (simp add: unpack_le_def bslice_def LZSS_MAGIC_def)
  moreover have "unpack_le 4 (le_bytes 4 LZSS_MAGIC @ le_bytes 4 (length src) @ body) 4 = Inr (length src)"
    using assms by (simp add: unpack_le_def bslice_def)
  ultimately show ?thesis by simp
qed

theorem compress_size_bound_witness:
  "\<exists>z. compress [1, 2, 3] = Inr z \<and> length z \<le> 12 \<and>
       unpack_le 4 z 0 = Inr LZSS_MAGIC \<and> unpack_le 4 z 4 = Inr 3"
  using compress_size_bound [of "[1, 2, 3]"] by (simp add: numeral_3_eq_3)

text \<open>C27: for any stream whatever, if the decompressor returns, it returns at least the declared
  number of bytes and fewer than 18 bytes more: the overrun of a hostile stream is bounded by
  one match.\<close>

theorem decompress_bounded:
  assumes "decompress s = Inr out" and "unpack_le 4 s 4 = Inr d"
  shows "d \<le> length out \<and> length out < d + 18"
  using assms decompress_loop_bound [of s "le_nat (bslice 4 8 s)" 8 "[]" out]
  by (auto simp: decompress_def unpack_le_eq_Inr Let_def split: if_splits)

text \<open>A stream whose header declares one byte and whose flags ask for a literal and then a match:
  only the literal is read.\<close>

theorem decompress_bounded_witness:
  "decompress [0x4C, 0x5A, 0x49, 0x51, 1, 0, 0, 0, 2, 97] = Inr [97] \<and>
   unpack_le 4 [0x4C, 0x5A, 0x49, 0x51, 1, 0, 0, 0, 2, 97] 4 = Inr 1 \<and>
   1 \<le> length [97 :: byte] \<and> length [97 :: byte] < 1 + 18"
proof -
  let ?s = "[0x4C, 0x5A, 0x49, 0x51, 1, 0, 0, 0, 2, 97] :: bytes"
  have d: "decompress ?s = Inr [97]"
    by (simp add: decompress_def Let_def LZSS_MAGIC_def bslice_def decompress_loop.simps
        dec_bits_lit dec_bits_end bidx_def upt_conv_Cons)
  have u: "unpack_le 4 ?s 4 = Inr 1" by (simp add: unpack_le_def bslice_def)
  from d u decompress_bounded [OF d u] show ?thesis by blast
qed

text \<open>A match of \<open>L\<close> bytes at \<open>j\<close> that the token format can express at position \<open>i\<close>.\<close>

definition candidate :: "bytes \<Rightarrow> nat \<Rightarrow> nat \<Rightarrow> nat \<Rightarrow> nat \<Rightarrow> bool" where
  "candidate src i n j L \<longleftrightarrow> j < i \<and> i \<le> j + WINDOW \<and> L \<le> MAX_MATCH \<and> i + L \<le> n \<and>
     (\<forall>k < L. src ! (j + k) = src ! (i + k))"

lemma candidate_match_len:
  "candidate src i n j L \<Longrightarrow> L \<le> match_len src i j (min MAX_MATCH (n - i)) 0"
  by (subst match_len_ge_iff) (auto simp: candidate_def)

text \<open>C10: the match search returns the longest agreement that starts inside the 4 KiB window, within
  the limits of the token (3 to 18 bytes, not past the end), and among the longest the
  nearest; it returns no match exactly when no agreement of three bytes exists there.\<close>

theorem find_match_longest:
  assumes "find_match src i n = (off, ln)"
  shows "if ln = 0 then (\<forall>j L. candidate src i n j L \<longrightarrow> L < MIN_MATCH)
         else MIN_MATCH \<le> ln \<and> 1 \<le> off \<and> off \<le> i \<and> candidate src i n (i - off) ln \<and>
              (\<forall>j L. candidate src i n j L \<longrightarrow> L \<le> ln \<and> (L = ln \<longrightarrow> j \<le> i - off))"
proof (cases "ln = 0")
  case True
  have "L < MIN_MATCH" if "candidate src i n j L" for j L
    using candidate_match_len [OF that] find_match_none [of src i n off j] assms True that
    by (auto simp: candidate_def)
  with True show ?thesis by simp
next
  case False
  note fm = find_match_spec [OF assms False]
  have "L \<le> ln \<and> (L = ln \<longrightarrow> j \<le> i - off)" if c: "candidate src i n j L" for j L
  proof -
    have "j < i" "i \<le> j + WINDOW" using c by (auto simp: candidate_def)
    with fm(8,9) fm(5) candidate_match_len [OF c] show ?thesis by fastforce
  qed
  moreover have "candidate src i n (i - off) ln" using fm by (auto simp: candidate_def)
  ultimately show ?thesis using False fm by simp
qed

theorem find_match_longest_witness:
  "find_match [97, 98, 99, 97, 98, 99] 3 6 = (3, 3) \<and>
   candidate [97, 98, 99, 97, 98, 99] 3 6 0 3 \<and>
   \<not> candidate [97, 98, 99, 97, 98, 99] 3 6 1 3"
proof -
  have "find_match [97, 98, 99, 97, 98, 99] 3 6 = (3, 3)"
    by (simp add: find_match_def MAX_MATCH_def MIN_MATCH_def WINDOW_def find_loop.simps match_len.simps)
  from find_match_longest [OF this] this show ?thesis by auto
qed

lemma checksum_hand: "checksum data = hand_adler data"
proof -
  have "push_bit 16 b OR a = b * 65536 + a" if "a < 65521" for a b :: nat
    using that push_bit_or_add [of a 16 b] by (simp add: push_bit_eq_mult)
  moreover have "hand_adler data = (push_bit 16 (snd (adler_sums data (1, 0)) mod 65521) OR
      fst (adler_sums data (1, 0)) mod 65521) AND 0xFFFFFFFF"
    using hand_sums [of data 1 0] by (simp add: hand_adler_def)
  ultimately show ?thesis using checksum_less [of data] by (simp add: checksum_eq and_u32)
qed

text \<open>C30: the checksum written into the boot sector (zlib's adler32 seeded with 1) is the loop of the
  unit tests, on every input.\<close>

theorem checksum_hand_adler: "checksum data = hand_adler data"
  by (rule checksum_hand)

text \<open>C29: a blob in which any one byte is changed has a different checksum, so the loader's test
  always notices a single corrupted byte.\<close>

theorem checksum_detects_byte_change:
  assumes "i < length data" and "b \<noteq> data ! i"
  shows "checksum (data[i := b]) \<noteq> checksum data"
  using adler_byte_change [OF assms] checksum_halves(1) by metis

theorem checksum_detects_byte_change_witness:
  "checksum ([1, 2, 3][1 := 7]) \<noteq> checksum [1, 2, 3]"
  using checksum_detects_byte_change [of 1 "[1, 2, 3]" 7] by simp

end
