(* ===== verification/Qizo_Fat.thy ===== *)
theory Qizo_Fat
  imports Qizo_Layout
begin

text \<open>
  The FAT volume of the disk image builder, \<^verbatim>\<open>src/tools/mkqizoimg/mkqizoimg.py\<close>: planning
  (\<open>fat_size_for\<close>, \<open>plan_layout\<close>, \<open>pick_layout\<close>), directory entries (\<open>dir_entry\<close>), the allocation
  table (\<open>fat_set\<close>), and the two loops of \<open>build_image\<close> that fill the table and the root directory.

  Names and labels are ASCII strings. Sector counts that can go negative are \<open>int\<close>. The lemmas
  show when planning succeeds and what a plan guarantees, that the table is an array of entries
  for both widths (the locale \<open>fat_table\<close>), and that the allocator lays every file out as one
  chain of consecutive clusters (the locale \<open>fat_volume\<close>).
\<close>

section \<open>Definitions\<close>

subsection \<open>Planning the volume\<close>

definition STAGE2_LBA :: nat where "STAGE2_LBA = PART_LBA"
definition RESERVED :: nat where "RESERVED = 32"

definition ROOT_SECTORS :: "(nat \<times> nat) list" where
  "ROOT_SECTORS = [(12, 14), (16, 14), (32, 0)]"

definition root_sectors_of :: "nat \<Rightarrow> nat res" where
  "root_sectors_of bits = (case map_of ROOT_SECTORS bits of None \<Rightarrow> Inl (KeyError ''bits'') | Some r \<Rightarrow> Inr r)"

definition fat_size_for :: "int \<Rightarrow> nat \<Rightarrow> nat" where
  "fat_size_for clusters bits =
     (let sector = int SECTOR in
      nat (if bits = 12 then max 1 ((clusters * 3 + sector * 8 - 1) div (sector * 8))
           else if bits = 16 then max 1 ((clusters * 16 + sector * 8 - 1) div (sector * 8))
           else max 1 ((clusters * 32 + sector * 8 - 1) div (sector * 8))))"

record layout =
  bits :: nat
  fat_size :: nat
  clusters :: int
  reserved :: nat
  root_sectors :: nat
  part_lba :: nat

definition data_sectors :: "int \<Rightarrow> nat \<Rightarrow> nat \<Rightarrow> nat \<Rightarrow> nat \<Rightarrow> int" where
  "data_sectors total_sectors part rsv roots fs =
     total_sectors - int part - int rsv - 2 * int fs - int roots"

text \<open>The \<open>for _ in range(48)\<close> loop that grows the table until it covers the clusters.\<close>

fun plan_loop :: "nat \<Rightarrow> int \<Rightarrow> nat \<Rightarrow> nat \<Rightarrow> nat \<Rightarrow> nat \<Rightarrow> nat \<Rightarrow> nat" where
  "plan_loop 0 total_sectors part rsv roots b fs = fs"
| "plan_loop (Suc k) total_sectors part rsv roots b fs =
     (let need = fat_size_for (data_sectors total_sectors part rsv roots fs + 2) b in
      if need \<le> fs then fs else plan_loop k total_sectors part rsv roots b need)"

definition plan_layout :: "int \<Rightarrow> nat \<Rightarrow> nat \<Rightarrow> nat \<Rightarrow> layout option res" where
  "plan_layout total_sectors part rsv b =
     bindE (root_sectors_of b) (\<lambda>roots.
       let fs = plan_loop 48 total_sectors part rsv roots b 1;
           cl = data_sectors total_sectors part rsv roots fs
       in Inr (if cl < 4085 then None
               else Some \<lparr>bits = b, fat_size = fs, clusters = cl, reserved = rsv,
                          root_sectors = roots, part_lba = part\<rparr>))"

function pick_loop :: "int \<Rightarrow> nat \<Rightarrow> (int \<times> layout) res" where
  "pick_loop tot part =
     (if tot < 2 ^ 22 then
        bindE (plan_layout tot part RESERVED 16)
          (\<lambda>l. case l of Some lay \<Rightarrow> Inr (tot, lay) | None \<Rightarrow> pick_loop (tot + 256) part)
      else Inl (SystemExit ''qizo: unable to lay out a filesystem image'' []))"
  by pat_completeness auto
termination by (relation "measure (\<lambda>(tot, part). nat (2 ^ 22 - tot))") auto

declare pick_loop.simps [simp del]

definition pick_layout :: "nat \<Rightarrow> (int \<times> layout) res" where
  "pick_layout blob_sectors =
     (let part = BLOB_LBA + blob_sectors
      in pick_loop (int (part + RESERVED + 2 + 14 + 4096)) part)"

subsection \<open>Directory entries and the allocation table\<close>

text \<open>\<open>name.rsplit(".", 1)\<close> when the name has a dot.\<close>

definition split_name :: "string \<Rightarrow> string \<times> string" where
  "split_name name =
     (if CHR ''.'' \<in> set name
      then (rev (tl (dropWhile (\<lambda>c. c \<noteq> CHR ''.'') (rev name))), rev (takeWhile (\<lambda>c. c \<noteq> CHR ''.'') (rev name)))
      else (name, ''''))"

definition upper_char :: "char \<Rightarrow> char" where
  "upper_char c = (if 97 \<le> (of_char c :: nat) \<and> (of_char c :: nat) \<le> 122 then char_of (of_char c - 32 :: nat) else c)"

definition dir_entry :: "string \<Rightarrow> nat \<Rightarrow> nat \<Rightarrow> nat \<Rightarrow> bytes res" where
  "dir_entry name fsize cluster attrs =
     (let (base, ext) = split_name name;
          base = ljust 8 (CHR '' '') (take 8 (map upper_char base));
          ext = ljust 3 (CHR '' '') (take 3 (map upper_char ext));
          modtime = 0x4000; moddate = 0x5C61
      in run_writes
       [SetSlice 0 8 (encode base),
        SetSlice 8 11 (encode ext),
        SetByte 11 (int attrs),
        SetByte 12 0,
        SetByte 13 0,
        PackInto 2 14 modtime,
        PackInto 2 16 moddate,
        PackInto 2 18 moddate,
        PackInto 2 20 0,
        PackInto 2 22 modtime,
        PackInto 2 24 moddate,
        PackInto 2 26 (int (cluster AND 0xFFFF)),
        PackInto 4 28 (int fsize)] (zeros 32))"

definition fat_set :: "bytes \<Rightarrow> nat \<Rightarrow> nat \<Rightarrow> nat \<Rightarrow> bytes res" where
  "fat_set fat b index val =
     (if b = 12 then
        let off = index * 3 div 2 in
        if odd index then
          bindE (bidx fat off) (\<lambda>x.
          bindE (do_write (SetByte off (int ((unat x AND 0x0F) OR push_bit 4 (val AND 0x0F)))) fat) (\<lambda>fat1.
          do_write (SetByte (off + 1) (int (drop_bit 4 val AND 0xFF))) fat1))
        else
          bindE (do_write (SetByte off (int (val AND 0xFF))) fat) (\<lambda>fat1.
          bindE (bidx fat1 (off + 1)) (\<lambda>x.
          do_write (SetByte (off + 1) (int ((unat x AND 0xF0) OR (drop_bit 8 val AND 0x0F)))) fat1))
      else do_write (PackInto 2 (index * 2) (int (val AND 0xFFFF))) fat)"

subsection \<open>The image\<close>

type_synonym files = "(string \<times> bytes) list"

record alloc =
  a_fat :: bytes
  a_of :: "string \<rightharpoonup> nat \<times> nat"
  a_nxt :: nat

definition sectors_for :: "nat \<Rightarrow> nat" where
  "sectors_for n = (n + SECTOR - 1) div SECTOR"

definition eof_mark :: "nat \<Rightarrow> nat" where
  "eof_mark b = (if b = 12 then 0xFFF else 0xFFFF)"

text \<open>The cluster chain of one file, and the loop over the files.\<close>

definition alloc_chain :: "nat \<Rightarrow> nat \<Rightarrow> nat \<Rightarrow> bytes \<Rightarrow> bytes res" where
  "alloc_chain b nxt count fat =
     bindE (foldE (\<lambda>i f. fat_set f b (nxt + i) (nxt + i + 1)) [0..<count - 1] fat)
       (\<lambda>f. fat_set f b (nxt + count - 1) (eof_mark b))"

definition alloc_file :: "nat \<Rightarrow> string \<times> bytes \<Rightarrow> alloc \<Rightarrow> alloc res" where
  "alloc_file b file a =
     (let count = sectors_for (length (snd file)) in
      if count \<noteq> 0 then
        bindE (alloc_chain b (a_nxt a) count (a_fat a)) (\<lambda>fat.
          Inr \<lparr>a_fat = fat, a_of = (a_of a)(fst file \<mapsto> (a_nxt a, count)), a_nxt = a_nxt a + count\<rparr>)
      else Inr a)"

definition alloc_files :: "nat \<Rightarrow> nat \<Rightarrow> files \<Rightarrow> alloc res" where
  "alloc_files b fs files =
     bindE (foldE (alloc_file b) files \<lparr>a_fat = zeros (fs * SECTOR), a_of = Map.empty, a_nxt = 2\<rparr>) (\<lambda>a.
     bindE (fat_set (a_fat a) b 0 (if b = 16 then eof_mark b else 0xF8)) (\<lambda>fat.
     bindE (fat_set fat b 1 (eof_mark b)) (\<lambda>fat.
     Inr (a\<lparr>a_fat := fat\<rparr>))))"

text \<open>The root directory: the label entry, then one entry per file.\<close>

definition root_file :: "(string \<rightharpoonup> nat \<times> nat) \<Rightarrow> string \<times> bytes \<Rightarrow> bytes \<times> nat \<Rightarrow> (bytes \<times> nat) res" where
  "root_file cluster_of file ro =
     (let first = fst (case cluster_of (fst file) of None \<Rightarrow> (0, 0) | Some p \<Rightarrow> p) in
      bindE (dir_entry (fst file) (length (snd file)) first 0x20) (\<lambda>e.
        Inr (bslice_set (snd ro) (snd ro + 32) e (fst ro), snd ro + 32)))"

definition build_root :: "nat \<Rightarrow> string \<Rightarrow> (string \<rightharpoonup> nat \<times> nat) \<Rightarrow> files \<Rightarrow> bytes res" where
  "build_root roots label cluster_of files =
     bindE (dir_entry label 0 0 0x08) (\<lambda>e.
     bindE (foldE (root_file cluster_of) files (bslice_set 0 32 e (zeros (roots * SECTOR)), 32)) (\<lambda>ro.
     Inr (fst ro)))"

section \<open>Planning\<close>

definition ceil_bits :: "nat \<Rightarrow> int" where
  "ceil_bits b = (if b = 12 then 3 else if b = 16 then 16 else 32)"

lemma fat_size_for_eq: "int (fat_size_for c b) = max 1 ((c * ceil_bits b + 4095) div 4096)"
  by (simp add: fat_size_for_def ceil_bits_def SECTOR_def Let_def le_max_iff_disj add.commute)

lemma fat_size_for_bounds:
  "1 \<le> fat_size_for c b" "c * ceil_bits b \<le> 4096 * int (fat_size_for c b)"
  "0 \<le> c \<Longrightarrow> 4096 * int (fat_size_for c b) \<le> max 4096 (c * ceil_bits b + 4095)"
proof -
  let ?x = "c * ceil_bits b"
  have eq: "int (fat_size_for c b) = max 1 ((?x + 4095) div 4096)" by (rule fat_size_for_eq)
  then show "1 \<le> fat_size_for c b" by linarith
  have d: "(?x + 4095) div 4096 * 4096 \<le> ?x + 4095" "?x \<le> (?x + 4095) div 4096 * 4096" by linarith+
  show "?x \<le> 4096 * int (fat_size_for c b)" using eq d by linarith
  show "0 \<le> c \<Longrightarrow> 4096 * int (fat_size_for c b) \<le> max 4096 (?x + 4095)" using eq d by linarith
qed

lemma ceil_bits_nonneg [simp]: "0 \<le> ceil_bits b"
  by (simp add: ceil_bits_def)

lemma fat_size_for_mono: "c \<le> d \<Longrightarrow> fat_size_for c b \<le> fat_size_for d b"
proof -
  assume "c \<le> d"
  then have "c * ceil_bits b \<le> d * ceil_bits b" by (simp add: mult_right_mono)
  then have "int (fat_size_for c b) \<le> int (fat_size_for d b)"
    unfolding fat_size_for_eq by (intro max.mono zdiv_mono1) simp_all
  then show ?thesis by simp
qed

text \<open>
  The loop settles after two rounds: a larger table leaves fewer clusters, so the size needed
  for a one-sector table is enough for itself.
\<close>

lemma plan_loop_settles:
  assumes "2 \<le> k"
  shows "plan_loop k t p r roots b (Suc 0) = fat_size_for (data_sectors t p r roots (Suc 0) + 2) b"
proof -
  let ?n = "fat_size_for (data_sectors t p r roots (Suc 0) + 2) b"
  obtain k' where k: "k = Suc (Suc k')" using assms by (metis Suc_le_D numeral_2_eq_2 Suc_le_mono)
  have n: "1 \<le> ?n" by (rule fat_size_for_bounds)
  have "fat_size_for (data_sectors t p r roots ?n + 2) b \<le> ?n"
    using n by (intro fat_size_for_mono) (simp add: data_sectors_def)
  then show ?thesis using n by (auto simp: k Let_def)
qed

lemma plan_layout_Some:
  assumes "plan_layout t p r b = Inr (Some lay)"
  obtains roots where "root_sectors_of b = Inr roots"
    "fat_size lay = fat_size_for (data_sectors t p r roots 1 + 2) b"
    "clusters lay = data_sectors t p r roots (fat_size lay)" "4085 \<le> clusters lay"
    "bits lay = b" "reserved lay = r" "root_sectors lay = roots" "part_lba lay = p"
proof -
  from assms obtain roots where r: "root_sectors_of b = Inr roots"
    by (auto simp: plan_layout_def)
  with assms that show thesis
    by (auto simp: plan_layout_def Let_def plan_loop_settles split: if_splits)
qed

lemma plan_layout_covers:
  assumes "plan_layout t p r b = Inr (Some lay)"
  shows "(clusters lay + 2) * ceil_bits b \<le> 4096 * int (fat_size lay)"
proof -
  obtain roots where l: "fat_size lay = fat_size_for (data_sectors t p r roots 1 + 2) b"
    "clusters lay = data_sectors t p r roots (fat_size lay)"
    using plan_layout_Some [OF assms] by metis
  have "1 \<le> fat_size lay" unfolding l(1) by (rule fat_size_for_bounds)
  then have "clusters lay + 2 \<le> data_sectors t p r roots 1 + 2"
    unfolding l(2) by (simp add: data_sectors_def)
  then have "(clusters lay + 2) * ceil_bits b \<le> (data_sectors t p r roots 1 + 2) * ceil_bits b"
    by (simp add: mult_right_mono)
  also have "\<dots> \<le> 4096 * int (fat_size lay)" unfolding l(1) by (rule fat_size_for_bounds)
  finally show ?thesis .
qed

definition default_layout :: "nat \<Rightarrow> layout" where
  "default_layout part = \<lparr>bits = 16, fat_size = 18, clusters = 4318, reserved = 32, root_sectors = 14, part_lba = part\<rparr>"

lemma plan_layout_at:
  assumes "t = int p + 46 + d" "4096 \<le> d"
  shows "plan_layout t p 32 16 =
    Inr (let fs = fat_size_for d 16; c = d - 2 * int fs in
         if c < 4085 then None
         else Some \<lparr>bits = 16, fat_size = fs, clusters = c, reserved = 32, root_sectors = 14, part_lba = p\<rparr>)"
proof -
  have r: "root_sectors_of 16 = Inr 14" by (simp add: root_sectors_of_def ROOT_SECTORS_def)
  show ?thesis
    by (simp add: plan_layout_def r plan_loop_settles Let_def) (simp add: data_sectors_def assms)
qed

lemma pick_layout_default:
  assumes "s \<le> 248"
  shows "pick_layout s = Inr (int (BLOB_LBA + s) + 4400, default_layout (BLOB_LBA + s))"
proof -
  let ?p = "BLOB_LBA + s"
  have f: "fat_size_for 4098 16 = 17" "fat_size_for 4354 16 = 18"
    by (simp_all add: fat_size_for_def SECTOR_def)
  have t: "int (?p + RESERVED + 2 + 14 + 4096) = int ?p + 4144" by (simp add: RESERVED_def)
  have 1: "plan_layout (int ?p + 4144) ?p RESERVED 16 = Inr None"
    using plan_layout_at [of "int ?p + 4144" ?p 4098] by (simp add: RESERVED_def f)
  have 2: "plan_layout (int ?p + 4144 + 256) ?p RESERVED 16 = Inr (Some (default_layout ?p))"
    using plan_layout_at [of "int ?p + 4144 + 256" ?p 4354] by (simp add: RESERVED_def f default_layout_def)
  have 3: "int ?p + 4144 < 2 ^ 22" "int ?p + 4144 + 256 < 2 ^ 22"
    using assms by (simp_all add: BLOB_LBA_def)
  show ?thesis
    unfolding pick_layout_def Let_def t pick_loop.simps [of "int ?p + 4144"]
      pick_loop.simps [of "int ?p + 4144 + 256"] using 1 2 3 by simp
qed

section \<open>The allocation table\<close>

text \<open>
  A cluster chain read through the entries \<open>e\<close> of a table: \<open>count\<close> consecutive clusters from
  \<open>first\<close>, each pointing to the next, the last one holding the end mark.
\<close>

definition chain :: "nat \<Rightarrow> (nat \<Rightarrow> nat) \<Rightarrow> nat \<Rightarrow> nat \<Rightarrow> bool" where
  "chain eof e first count \<longleftrightarrow>
     (\<forall>i < count - 1. e (first + i) = first + i + 1) \<and> e (first + count - 1) = eof"

lemma chain_frame:
  "chain eof e first count \<Longrightarrow> 1 \<le> count \<Longrightarrow> (\<And>j. first \<le> j \<Longrightarrow> j < first + count \<Longrightarrow> e' j = e j) \<Longrightarrow>
   chain eof e' first count"
  by (simp add: chain_def)

text \<open>
  What the allocator relies on in a table of entries: setting an entry inside the table
  succeeds, is read back, and changes neither the size nor any other entry.
\<close>

locale fat_table =
  fixes ent :: "bytes \<Rightarrow> nat \<Rightarrow> nat" and upd :: "bytes \<Rightarrow> nat \<Rightarrow> nat \<Rightarrow> bytes res"
    and lim :: "nat \<Rightarrow> nat" and top :: nat
  assumes upd_ok: "i < lim (length f) \<Longrightarrow> v < top \<Longrightarrow> \<exists>f'. upd f i v = Inr f'"
    and upd_length: "upd f i v = Inr f' \<Longrightarrow> length f' = length f"
    and upd_same: "upd f i v = Inr f' \<Longrightarrow> v < top \<Longrightarrow> ent f' i = v"
    and upd_other: "upd f i v = Inr f' \<Longrightarrow> j \<noteq> i \<Longrightarrow> ent f' j = ent f j"
begin

lemma links_ok:
  assumes "nxt + n < lim (length f)" "lim (length f) \<le> top"
  shows "\<exists>f'. foldE (\<lambda>i f. upd f (nxt + i) (nxt + i + 1)) [0..<n] f = Inr f' \<and> length f' = length f \<and>
     (\<forall>i < n. ent f' (nxt + i) = nxt + i + 1) \<and> (\<forall>j. j < nxt \<or> nxt + n \<le> j \<longrightarrow> ent f' j = ent f j)"
  using assms
proof (induction n)
  case (Suc n)
  then obtain f1 where f1: "foldE (\<lambda>i f. upd f (nxt + i) (nxt + i + 1)) [0..<n] f = Inr f1" "length f1 = length f"
    "\<forall>i < n. ent f1 (nxt + i) = nxt + i + 1" "\<forall>j. j < nxt \<or> nxt + n \<le> j \<longrightarrow> ent f1 j = ent f j" by auto
  obtain f2 where f2: "upd f1 (nxt + n) (nxt + n + 1) = Inr f2"
    using upd_ok [of "nxt + n" f1 "nxt + n + 1"] Suc.prems f1(2) by auto
  note u = upd_length [OF f2] upd_same [OF f2] upd_other [OF f2]
  have "\<forall>i < Suc n. ent f2 (nxt + i) = nxt + i + 1"
    using f1(3) u(2,3) Suc.prems by (auto simp: less_Suc_eq)
  moreover have "\<forall>j. j < nxt \<or> nxt + Suc n \<le> j \<longrightarrow> ent f2 j = ent f j"
    using f1(4) u(3) by auto
  ultimately show ?case
    using f1(1,2) f2 u(1) by (simp add: foldE_append)
qed simp

lemma chain_ok:
  assumes "1 \<le> count" "nxt + count \<le> lim (length f)" "lim (length f) \<le> top" "eof < top"
  shows "\<exists>f'. bindE (foldE (\<lambda>i f. upd f (nxt + i) (nxt + i + 1)) [0..<count - 1] f)
               (\<lambda>f. upd f (nxt + count - 1) eof) = Inr f' \<and> length f' = length f \<and>
     chain eof (ent f') nxt count \<and> (\<forall>j. j < nxt \<or> nxt + count \<le> j \<longrightarrow> ent f' j = ent f j)"
proof -
  let ?n = "count - 1"
  obtain f1 where f1: "foldE (\<lambda>i f. upd f (nxt + i) (nxt + i + 1)) [0..<?n] f = Inr f1" "length f1 = length f"
    "\<forall>i < ?n. ent f1 (nxt + i) = nxt + i + 1" "\<forall>j. j < nxt \<or> nxt + ?n \<le> j \<longrightarrow> ent f1 j = ent f j"
    using links_ok [of nxt ?n f, OF _ assms(3)] assms(1,2) by fastforce
  obtain f2 where f2: "upd f1 (nxt + count - 1) eof = Inr f2"
    using upd_ok [of "nxt + count - 1" f1 eof] assms f1(2) by fastforce
  note u = upd_length [OF f2] upd_same [OF f2 assms(4)] upd_other [OF f2]
  have "chain eof (ent f2) nxt count"
    using f1(3) u assms(1) by (simp add: chain_def)
  moreover have "\<forall>j. j < nxt \<or> nxt + count \<le> j \<longrightarrow> ent f2 j = ent f j"
    using f1(4) u(3) assms(1) by auto
  ultimately show ?thesis using f1(1,2) f2 u(1) by simp
qed

end

text \<open>Reading an entry back, for both widths.\<close>

definition fat16_ent :: "bytes \<Rightarrow> nat \<Rightarrow> nat" where
  "fat16_ent f i = le_nat (bslice (i * 2) (i * 2 + 2) f)"

text \<open>
  A FAT12 table is a sequence of nibbles, low nibble first; entry \<open>i\<close> is the three nibbles
  from \<open>3 * i\<close>.
\<close>

definition nib :: "bytes \<Rightarrow> nat \<Rightarrow> nat" where
  "nib f k = (if even k then unat (f ! (k div 2)) mod 16 else unat (f ! (k div 2)) div 16)"

definition fat12_ent :: "bytes \<Rightarrow> nat \<Rightarrow> nat" where
  "fat12_ent f i = nib f (3 * i) + 16 * nib f (3 * i + 1) + 256 * nib f (3 * i + 2)"

lemma fat_set_16: "fat_set f 16 i v =
   (if i * 2 + 2 \<le> length f then Inr (blit (i * 2) (le_bytes 2 (v mod 65536)) f) else Inl StructError)"
  by (simp add: fat_set_def and_mask_mod del: le_bytes.simps)

interpretation f16: fat_table fat16_ent "\<lambda>f. fat_set f 16" "\<lambda>n. n div 2" 65536
proof unfold_locales
  fix i v j :: nat and f f' :: bytes
  show "i < length f div 2 \<Longrightarrow> v < 65536 \<Longrightarrow> \<exists>f'. fat_set f 16 i v = Inr f'"
    by (simp add: fat_set_16)
  assume u: "fat_set f 16 i v = Inr f'"
  then have b: "i * 2 + 2 \<le> length f" and f': "f' = blit (i * 2) (le_bytes 2 (v mod 65536)) f"
    by (auto simp: fat_set_16 split: if_splits)
  show "length f' = length f" using b by (simp add: f')
  show "v < 65536 \<Longrightarrow> fat16_ent f' i = v"
    using b buf.get_put_le [of "i * 2" 2 f v] by (simp add: f' fat16_ent_def)
  show "j \<noteq> i \<Longrightarrow> fat16_ent f' j = fat16_ent f j"
    using b unfolding f' fat16_ent_def by (subst buf.rd_wr_disj [of "i * 2" _ f]) auto
qed


lemma and_F0: "x < 256 \<Longrightarrow> x AND 0xF0 = push_bit 4 (x div 16)" for x :: nat
proof -
  assume "x < 256"
  then have "x = take_bit 8 x" by (simp add: take_bit_nat_eq_self)
  moreover have "take_bit 8 x AND push_bit 4 (mask 4) = push_bit 4 (drop_bit 4 (take_bit 8 x))"
    by (rule bit_eqI) (auto simp: bit_and_iff bit_push_bit_iff_nat bit_mask_iff bit_drop_bit_eq bit_take_bit_iff)
  moreover have "push_bit 4 (mask 4) = (0xF0 :: nat)" "drop_bit 4 x = x div 16"
    by (simp_all add: mask_eq_exp_minus_1 push_bit_eq_mult drop_bit_eq_div)
  ultimately show ?thesis by metis
qed

definition set_low :: "nat \<Rightarrow> nat \<Rightarrow> nat" where "set_low x v = x div 16 * 16 + v mod 16"
definition set_high :: "nat \<Rightarrow> nat \<Rightarrow> nat" where "set_high x v = x mod 16 + v mod 16 * 16"

lemma set_nibbles:
  "x < 256 \<Longrightarrow> (x AND 0xF0) OR (v AND 0x0F) = set_low x v"
  "(x AND 0x0F) OR push_bit 4 (v AND 0x0F) = set_high x v" for x v :: nat
  using push_bit_or_add [of "v mod 16" 4 "x div 16"] push_bit_or_add [of "x mod 16" 4 "v mod 16"]
  by (simp_all add: and_F0 and_mask_mod set_low_def set_high_def or.commute add.commute push_bit_eq_mult)

lemma set_nibbles_less: "x < 256 \<Longrightarrow> set_low x v < 256" "set_high x v < 256" for x v :: nat
proof -
  have "v mod 16 < 16" "x mod 16 < 16" by simp_all
  then show "set_high x v < 256" unfolding set_high_def by linarith
  assume "x < 256"
  then have "x div 16 < 16" by simp
  with \<open>v mod 16 < 16\<close> show "set_low x v < 256" unfolding set_low_def by linarith
qed

lemma fat_set_12_even:
  "fat_set f 12 (2 * m) v =
     (if 3 * m + 1 < length f
      then Inr (f[3 * m := of_nat (v mod 256), 3 * m + 1 := of_nat (set_low (unat (f ! (3 * m + 1))) (v div 256))])
      else Inl IndexError)"
proof -
  have o: "2 * m * 3 div 2 = 3 * m" by simp
  show ?thesis
    unfolding fat_set_def Let_def o
    by (simp add: set_nibbles set_nibbles_less bidx_def drop_bit_eq_div and_mask_mod(2))
qed

lemma fat_set_12_odd:
  "fat_set f 12 (2 * m + 1) v =
     (if 3 * m + 2 < length f
      then Inr (f[3 * m + 1 := of_nat (set_high (unat (f ! (3 * m + 1))) v), 3 * m + 2 := of_nat (v div 16 mod 256)])
      else Inl IndexError)"
proof -
  have o: "(2 * m + 1) * 3 div 2 = 3 * m + 1" by simp
  show ?thesis
    unfolding fat_set_def Let_def o set_nibbles(2)
    by (simp add: set_nibbles_less bidx_def drop_bit_eq_div and_mask_mod(2))
qed

lemma nib_update:
  "p < length f \<Longrightarrow> nib (f[p := of_nat x]) k =
     (if k = 2 * p then x mod 16 else if k = 2 * p + 1 then x div 16 mod 16 else nib f k)"
proof -
  assume p: "p < length f"
  have x: "unat (of_nat x :: byte) mod 16 = x mod 16" "unat (of_nat x :: byte) div 16 = x div 16 mod 16"
    using mod_mult2_eq [of x 16 16] by (simp_all add: unat_of_nat_byte mod_mod_cancel)
  consider q where "k = 2 * q" | q where "k = 2 * q + 1" by (metis evenE oddE)
  then show ?thesis
    by cases (use p x in \<open>auto simp: nib_def nth_list_update\<close>)
qed

lemma nib_update2:
  "Suc p < length f \<Longrightarrow> nib (f[p := of_nat x, Suc p := of_nat y]) k =
     (if k = 2 * p then x mod 16 else if k = 2 * p + 1 then x div 16 mod 16
      else if k = 2 * p + 2 then y mod 16 else if k = 2 * p + 3 then y div 16 mod 16 else nib f k)"
  by (simp add: nib_update)

lemma mod_nibbles:
  "v mod 256 mod 16 = v mod 16" "v mod 256 div 16 mod 16 = v div 16 mod 16"
  "v div 16 mod 256 mod 16 = v div 16 mod 16" "v div 16 mod 256 div 16 mod 16 = v div 256 mod 16" for v :: nat
proof -
  have *: "w mod 256 mod 16 = w mod 16" "w mod 256 div 16 mod 16 = w div 16 mod 16" for w :: nat
    using mod_mult2_eq [of w 16 16] by (simp_all add: mod_mod_cancel)
  show "v mod 256 mod 16 = v mod 16" "v mod 256 div 16 mod 16 = v div 16 mod 16"
    "v div 16 mod 256 mod 16 = v div 16 mod 16" "v div 16 mod 256 div 16 mod 16 = v div 256 mod 16"
    using * [of v] * [of "v div 16"] by (simp_all add: div_mult2_eq [symmetric])
qed

lemma set_nibbles_read:
  "set_low x w mod 16 = w mod 16" "set_low x w div 16 mod 16 = x div 16 mod 16"
  "set_high x w mod 16 = x mod 16" "set_high x w div 16 mod 16 = w mod 16"
  by (simp_all add: set_low_def set_high_def)

lemma nib_high: "nib f (2 * p + 1) mod 16 = nib f (2 * p + 1)" "nib f (2 * p) mod 16 = nib f (2 * p)"
proof -
  have "unat (f ! p) div 16 < 16"
    by (rule less_mult_imp_div_less) (use unat_byte_less [of "f ! p"] in simp)
  then show "nib f (2 * p + 1) mod 16 = nib f (2 * p + 1)" "nib f (2 * p) mod 16 = nib f (2 * p)"
    by (simp_all add: nib_def)
qed

lemma fat12_nibs:
  assumes "fat_set f 12 i v = Inr f'"
  shows "length f' = length f \<and>
    nib f' k = (if k = 3 * i then v mod 16 else if k = 3 * i + 1 then v div 16 mod 16
                else if k = 3 * i + 2 then v div 256 mod 16 else nib f k)"
proof -
  consider m where "i = 2 * m" | m where "i = 2 * m + 1" by (metis evenE oddE)
  then show ?thesis
  proof cases
    case (1 m)
    let ?y = "set_low (unat (f ! Suc (3 * m))) (v div 256)"
    have i: "3 * i = 2 * (3 * m)" using 1 by simp
    have "2 * (3 * m) + 3 = 2 * Suc (3 * m) + 1" by simp
    moreover have "nib f (2 * Suc (3 * m) + 1) = unat (f ! Suc (3 * m)) div 16" by (simp add: nib_def)
    ultimately have n: "nib f (2 * (3 * m) + 3) = unat (f ! Suc (3 * m)) div 16 mod 16"
      using nib_high(1) [of f "Suc (3 * m)"] by metis
    from assms 1 have "Suc (3 * m) < length f" "f' = f[3 * m := of_nat (v mod 256), Suc (3 * m) := of_nat ?y]"
      by (simp_all add: fat_set_12_even split: if_splits)
    then show ?thesis
      unfolding i by (simp only: nib_update2 mod_nibbles set_nibbles_read n [symmetric] length_list_update simp_thms) simp
  next
    case (2 m)
    let ?x = "set_high (unat (f ! Suc (3 * m))) v"
    have i: "3 * i = 2 * Suc (3 * m) + 1" and n: "nib f (2 * Suc (3 * m)) = unat (f ! Suc (3 * m)) mod 16"
      using 2 by (simp_all add: nib_def)
    from assms 2 have "Suc (Suc (3 * m)) < length f"
      "f' = f[Suc (3 * m) := of_nat ?x, Suc (Suc (3 * m)) := of_nat (v div 16 mod 256)]"
      using fat_set_12_odd [of f m v] by (simp_all split: if_splits)
    then show ?thesis
      unfolding i by (simp only: nib_update2 mod_nibbles set_nibbles_read n [symmetric] length_list_update simp_thms)
         (simp add: div_mult2_eq [symmetric])
  qed
qed

lemma fat_set_12_ok: "i < length f * 2 div 3 \<Longrightarrow> \<exists>f'. fat_set f 12 i v = Inr f'"
proof -
  assume i: "i < length f * 2 div 3"
  consider m where "i = 2 * m" | m where "i = 2 * m + 1" by (metis evenE oddE)
  then show ?thesis
  proof cases
    case (1 m)
    then show ?thesis using i fat_set_12_even [of f m v] by simp
  next
    case (2 m)
    then have "3 * m + 2 < length f" using i by linarith
    then show ?thesis using 2 fat_set_12_odd [of f m v] by simp
  qed
qed

interpretation f12: fat_table fat12_ent "\<lambda>f. fat_set f 12" "\<lambda>n. n * 2 div 3" 4096
proof unfold_locales
  fix i v j :: nat and f f' :: bytes
  show "i < length f * 2 div 3 \<Longrightarrow> \<exists>f'. fat_set f 12 i v = Inr f'" by (rule fat_set_12_ok)
  assume u: "fat_set f 12 i v = Inr f'"
  show "length f' = length f" using fat12_nibs [OF u] by blast
  have n: "nib f' k = (if k = 3 * i then v mod 16 else if k = 3 * i + 1 then v div 16 mod 16
                else if k = 3 * i + 2 then v div 256 mod 16 else nib f k)" for k
    using fat12_nibs [OF u] by blast
  show "fat12_ent f' i = v" if "v < 4096"
  proof -
    have "v = v mod 16 + 16 * (v div 16 mod 16) + 256 * (v div 256)"
      using mod_mult2_eq [of v 16 16] mult_div_mod_eq [of 256 v] by simp
    with that show ?thesis by (simp add: fat12_ent_def n)
  qed
  show "fat12_ent f' j = fat12_ent f j" if "j \<noteq> i"
  proof -
    have "3 * j + c \<noteq> 3 * i + d" if "c < 3" "d < 3" for c d
      using that \<open>j \<noteq> i\<close> by linarith
    from this [of 0 0] this [of 0 1] this [of 0 2] this [of 1 0] this [of 1 1] this [of 1 2]
      this [of 2 0] this [of 2 1] this [of 2 2]
    show ?thesis by (simp add: fat12_ent_def n)
  qed
qed

section \<open>Allocation\<close>

definition start_of :: "files \<Rightarrow> nat" where
  "start_of fs = 2 + sum_list (map (\<lambda>f. sectors_for (length (snd f))) fs)"

lemma start_of_simps [simp]:
  "start_of [] = 2" "start_of (fs @ [f]) = start_of fs + sectors_for (length (snd f))"
  by (simp_all add: start_of_def)

definition placed :: "nat \<Rightarrow> (nat \<Rightarrow> nat) \<Rightarrow> (string \<rightharpoonup> nat \<times> nat) \<Rightarrow> string \<times> bytes \<Rightarrow> nat \<Rightarrow> bool" where
  "placed eof e of_name file first \<longleftrightarrow>
     (let count = sectors_for (length (snd file)) in
      if count = 0 then of_name (fst file) = None
      else of_name (fst file) = Some (first, count) \<and> chain eof e first count)"

definition allocated :: "nat \<Rightarrow> (nat \<Rightarrow> nat) \<Rightarrow> (string \<rightharpoonup> nat \<times> nat) \<Rightarrow> files \<Rightarrow> bool" where
  "allocated eof e of_name fs \<longleftrightarrow> dom of_name \<subseteq> fst ` set fs \<and>
     (\<forall>xs f ys. fs = xs @ f # ys \<longrightarrow> placed eof e of_name f (start_of xs))"

lemma allocated_empty: "allocated eof e Map.empty []"
  by (simp add: allocated_def)

lemma two_le_start_of [simp]: "2 \<le> start_of fs"
  by (simp add: start_of_def)

lemma sectors_for_bounds: "n \<le> sectors_for n * SECTOR" "sectors_for n * SECTOR < n + SECTOR"
  "sectors_for n = 0 \<longleftrightarrow> n = 0"
  unfolding sectors_for_def SECTOR_def by linarith+

lemma sectors_for_pos: "xs \<noteq> [] \<Longrightarrow> 0 < sectors_for (length xs)"
  unfolding sectors_for_def SECTOR_def by (cases xs) simp_all

lemma start_of_prefix: "fs = xs @ f # ys \<Longrightarrow> start_of xs + sectors_for (length (snd f)) \<le> start_of fs"
  by (simp add: start_of_def)

lemma allocated_placed:
  "allocated eof e of_name fs \<Longrightarrow> fs = xs @ f # ys \<Longrightarrow> placed eof e of_name f (start_of xs)"
  unfolding allocated_def by blast

lemma placed_frame:
  assumes "placed eof e of_name f first" "of_name' (fst f) = of_name (fst f)"
    and "\<And>j. first \<le> j \<Longrightarrow> j < first + sectors_for (length (snd f)) \<Longrightarrow> e' j = e j"
  shows "placed eof e' of_name' f first"
proof (cases "sectors_for (length (snd f)) = 0")
  case False
  then have "chain eof e first (sectors_for (length (snd f)))" using assms(1) by (simp add: placed_def Let_def)
  then have "chain eof e' first (sectors_for (length (snd f)))"
    by (rule chain_frame) (use False assms(3) in auto)
  then show ?thesis using assms(1,2) False by (simp add: placed_def Let_def)
qed (use assms(1,2) in \<open>simp add: placed_def\<close>)

lemma allocated_frame:
  assumes "allocated eof e of_name fs" "\<And>j. 2 \<le> j \<Longrightarrow> j < start_of fs \<Longrightarrow> e' j = e j"
  shows "allocated eof e' of_name fs"
proof -
  have "placed eof e' of_name f (start_of xs)" if fs: "fs = xs @ f # ys" for xs f ys
  proof (rule placed_frame)
    show "placed eof e of_name f (start_of xs)" using assms(1) fs by (rule allocated_placed)
    show "e' j = e j" if "start_of xs \<le> j" "j < start_of xs + sectors_for (length (snd f))" for j
      using that start_of_prefix [OF fs] two_le_start_of [of xs] by (intro assms(2)) linarith+
  qed simp
  then show ?thesis using assms(1) by (simp add: allocated_def)
qed

lemma allocated_snoc:
  assumes "allocated eof e of_name fs" "fst file \<notin> fst ` set fs" "placed eof e of_name' file (start_of fs)"
    and "of_name' = of_name \<or> (\<exists>p. of_name' = of_name(fst file \<mapsto> p))"
  shows "allocated eof e of_name' (fs @ [file])"
proof -
  have same: "of_name' n = of_name n" if "n \<noteq> fst file" for n using assms(4) that by auto
  have "placed eof e of_name' f (start_of xs)" if s: "fs @ [file] = xs @ f # ys" for xs f ys
  proof (cases ys rule: rev_cases)
    case Nil
    then show ?thesis using s assms(3) by simp
  next
    case (snoc zs z)
    with s have fs: "fs = xs @ f # zs" by simp
    then have "fst f \<noteq> fst file" using assms(2) by auto
    then show ?thesis
      using placed_frame [OF allocated_placed [OF assms(1) fs], of of_name' e] same by simp
  qed
  moreover have "dom of_name' \<subseteq> insert (fst file) (dom of_name)" using assms(4) by auto
  then have "dom of_name' \<subseteq> insert (fst file) (fst ` set fs)"
    using assms(1) unfolding allocated_def by blast
  ultimately show ?thesis unfolding allocated_def by simp
qed

text \<open>The allocator on top of such a table, for one of the two entry widths.\<close>

locale fat_volume = fat_table +
  fixes b :: nat
  assumes upd_is: "upd f i v = fat_set f b i v"
    and eof_top: "eof_mark b < top" and media_top: "(if b = 16 then eof_mark b else 0xF8) < top"
begin

lemma alloc_chain_ok:
  assumes "1 \<le> count" "nxt + count \<le> lim (length f)" "lim (length f) \<le> top"
  shows "\<exists>f'. alloc_chain b nxt count f = Inr f' \<and> length f' = length f \<and>
     chain (eof_mark b) (ent f') nxt count \<and> (\<forall>j. j < nxt \<or> nxt + count \<le> j \<longrightarrow> ent f' j = ent f j)"
  using chain_ok [OF assms eof_top] by (simp add: alloc_chain_def upd_is)

lemma alloc_fold_ok:
  assumes "distinct (map fst fs)" "start_of fs \<le> lim (length f0)" "lim (length f0) \<le> top"
  shows "\<exists>a. foldE (alloc_file b) fs \<lparr>a_fat = f0, a_of = Map.empty, a_nxt = 2\<rparr> = Inr a \<and>
     length (a_fat a) = length f0 \<and> a_nxt a = start_of fs \<and>
     allocated (eof_mark b) (ent (a_fat a)) (a_of a) fs \<and>
     (\<forall>j. j < 2 \<or> start_of fs \<le> j \<longrightarrow> ent (a_fat a) j = ent f0 j)"
  using assms
proof (induction fs rule: rev_induct)
  case (snoc g fs)
  let ?n = "sectors_for (length (snd g))"
  obtain a where a: "foldE (alloc_file b) fs \<lparr>a_fat = f0, a_of = Map.empty, a_nxt = 2\<rparr> = Inr a"
    "length (a_fat a) = length f0" "a_nxt a = start_of fs"
    "allocated (eof_mark b) (ent (a_fat a)) (a_of a) fs"
    and fr: "\<And>j. j < 2 \<or> start_of fs \<le> j \<Longrightarrow> ent (a_fat a) j = ent f0 j"
  proof -
    have "distinct (map fst fs)" "start_of fs \<le> lim (length f0)" using snoc.prems by simp_all
    from snoc.IH [OF this snoc.prems(3)] that show thesis by blast
  qed
  have new: "fst g \<notin> fst ` set fs" using snoc.prems(1) by simp
  then have none: "a_of a (fst g) = None" using a(4) by (auto simp: allocated_def)
  show ?case
  proof (cases "?n = 0")
    case True
    then have "alloc_file b g a = Inr a" by (simp add: alloc_file_def)
    moreover have "allocated (eof_mark b) (ent (a_fat a)) (a_of a) (fs @ [g])"
      using True none by (intro allocated_snoc [OF a(4) new]) (simp_all add: placed_def)
    ultimately show ?thesis using True a(1-3) fr by (simp add: foldE_append)
  next
    case False
    have "1 \<le> ?n" "start_of fs + ?n \<le> lim (length (a_fat a))" "lim (length (a_fat a)) \<le> top"
      using False snoc.prems a(2) by simp_all
    then obtain f' where f': "alloc_chain b (start_of fs) ?n (a_fat a) = Inr f'" "length f' = length f0"
      "chain (eof_mark b) (ent f') (start_of fs) ?n"
      "\<And>j. j < start_of fs \<or> start_of fs + ?n \<le> j \<Longrightarrow> ent f' j = ent (a_fat a) j"
      using alloc_chain_ok a(2) by metis
    let ?a = "\<lparr>a_fat = f', a_of = (a_of a)(fst g \<mapsto> (start_of fs, ?n)), a_nxt = start_of fs + ?n\<rparr>"
    have "alloc_file b g a = Inr ?a" using False a(3) f'(1) by (simp add: alloc_file_def Let_def)
    moreover have "allocated (eof_mark b) (ent f') (a_of ?a) (fs @ [g])"
      using False f'(3,4) by (intro allocated_snoc [OF allocated_frame [OF a(4)] new]) (auto simp: placed_def)
    moreover have "ent f' j = ent f0 j" if "j < 2 \<or> start_of fs + ?n \<le> j" for j
      using that f'(4) [of j] fr [of j] two_le_start_of [of fs] by linarith
    ultimately show ?thesis using a(1) f'(2) by (simp add: foldE_append)
  qed
qed (simp add: allocated_empty)

lemma alloc_files_ok:
  assumes "distinct (map fst fs)" "start_of fs \<le> lim (fsz * SECTOR)" "lim (fsz * SECTOR) \<le> top"
  shows "\<exists>a. alloc_files b fsz fs = Inr a \<and> length (a_fat a) = fsz * SECTOR \<and> a_nxt a = start_of fs \<and>
     allocated (eof_mark b) (ent (a_fat a)) (a_of a) fs \<and>
     ent (a_fat a) 0 = (if b = 16 then eof_mark b else 0xF8) \<and> ent (a_fat a) 1 = eof_mark b \<and>
     (\<forall>j. start_of fs \<le> j \<longrightarrow> ent (a_fat a) j = ent (zeros (fsz * SECTOR)) j)"
proof -
  let ?z = "zeros (fsz * SECTOR)"
  obtain a where a: "foldE (alloc_file b) fs \<lparr>a_fat = ?z, a_of = Map.empty, a_nxt = 2\<rparr> = Inr a"
    "length (a_fat a) = fsz * SECTOR" "a_nxt a = start_of fs"
    "allocated (eof_mark b) (ent (a_fat a)) (a_of a) fs"
    and fr: "\<And>j. j < 2 \<or> start_of fs \<le> j \<Longrightarrow> ent (a_fat a) j = ent ?z j"
    using alloc_fold_ok [of fs ?z, unfolded length_zeros, OF assms] by blast
  let ?m = "if b = 16 then eof_mark b else 0xF8"
  have l: "1 < lim (length (a_fat a))" using two_le_start_of [of fs] assms(2) unfolding a(2) by linarith
  then obtain f1 where f1: "upd (a_fat a) 0 ?m = Inr f1"
    using upd_ok [of 0 "a_fat a" ?m] media_top by auto
  note l1 = upd_length [OF f1]
  obtain f2 where f2: "upd f1 1 (eof_mark b) = Inr f2"
    using upd_ok [of 1 f1 "eof_mark b"] l l1 eof_top by auto
  have e: "ent f2 j = ent (a_fat a) j" if "2 \<le> j" for j
    using that upd_other [OF f1, of j] upd_other [OF f2, of j] by simp
  have "ent f2 0 = ?m" "ent f2 1 = eof_mark b"
    using upd_same [OF f1 media_top] upd_other [OF f2, of 0] upd_same [OF f2 eof_top] by simp_all
  moreover have "alloc_files b fsz fs = Inr (a\<lparr>a_fat := f2\<rparr>)"
    using a(1) f1 f2 by (simp add: alloc_files_def upd_is)
  moreover have "ent f2 j = ent ?z j" if "start_of fs \<le> j" for j
    using e [of j] fr [of j] two_le_start_of [of fs] that by simp
  moreover have "allocated (eof_mark b) (ent f2) (a_of a) fs"
    using e by (intro allocated_frame [OF a(4)]) simp
  ultimately show ?thesis
    using a(2,3) l1 upd_length [OF f2] by (intro exI [of _ "a\<lparr>a_fat := f2\<rparr>"]) simp
qed

end

interpretation v16: fat_volume fat16_ent "\<lambda>f. fat_set f 16" "\<lambda>n. n div 2" 65536 16
  by unfold_locales (simp_all add: eof_mark_def)

interpretation v12: fat_volume fat12_ent "\<lambda>f. fat_set f 12" "\<lambda>n. n * 2 div 3" 4096 12
  by unfold_locales (simp_all add: eof_mark_def)

section \<open>Directory entries\<close>

lemma ascii_upper [simp]: "ascii s \<Longrightarrow> ascii (map upper_char s)"
  by (auto simp: ascii_def upper_char_def)

lemma split_name_set: "set (fst (split_name s)) \<subseteq> set s" "set (snd (split_name s)) \<subseteq> set s"
proof -
  have "set (tl xs) \<subseteq> set xs" for xs :: string by (cases xs) auto
  then have "set (tl (dropWhile P (rev s))) \<subseteq> set s" for P by (metis set_dropWhileD set_rev subset_iff)
  moreover have "set (takeWhile P (rev s)) \<subseteq> set s" for P by (metis set_takeWhileD set_rev subset_iff)
  ultimately show "set (fst (split_name s)) \<subseteq> set s" "set (snd (split_name s)) \<subseteq> set s"
    by (simp_all add: split_name_def)
qed

lemma split_name_ascii: "ascii s \<Longrightarrow> ascii (fst (split_name s)) \<and> ascii (snd (split_name s))"
  using split_name_set ascii_subset by blast

lemma of_char_upper:
  "(of_char (upper_char c) :: nat) = (if 97 \<le> (of_char c :: nat) \<and> (of_char c :: nat) \<le> 122 then of_char c - 32 else of_char c)"
  by (auto simp: upper_char_def)

text \<open>The eleven name bytes of an entry.\<close>

definition name_base :: "string \<Rightarrow> string" where
  "name_base name = ljust 8 CHR '' '' (take 8 (map upper_char (fst (split_name name))))"

definition name_ext :: "string \<Rightarrow> string" where
  "name_ext name = ljust 3 CHR '' '' (take 3 (map upper_char (snd (split_name name))))"

lemma name_parts:
  assumes "ascii name"
  shows "ascii (name_base name)" "length (name_base name) = 8" "ascii (name_ext name)" "length (name_ext name) = 3"
proof -
  show "ascii (name_base name)" "ascii (name_ext name)"
    using split_name_ascii [OF assms] by (simp_all add: name_base_def name_ext_def ascii_ljust ascii_take)
qed (simp_all add: name_base_def name_ext_def)

lemma dir_entry_ok:
  assumes "ascii name" "fsize < 2 ^ 32" "attrs < 256"
  shows "\<exists>e. dir_entry name fsize cluster attrs = Inr e \<and> length e = 32 \<and>
    bslice 0 8 e = encode (name_base name) \<and> bslice 8 11 e = encode (name_ext name) \<and>
    e ! 11 = of_nat attrs \<and> bslice 26 28 e = le_bytes 2 (cluster mod 65536) \<and> bslice 28 32 e = le_bytes 4 fsize"
proof -
  note n = name_parts [OF assms(1)]
  have l: "length (encode (name_base name)) = 8" "length (encode (name_ext name)) = 3" using n by simp_all
  let ?w = "[SetSlice 0 8 (encode (name_base name)), SetSlice 8 11 (encode (name_ext name)),
        SetByte 11 (int attrs), SetByte 12 0, SetByte 13 0, PackInto 2 14 0x4000, PackInto 2 16 0x5C61,
        PackInto 2 18 0x5C61, PackInto 2 20 0, PackInto 2 22 0x4000, PackInto 2 24 0x5C61,
        PackInto 2 26 (int (cluster mod 65536)), PackInto 4 28 (int fsize)]"
  have ok: "\<forall>st \<in> set ?w. wr_ok (length (zeros 32)) st"
    using assms(2,3) by (simp add: l)
  have "dir_entry name fsize cluster attrs = run_writes ?w (zeros 32)"
    by (simp add: dir_entry_def name_base_def name_ext_def and_mask_mod Let_def split_def)
  moreover note run_writes_ok [OF ok] length_wr_all [OF ok]
  moreover have "bslice 0 8 (wr_all ?w (zeros 32)) = encode (name_base name)"
    "bslice 8 11 (wr_all ?w (zeros 32)) = encode (name_ext name)"
    "bslice 26 28 (wr_all ?w (zeros 32)) = le_bytes 2 (cluster mod 65536)"
    "bslice 28 32 (wr_all ?w (zeros 32)) = le_bytes 4 fsize"
    unfolding bslice_wr_all [OF ok] by (simp_all add: l del: le_bytes.simps)
  moreover have "wr_all ?w (zeros 32) ! 11 = of_nat attrs"
    by (subst nth_wr_all [OF ok]) (simp_all add: l bslice_def del: wr_all_simps)
  ultimately show ?thesis by simp
qed

text \<open>What a directory entry says.\<close>

definition entry_for :: "bytes \<Rightarrow> string \<Rightarrow> nat \<Rightarrow> nat \<Rightarrow> nat \<Rightarrow> bool" where
  "entry_for e name fsize cluster attrs \<longleftrightarrow> length e = 32 \<and>
     bslice 0 8 e = encode (name_base name) \<and> bslice 8 11 e = encode (name_ext name) \<and>
     e ! 11 = of_nat attrs \<and> le_nat (bslice 26 28 e) = cluster mod 65536 \<and> le_nat (bslice 28 32 e) = fsize"

lemma dir_entry_for:
  assumes "ascii name" "fsize < 2 ^ 32" "attrs < 256"
  shows "\<exists>e. dir_entry name fsize cluster attrs = Inr e \<and> entry_for e name fsize cluster attrs"
proof -
  obtain e where e: "dir_entry name fsize cluster attrs = Inr e" "length e = 32"
    "bslice 0 8 e = encode (name_base name)" "bslice 8 11 e = encode (name_ext name)" "e ! 11 = of_nat attrs"
    "bslice 26 28 e = le_bytes 2 (cluster mod 65536)" "bslice 28 32 e = le_bytes 4 fsize"
    using dir_entry_ok [OF assms, of cluster] by blast
  then show ?thesis
    using assms(2) by (simp add: entry_for_def del: le_bytes.simps)
qed

definition first_cluster :: "(string \<rightharpoonup> nat \<times> nat) \<Rightarrow> string \<Rightarrow> nat" where
  "first_cluster of_name n = fst (case of_name n of None \<Rightarrow> (0, 0) | Some p \<Rightarrow> p)"

text \<open>The root directory under construction: entry \<open>i + 1\<close> is that of file \<open>i\<close>, the rest is zero.\<close>

definition root_holds :: "string \<Rightarrow> (string \<rightharpoonup> nat \<times> nat) \<Rightarrow> files \<Rightarrow> bytes \<Rightarrow> bool" where
  "root_holds label of_name fs rt \<longleftrightarrow>
     entry_for (bslice 0 32 rt) label 0 0 0x08 \<and>
     (\<forall>i < length fs. entry_for (bslice (32 * Suc i) (32 * Suc i + 32) rt) (fst (fs ! i))
        (length (snd (fs ! i))) (first_cluster of_name (fst (fs ! i))) 0x20) \<and>
     bslice (32 * Suc (length fs)) (length rt) rt = zeros (length rt - 32 * Suc (length fs))"

lemma bslice_zeros_after:
  assumes "bslice a n (xs :: bytes) = zeros (n - a)" "n = length xs" "a \<le> b" "b \<le> n"
  shows "bslice b n xs = zeros (n - b)"
proof -
  have "bslice b n xs = drop (b - a) (bslice a n xs)"
    using assms(2-4) by (simp add: bslice_def drop_take)
  then show ?thesis using assms by (simp add: zeros_def)
qed

lemma build_root_fold:
  assumes "root_holds label of_name [] rt0" "32 * Suc (length fs) \<le> length rt0"
    and "\<forall>f \<in> set fs. ascii (fst f) \<and> length (snd f) < 2 ^ 32"
  shows "\<exists>rt. foldE (root_file of_name) fs (rt0, 32) = Inr (rt, 32 * Suc (length fs)) \<and>
    length rt = length rt0 \<and> root_holds label of_name fs rt"
  using assms
proof (induction fs rule: rev_induct)
  case (snoc f fs)
  then obtain rt where r: "foldE (root_file of_name) fs (rt0, 32) = Inr (rt, 32 * Suc (length fs))"
    "length rt = length rt0" "root_holds label of_name fs rt" by auto
  let ?o = "32 * Suc (length fs)" and ?c = "first_cluster of_name (fst f)"
  obtain e where e: "dir_entry (fst f) (length (snd f)) ?c 0x20 = Inr e"
    "entry_for e (fst f) (length (snd f)) ?c 0x20"
    using dir_entry_for [of "fst f" "length (snd f)" "0x20" ?c] snoc.prems(3) by auto
  then have le: "length e = 32" by (simp add: entry_for_def)
  let ?r = "blit ?o e rt"
  have bound: "?o + length e \<le> length rt" using snoc.prems(2) r(2) le by simp
  then have lr: "length ?r = length rt0" using r(2) by simp
  have "root_file of_name f (rt, ?o) = Inr (?r, ?o + 32)"
    using e(1) le by (simp add: root_file_def blit_def first_cluster_def)
  moreover have "root_holds label of_name (fs @ [f]) ?r"
    unfolding root_holds_def
  proof (intro conjI allI impI)
    show "entry_for (bslice 0 32 ?r) label 0 0 8"
      using r(3) bound by (simp add: bslice_blit_before root_holds_def)
    show "bslice (32 * Suc (length (fs @ [f]))) (length ?r) ?r = zeros (length ?r - 32 * Suc (length (fs @ [f])))"
    proof -
      have "bslice (?o + 32) (length rt) rt = zeros (length rt - (?o + 32))"
        by (rule bslice_zeros_after [of ?o]) (use r(3) bound le in \<open>simp_all add: root_holds_def\<close>)
      then show ?thesis using bound le lr r(2) by (simp add: bslice_blit_after)
    qed
  next
    fix i assume "i < length (fs @ [f])"
    then consider "i < length fs" | "i = length fs" by fastforce
    then show "entry_for (bslice (32 * Suc i) (32 * Suc i + 32) ?r) (fst ((fs @ [f]) ! i))
        (length (snd ((fs @ [f]) ! i))) (first_cluster of_name (fst ((fs @ [f]) ! i))) 0x20"
    proof cases
      case 1
      then show ?thesis
        using r(3) bound by (simp add: bslice_blit_before root_holds_def nth_append)
    next
      case 2
      then show ?thesis using e(2) bound le bslice_blit_same [OF bound] by simp
    qed
  qed
  ultimately show ?case using r(1) lr by (auto simp: foldE_append)
qed auto

lemma build_root_ok:
  assumes "ascii label" "32 * Suc (length fs) \<le> roots * SECTOR"
    and "\<forall>f \<in> set fs. ascii (fst f) \<and> length (snd f) < 2 ^ 32"
  shows "\<exists>rt. build_root roots label of_name fs = Inr rt \<and> length rt = roots * SECTOR \<and>
    root_holds label of_name fs rt"
proof -
  obtain e where e: "dir_entry label 0 0 0x08 = Inr e" "entry_for e label 0 0 0x08"
    using dir_entry_for [of label 0 "0x08" 0] assms(1) by auto
  let ?z = "zeros (roots * SECTOR)"
  have le: "length e = 32" and b: "0 + length e \<le> length ?z" using e(2) assms(2) by (simp_all add: entry_for_def)
  have len: "length (blit 0 e ?z) = roots * SECTOR" using b by simp
  have "root_holds label of_name [] (blit 0 e ?z)"
    using e(2) bslice_blit_same [OF b] b le unfolding root_holds_def len by (simp add: bslice_blit_after)
  moreover have "bslice_set 0 32 e ?z = blit 0 e ?z" using le by (simp add: blit_def)
  ultimately show ?thesis
    using build_root_fold [of label of_name "blit 0 e ?z" fs] assms(2,3) e(1) len by (auto simp: build_root_def)
qed

section \<open>Properties\<close>

text \<open>C19: a FAT16 plan adds up to the whole image, has at least the 4085 clusters below which a volume
  is read as FAT12, and its table has a two-byte entry for every cluster and the two reserved ones. For images the boot
  sector can describe, below 65552 sectors, it also has fewer than the 65525 clusters from which a volume is read as
  FAT32; the planner itself has no such bound.\<close>

theorem plan_layout_sound:
  assumes "plan_layout tot part rsv 16 = Inr (Some lay)"
  shows "bits lay = 16 \<and> part_lba lay = part \<and> reserved lay = rsv \<and> root_sectors lay = 14 \<and> 4085 \<le> clusters lay \<and>
    tot = int part + int rsv + 2 * int (fat_size lay) + 14 + clusters lay \<and>
    2 * (clusters lay + 2) \<le> int (fat_size lay * SECTOR) \<and> (tot < 65552 \<longrightarrow> clusters lay < 65525)"
proof -
  obtain roots where l: "root_sectors_of 16 = Inr roots"
    "clusters lay = data_sectors tot part rsv roots (fat_size lay)" "4085 \<le> clusters lay"
    "bits lay = 16" "reserved lay = rsv" "root_sectors lay = roots" "part_lba lay = part"
    using plan_layout_Some [OF assms] by metis
  then have "roots = 14" by (simp add: root_sectors_of_def ROOT_SECTORS_def)
  then show ?thesis
    using l plan_layout_covers [OF assms] by (simp add: data_sectors_def ceil_bits_def SECTOR_def)
qed

theorem plan_layout_sound_witness:
  "\<exists>lay. plan_layout 4500 100 32 16 = Inr (Some lay) \<and> 2 * (clusters lay + 2) \<le> int (fat_size lay * SECTOR) \<and> clusters lay < 65525"
proof -
  have "\<exists>lay. plan_layout 4500 100 32 16 = Inr (Some lay)"
    by (simp add: plan_layout_def root_sectors_of_def ROOT_SECTORS_def plan_loop_settles fat_size_for_def data_sectors_def SECTOR_def)
  then show ?thesis using plan_layout_sound [of 4500 100 32] by fastforce
qed

text \<open>C23: a FAT12 plan, the fallback for small images, never has room for its clusters: the size is
  computed from 3 bits an entry instead of 12.\<close>

theorem fat12_plan_undersized:
  assumes "plan_layout tot part rsv 12 = Inr (Some lay)"
  shows "2 * int (fat_size lay * SECTOR) < 3 * (clusters lay + 2)"
proof -
  obtain roots where l: "fat_size lay = fat_size_for (data_sectors tot part rsv roots 1 + 2) 12"
    "clusters lay = data_sectors tot part rsv roots (fat_size lay)" "4085 \<le> clusters lay"
    using plan_layout_Some [OF assms] by metis
  let ?c = "data_sectors tot part rsv roots 1 + 2"
  have 1: "1 \<le> fat_size lay" unfolding l(1) by (rule fat_size_for_bounds)
  have c: "clusters lay + 2 = ?c - 2 * int (fat_size lay) + 2" unfolding l(2) by (simp add: data_sectors_def)
  then have "0 \<le> ?c" using l(3) by linarith
  then have "4096 * int (fat_size lay) \<le> max 4096 (?c * 3 + 4095)"
    unfolding l(1) using fat_size_for_bounds(3) [of ?c 12] by (simp add: ceil_bits_def)
  then show ?thesis using c l(3) 1 by (simp add: SECTOR_def)
qed

theorem fat12_plan_undersized_witness:
  "\<exists>lay. plan_layout 4500 100 32 12 = Inr (Some lay) \<and> 2 * int (fat_size lay * SECTOR) < 3 * (clusters lay + 2)"
proof -
  have "\<exists>lay. plan_layout 4500 100 32 12 = Inr (Some lay)"
    by (simp add: plan_layout_def root_sectors_of_def ROOT_SECTORS_def plan_loop_settles fat_size_for_def data_sectors_def SECTOR_def)
  then show ?thesis using fat12_plan_undersized by blast
qed

text \<open>C26: without a requested size, the volume of a blob of at most 248 sectors is always the same:
  FAT16 with 4318 clusters behind 18-sector tables, 4400 sectors from the partition start.\<close>

theorem pick_layout_default_size:
  assumes "s \<le> 248"
  shows "pick_layout s =
    Inr (int (BLOB_LBA + s) + 4400,
         \<lparr>bits = 16, fat_size = 18, clusters = 4318, reserved = 32, root_sectors = 14, part_lba = BLOB_LBA + s\<rparr>)"
  using pick_layout_default [OF assms] by (simp add: default_layout_def)

theorem pick_layout_default_size_witness:
  "pick_layout 3 = Inr (4427, \<lparr>bits = 16, fat_size = 18, clusters = 4318, reserved = 32, root_sectors = 14, part_lba = 27\<rparr>)"
  using pick_layout_default_size [of 3] by (simp add: BLOB_LBA_def)

text \<open>C8: in both widths the table is an array of entries: setting an entry inside it succeeds and
  keeps its size, the entry reads back, and every other entry is unchanged, in particular the
  neighbour that shares a byte with a 12-bit entry.\<close>

theorem fat_set_array:
  "(i < length f div 2 \<and> v < 65536 \<longrightarrow>
      (\<exists>f'. fat_set f 16 i v = Inr f' \<and> length f' = length f \<and> fat16_ent f' i = v \<and> (\<forall>j. j \<noteq> i \<longrightarrow> fat16_ent f' j = fat16_ent f j))) \<and>
   (i < length f * 2 div 3 \<and> v < 4096 \<longrightarrow>
      (\<exists>f'. fat_set f 12 i v = Inr f' \<and> length f' = length f \<and> fat12_ent f' i = v \<and> (\<forall>j. j \<noteq> i \<longrightarrow> fat12_ent f' j = fat12_ent f j)))"
proof (intro conjI impI; elim conjE)
  assume i: "i < length f div 2" "v < 65536"
  then obtain f' where "fat_set f 16 i v = Inr f'" using f16.upd_ok by blast
  then show "\<exists>f'. fat_set f 16 i v = Inr f' \<and> length f' = length f \<and> fat16_ent f' i = v \<and> (\<forall>j. j \<noteq> i \<longrightarrow> fat16_ent f' j = fat16_ent f j)"
    using f16.upd_length f16.upd_same f16.upd_other i(2) by blast
next
  assume i: "i < length f * 2 div 3" "v < 4096"
  then obtain f' where "fat_set f 12 i v = Inr f'" using f12.upd_ok by blast
  then show "\<exists>f'. fat_set f 12 i v = Inr f' \<and> length f' = length f \<and> fat12_ent f' i = v \<and> (\<forall>j. j \<noteq> i \<longrightarrow> fat12_ent f' j = fat12_ent f j)"
    using f12.upd_length f12.upd_same f12.upd_other i(2) by blast
qed

theorem fat_set_array_witness:
  "\<exists>f'. fat_set [1, 2, 3, 4, 5, 6] 12 1 0xABC = Inr f' \<and> fat12_ent f' 1 = 0xABC"
  using fat_set_array [of 1 "[1, 2, 3, 4, 5, 6]" "0xABC"] by auto

text \<open>C7: the allocator gives the files of a FAT16 volume, when their names are distinct and their
  clusters fit the table, consecutive disjoint runs of clusters from 2
  on, in the order of the list, each a chain that ends in FFFF, and leaves the entries behind the
  last run free.\<close>

theorem alloc_files_chains:
  assumes "distinct (map fst fs)" "start_of fs \<le> fsz * 256" "fsz \<le> 256"
  shows "\<exists>a. alloc_files 16 fsz fs = Inr a \<and> length (a_fat a) = fsz * SECTOR \<and> a_nxt a = start_of fs \<and>
    fat16_ent (a_fat a) 0 = 0xFFFF \<and> fat16_ent (a_fat a) 1 = 0xFFFF \<and>
    (\<forall>xs f ys. fs = xs @ f # ys \<longrightarrow> snd f \<noteq> [] \<longrightarrow>
       a_of a (fst f) = Some (start_of xs, sectors_for (length (snd f))) \<and>
       chain 0xFFFF (fat16_ent (a_fat a)) (start_of xs) (sectors_for (length (snd f)))) \<and>
    (\<forall>j. start_of fs \<le> j \<longrightarrow> j < fsz * 256 \<longrightarrow> fat16_ent (a_fat a) j = 0)"
proof -
  have e: "eof_mark 16 = 0xFFFF" by (simp add: eof_mark_def)
  obtain a where a: "alloc_files 16 fsz fs = Inr a" "length (a_fat a) = fsz * SECTOR" "a_nxt a = start_of fs"
    and al: "allocated 0xFFFF (fat16_ent (a_fat a)) (a_of a) fs"
    and r: "fat16_ent (a_fat a) 0 = 0xFFFF" "fat16_ent (a_fat a) 1 = 0xFFFF"
    and z: "\<And>j. start_of fs \<le> j \<Longrightarrow> fat16_ent (a_fat a) j = fat16_ent (zeros (fsz * SECTOR)) j"
    using v16.alloc_files_ok [OF assms(1), of fsz, unfolded e] assms(2,3) by (auto simp: SECTOR_def)
  have "a_of a (fst f) = Some (start_of xs, sectors_for (length (snd f))) \<and>
      chain 0xFFFF (fat16_ent (a_fat a)) (start_of xs) (sectors_for (length (snd f)))"
    if "fs = xs @ f # ys" "snd f \<noteq> []" for xs f ys
  proof -
    have "0 < sectors_for (length (snd f))" using that(2) sectors_for_pos by blast
    then show ?thesis using allocated_placed [OF al that(1)] by (simp add: placed_def Let_def)
  qed
  moreover have "fat16_ent (zeros n) j = 0" for n j by (simp add: fat16_ent_def)
  ultimately show ?thesis using a r z by (intro exI [of _ a]) simp
qed

theorem alloc_files_chains_witness:
  "\<exists>a. alloc_files 16 1 [(''A'', zeros 513), (''B'', [1])] = Inr a \<and> a_of a ''B'' = Some (4, 1)"
proof -
  have s: "start_of [(''A'', zeros 513), (''B'', [1])] = 5" "start_of [(''A'', zeros 513)] = 4" "sectors_for (length [1 :: byte]) = 1"
    by (simp_all add: start_of_def sectors_for_def SECTOR_def)
  have d: "distinct (map fst [(''A'', zeros 513), (''B'', [1])])" by simp
  from alloc_files_chains [OF d, of 1] s
  obtain a where "alloc_files 16 1 [(''A'', zeros 513), (''B'', [1])] = Inr a"
    and h: "\<And>xs f ys. [(''A'', zeros 513), (''B'', [1])] = xs @ f # ys \<Longrightarrow> snd f \<noteq> [] \<Longrightarrow>
       a_of a (fst f) = Some (start_of xs, sectors_for (length (snd f)))" by auto
  then show ?thesis using h [of "[(''A'', zeros 513)]" "(''B'', [1])" "[]"] s by auto
qed

end
