(* ===== verification/Qizo_Mkimg.thy ===== *)
theory Qizo_Mkimg
  imports Qizo_Lzss Qizo_Artifacts Qizo_Fat
begin

text \<open>
  The disk image builder, \<^verbatim>\<open>src/tools/mkqizoimg/mkqizoimg.py\<close>: the boot sector and the image
  (\<open>build_image\<close>) and the whole command (\<open>mkqizoimg\<close>, the body of \<open>main\<close> from the bytes of its
  input files to the bytes of the file it writes; the messages it prints are left out).
\<close>

section \<open>Definitions\<close>

subsection \<open>The image\<close>

text \<open>The boot sector of the volume, statement by statement.\<close>

definition boot_sector_writes :: "int \<Rightarrow> layout \<Rightarrow> string \<Rightarrow> bstmt list" where
  "boot_sector_writes total_sectors lay label =
     [SetSlice 0 3 [0xEB, 0x3E, 0x90],
      SetSlice 3 11 (encode ''QIZOIMG'' @ [0]),
      PackInto 2 11 (int SECTOR),
      SetByte 13 1,
      PackInto 2 14 (int (reserved lay)),
      SetByte 16 2,
      PackInto 2 17 224,
      PackInto 2 19 0,
      SetByte 21 0xF8,
      PackInto 2 22 (int (fat_size lay)),
      PackInto 2 24 63,
      PackInto 2 26 255,
      PackInto 4 28 (int (part_lba lay)),
      PackInto 4 32 (total_sectors - int (part_lba lay)),
      SetByte 34 0x80,
      SetByte 35 0x01,
      PackInto 2 36 0,
      PackInto 2 38 (total_sectors - int PART_LBA),
      SetByte 42 0x29,
      PackInto 4 43 0x51495A4F,
      SetSlice 47 58 (ljust 11 0x20 (take 11 (encode label))),
      SetSlice 58 66 (if bits lay = 16 then encode ''FAT16   '' else encode ''FAT12   ''),
      SetSlice 66 68 [0x29, 0x00],
      SetSlice 510 512 [0x55, 0xAA]]"

definition boot_sector :: "int \<Rightarrow> layout \<Rightarrow> string \<Rightarrow> bytes res" where
  "boot_sector total_sectors lay label = run_writes (boot_sector_writes total_sectors lay label) (zeros 512)"

text \<open>Copying the payloads to their clusters.\<close>

definition place_file :: "(string \<rightharpoonup> nat \<times> nat) \<Rightarrow> nat \<Rightarrow> string \<times> bytes \<Rightarrow> bytes \<Rightarrow> bytes" where
  "place_file cluster_of data_lba file img =
     (case cluster_of (fst file) of
        None \<Rightarrow> img
      | Some (first, count) \<Rightarrow> blit ((data_lba + (first - 2)) * SECTOR) (snd file) img)"

record image_info =
  fat_lba :: nat
  root_lba :: nat
  data_lba :: nat
  fatname :: string
  used_clusters :: nat

definition build_image ::
    "int \<Rightarrow> layout \<Rightarrow> files \<Rightarrow> string \<Rightarrow> bytes \<Rightarrow> nat \<Rightarrow> bytes \<Rightarrow> (bytes \<times> image_info) res" where
  "build_image total_sectors lay files label blob blob_offset stage2_img =
     bindE (if total_sectors < 0 then Inl (ValueError ''negative count'')
            else Inr (zeros (nat total_sectors * SECTOR))) (\<lambda>img0.
     bindE (boot_sector total_sectors lay label) (\<lambda>bs.
     let part = part_lba lay;
         img1 = bslice_set (part * SECTOR) (part * SECTOR + 512) bs img0;
         img2 = blit (STAGE2_LBA * SECTOR) stage2_img img1
     in
     bindE (alloc_files (bits lay) (fat_size lay) files) (\<lambda>a.
     bindE (root_sectors_of (bits lay)) (\<lambda>roots.
     bindE (build_root roots label (a_of a) files) (\<lambda>root.
     let fatl = part + reserved lay;
         rootl = fatl + 2 * fat_size lay;
         datal = rootl + roots;
         img3 = blit (fatl * SECTOR) (a_fat a) img2;
         img4 = blit ((fatl + fat_size lay) * SECTOR) (a_fat a) img3;
         img5 = blit (rootl * SECTOR) root img4;
         img6 = fold (place_file (a_of a) datal) files img5;
         img7 = blit blob_offset blob img6
     in Inr (img7, \<lparr>fat_lba = fatl, root_lba = rootl, data_lba = datal,
                     fatname = (if bits lay = 16 then ''FAT16   '' else ''FAT12   ''), used_clusters = a_nxt a - 2\<rparr>))))))"

subsection \<open>The command\<close>

record mk_args =
  m_stage1 :: bytes
  m_stage2 :: bytes
  m_kernel :: bytes
  m_syms :: "string \<rightharpoonup> int"
  m_entry :: "int option"
  m_image_sectors :: int
  m_raw :: bool
  m_label :: string

text \<open>Checks on the stage1 template; a short one is padded to a sector.\<close>

definition prepare_stage1 :: "bytes \<Rightarrow> bytes res" where
  "prepare_stage1 stage1 =
     bindE (guardE (bslice STAGE1_ARGS_OFF (STAGE1_ARGS_OFF + 20) stage1 \<noteq> zeros 20)
             (SystemExit ''qizo: stage1 argument block is not clear'' [])) (\<lambda>_.
     let s = (if length stage1 < 512 then stage1 @ zeros (512 - length stage1) else stage1) in
     bindE (guardE (bslice 510 512 s \<noteq> [0x55, 0xAA])
             (SystemExit ''qizo: stage1 missing boot signature'' [])) (\<lambda>_.
     Inr s))"

text \<open>The module: a 64-byte header and the kernel.\<close>

record module_info =
  klen :: int
  entry_off :: int
  img_total :: int
  kbase :: int

definition module_info_of :: "mk_args \<Rightarrow> module_info res" where
  "module_info_of args =
     (case m_syms args ''__qizo_phys_base'' of
        None \<Rightarrow> Inl (KeyError ''__qizo_phys_base'')
      | Some base \<Rightarrow>
          (case (case m_entry args of Some e \<Rightarrow> Some e | None \<Rightarrow> m_syms args ''qizo_kernel_entry'') of
             None \<Rightarrow> Inl (SystemExit ''qizo: cannot determine kernel entry'' [])
           | Some entry \<Rightarrow>
               let kernel = m_kernel args;
                   image_end = (case m_syms args ''__qizo_image_end'' of
                                  Some v \<Rightarrow> v | None \<Rightarrow> base + int (length kernel));
                   bss_end = (case m_syms args ''__qizo_bss_end'' of Some v \<Rightarrow> v | None \<Rightarrow> image_end);
                   kl = image_end - base;
                   tot = max bss_end image_end - base
               in
               bindE (guardE (kl \<noteq> int (length kernel))
                 (SystemExit ''qizo: kernel file %d bytes but image span %d'' [FI (int (length kernel)), FI kl])) (\<lambda>_.
               bindE (guardE (kl + int QIZOK_HDR > int KERNEL_MAX \<or> tot > int KERNEL_MAX)
                 (SystemExit ''qizo: kernel %d bytes exceeds the %d byte load budget'' [FI kl, FI (int KERNEL_MAX)])) (\<lambda>_.
               Inr \<lparr>klen = kl, entry_off = entry - base, img_total = tot, kbase = base\<rparr>))))"

definition module_header :: "module_info \<Rightarrow> bytes res" where
  "module_header mi =
     bindE (foldE (\<lambda>v acc. bindE (pack_le 4 v) (\<lambda>d. Inr (acc @ d)))
              [int QIZOK_MAGIC, klen mi, entry_off mi, img_total mi, kbase mi, int SECTOR] []) (\<lambda>m.
     Inr (m @ zeros (64 - length m)))"

text \<open>The blob: the container around the module, padded to whole sectors.\<close>

definition make_blob :: "bool \<Rightarrow> bytes \<Rightarrow> bytes res" where
  "make_blob raw payload =
     bindE (if raw then
              bindE (pack_le 4 0) (\<lambda>z. bindE (pack_le 4 (int (length payload))) (\<lambda>n. Inr (z @ n @ payload)))
            else compress payload) (\<lambda>blob.
     bindE (guardE (length blob > BLOB_MAX)
             (SystemExit ''qizo: blob %d bytes exceeds %d'' [FI (int (length blob)), FI (int BLOB_MAX)])) (\<lambda>_.
     Inr (blob @ zeros (sectors_for (length blob) * SECTOR - length blob))))"

definition patch_stage1 :: "nat \<Rightarrow> nat \<Rightarrow> bytes \<Rightarrow> bytes res" where
  "patch_stage1 blob_sectors crc stage1 =
     run_writes
       [PackInto 4 (STAGE1_ARGS_OFF + 4) (int PART_LBA),
        PackInto 2 (STAGE1_ARGS_OFF + 8) (int (STAGE2_SECTORS + blob_sectors)),
        PackInto 4 (STAGE1_ARGS_OFF + 12) (int crc)] stage1"

definition choose_layout :: "int \<Rightarrow> nat \<Rightarrow> (int \<times> layout) res" where
  "choose_layout image_sectors blob_sectors =
     (let part = BLOB_LBA + blob_sectors in
      if image_sectors \<noteq> 0 then
        bindE (plan_layout image_sectors part RESERVED 16) (\<lambda>l16.
        bindE (case l16 of Some l \<Rightarrow> Inr (Some l) | None \<Rightarrow> plan_layout image_sectors part RESERVED 12) (\<lambda>l.
        case l of
          None \<Rightarrow> Inl (SystemExit ''qizo: image too small for a valid FAT volume'' [])
        | Some lay \<Rightarrow> Inr (image_sectors, lay)))
      else pick_layout blob_sectors)"

text \<open>\<open>%d\<close> of an integer.\<close>

definition readme :: "module_info \<Rightarrow> layout \<Rightarrow> nat \<Rightarrow> bytes \<Rightarrow> bytes \<Rightarrow> bytes \<Rightarrow> string" where
  "readme mi lay blob_sectors kern blob payload =
     ''qizo bootable image'' @ nl
     @ ''stage2 at lba '' @ dec STAGE2_LBA @ '' ('' @ dec STAGE2_SECTORS @ '' sectors), module blob at lba ''
     @ dec BLOB_LBA @ '' ('' @ dec blob_sectors @ '' sectors)'' @ nl
     @ ''kernel image '' @ dec (length kern) @ '' bytes, entry +'' @ dec_int (entry_off mi)
     @ '', image plus bss '' @ dec_int ((img_total mi + 1023) div 1024) @ '' KiB'' @ nl
     @ ''compressed payload '' @ dec (length blob) @ '' bytes, ratio ''
     @ fmt1 (fquot (100 * length blob) (length payload)) @ ''%'' @ nl
     @ ''filesystem: FAT'' @ (if bits lay = 16 then ''16'' else ''12'') @ '', '' @ dec_int (clusters lay)
     @ '' clusters of 1 sector(s), reserved lba 0..'' @ dec (part_lba lay - 1) @ nl"

definition partition_writes :: "layout \<Rightarrow> int \<Rightarrow> bstmt list" where
  "partition_writes lay tot =
     [SetByte 0x1BE 0x80,
      SetSlice 0x1BF 0x1C2 [0x00, 0x02, 0x01],
      SetByte 0x1C2 (if bits lay = 16 then 0x06 else 0x01),
      SetSlice 0x1C3 0x1C6 [0xFE, 0xFF, 0xFF],
      PackInto 4 0x1C6 (int (part_lba lay)),
      PackInto 4 0x1CA (tot - int (part_lba lay))]"

definition mkqizoimg :: "mk_args \<Rightarrow> bytes res" where
  "mkqizoimg args =
     bindE (prepare_stage1 (m_stage1 args)) (\<lambda>stage1.
     let stage2 = m_stage2 args; kernel = m_kernel args in
     bindE (guardE (length stage2 > STAGE2_BYTES)
       (SystemExit ''qizo: stage2 code %d bytes exceeds %d'' [FI (int (length stage2)), FI (int STAGE2_BYTES)])) (\<lambda>_.
     bindE (module_info_of args) (\<lambda>mi.
     bindE (module_header mi) (\<lambda>hdr.
     let payload = hdr @ kernel in
     bindE (make_blob (m_raw args) payload) (\<lambda>blob.
     let blob_sectors = length blob div SECTOR; crc = checksum blob in
     bindE (patch_stage1 blob_sectors crc stage1) (\<lambda>stage1.
     let stage2_img = stage2 @ zeros (STAGE2_SECTORS * SECTOR - length stage2) in
     bindE (choose_layout (m_image_sectors args) blob_sectors) (\<lambda>(tot, lay).
     let files = [(''README.TXT'', encode (readme mi lay blob_sectors kernel blob payload)),
                  (''KERNEL.BIN'', kernel)] in
     bindE (build_image tot lay files (m_label args) blob (BLOB_LBA * SECTOR) stage2_img) (\<lambda>(img, info).
     run_writes (partition_writes lay tot) (bslice_set 0 SECTOR stage1 img)))))))))"

section \<open>The image\<close>

text \<open>Copying the payloads.\<close>

definition file_at :: "nat \<Rightarrow> bytes \<Rightarrow> string \<times> bytes \<Rightarrow> nat \<Rightarrow> bool" where
  "file_at datal img file first \<longleftrightarrow>
     bslice ((datal + (first - 2)) * SECTOR) ((datal + (first - 2)) * SECTOR + length (snd file)) img = snd file"

lemma clusters_end:
  "c + sectors_for n \<le> m \<Longrightarrow> 2 \<le> c \<Longrightarrow> (d + (c - 2)) * SECTOR + n \<le> (d + (m - 2)) * SECTOR"
proof -
  assume "c + sectors_for n \<le> m" "2 \<le> c"
  then have "d + (c - 2) + sectors_for n \<le> d + (m - 2)" by linarith
  moreover have "x + s \<le> y \<Longrightarrow> n \<le> s * 512 \<Longrightarrow> x * 512 + n \<le> y * 512" for x s y :: nat by linarith
  ultimately show ?thesis using sectors_for_bounds(1) [of n] unfolding SECTOR_def by blast
qed

lemma place_files_ok:
  assumes "allocated eof e of_name fs" "(datal + (start_of fs - 2)) * SECTOR \<le> length img"
  shows "length (fold (place_file of_name datal) fs img) = length img \<and>
    (\<forall>xs f ys. fs = xs @ f # ys \<longrightarrow> file_at datal (fold (place_file of_name datal) fs img) f (start_of xs)) \<and>
    (\<forall>a b. b \<le> datal * SECTOR \<or> (datal + (start_of fs - 2)) * SECTOR \<le> a \<longrightarrow>
       bslice a b (fold (place_file of_name datal) fs img) = bslice a b img)"
proof -
  have "length (fold (place_file of_name datal) gs img) = length img \<and>
    (\<forall>xs f ys. gs = xs @ f # ys \<longrightarrow> file_at datal (fold (place_file of_name datal) gs img) f (start_of xs)) \<and>
    (\<forall>a b. b \<le> datal * SECTOR \<or> (datal + (start_of gs - 2)) * SECTOR \<le> a \<longrightarrow>
       bslice a b (fold (place_file of_name datal) gs img) = bslice a b img)"
    if "fs = gs @ hs" for gs hs
    using that
  proof (induction gs arbitrary: hs rule: rev_induct)
    case (snoc f gs)
    let ?n = "sectors_for (length (snd f))" and ?g = "fold (place_file of_name datal) gs img"
    have fs: "fs = gs @ f # hs" using snoc.prems by simp
    have IH: "length ?g = length img"
      "\<And>xs f ys. gs = xs @ f # ys \<Longrightarrow> file_at datal ?g f (start_of xs)"
      "\<And>a b. b \<le> datal * SECTOR \<or> (datal + (start_of gs - 2)) * SECTOR \<le> a \<Longrightarrow> bslice a b ?g = bslice a b img"
      using snoc.IH [OF fs] by blast+
    have p: "placed eof e of_name f (start_of gs)" using assms(1) fs by (rule allocated_placed)
    let ?o = "(datal + (start_of gs - 2)) * SECTOR"
    have end_: "?o + length (snd f) \<le> (datal + (start_of (gs @ [f]) - 2)) * SECTOR"
      by (rule clusters_end) simp_all
    also have "\<dots> \<le> (datal + (start_of fs - 2)) * SECTOR"
      using start_of_prefix [OF fs] unfolding start_of_simps
      by (intro mult_le_mono1 add_le_mono order_refl diff_le_mono)
    finally have b: "?o + length (snd f) \<le> length ?g" using assms(2) IH(1) by simp
    have step: "fold (place_file of_name datal) (gs @ [f]) img = blit ?o (snd f) ?g"
      using p sectors_for_bounds(3) [of "length (snd f)"]
      by (cases "?n = 0") (auto simp: placed_def place_file_def Let_def blit_def bslice_set_def)
    have "file_at datal (blit ?o (snd f) ?g) h (start_of xs)" if s: "gs @ [f] = xs @ h # ys" for xs h ys
    proof (cases ys rule: rev_cases)
      case Nil
      then show ?thesis using s bslice_blit_same [OF b] by (simp add: file_at_def)
    next
      case (snoc zs z)
      then have g: "gs = xs @ h # zs" using s by simp
      have "(datal + (start_of xs - 2)) * SECTOR + length (snd h) \<le> ?o"
        using start_of_prefix [OF g] by (rule clusters_end) simp
      then show ?thesis
        using IH(2) [OF g] unfolding file_at_def by (simp only: bslice_blit_before [OF b])
    qed
    moreover have "bslice a c (blit ?o (snd f) ?g) = bslice a c img"
      if "c \<le> datal * SECTOR \<or> (datal + (start_of (gs @ [f]) - 2)) * SECTOR \<le> a" for a c
    proof -
      have "datal * SECTOR \<le> ?o" by (intro mult_le_mono1 le_add1)
      then have "c \<le> ?o \<or> ?o + length (snd f) \<le> a" using that end_ by (meson le_trans)
      then have "bslice a c (blit ?o (snd f) ?g) = bslice a c ?g"
        using bslice_blit_outside [OF b] by blast
      moreover have "?o \<le> (datal + (start_of (gs @ [f]) - 2)) * SECTOR" using end_ by (meson add_leD1)
      then have "c \<le> datal * SECTOR \<or> ?o \<le> a" using that by linarith
      ultimately show ?thesis using IH(3) by simp
    qed
    ultimately show ?case unfolding step using IH(1) b by simp
  qed simp
  from this [of fs "[]", unfolded append_Nil2, OF refl] show ?thesis .
qed

text \<open>The boot sector succeeds when its fields fit their widths, and reads back field by field.\<close>

definition bs_fits :: "int \<Rightarrow> layout \<Rightarrow> bool" where
  "bs_fits tot lay \<longleftrightarrow> reserved lay < 65536 \<and> fat_size lay < 65536 \<and>
     int (part_lba lay) \<le> tot \<and> int PART_LBA \<le> tot \<and> tot - int PART_LBA < 65536"

lemma boot_sector_wr_ok:
  assumes "bs_fits tot lay"
  shows "\<forall>st \<in> set (boot_sector_writes tot lay label). wr_ok (length (zeros 512)) st"
  using assms by (simp add: boot_sector_writes_def bs_fits_def PART_LBA_def SECTOR_def)

lemma boot_sector_ok:
  assumes "bs_fits tot lay"
  shows "boot_sector tot lay label = Inr (wr_all (boot_sector_writes tot lay label) (zeros 512))"
  unfolding boot_sector_def using boot_sector_wr_ok [OF assms] by (rule run_writes_ok)

text \<open>
  What the image builder needs of a FAT16 plan: the regions add up to the whole volume, the
  table has room for every cluster, and the files, the blob and stage2 fit where they go.
\<close>

definition plan16 :: "int \<Rightarrow> layout \<Rightarrow> bool" where
  "plan16 tot lay \<longleftrightarrow> bits lay = 16 \<and> bs_fits tot lay \<and> 1 \<le> reserved lay \<and> fat_size lay \<le> 256 \<and>
     0 \<le> clusters lay \<and> clusters lay + 2 \<le> 256 * int (fat_size lay) \<and>
     tot = int (part_lba lay + reserved lay + 2 * fat_size lay + 14) + clusters lay"

definition files_fit :: "layout \<Rightarrow> files \<Rightarrow> bool" where
  "files_fit lay fs \<longleftrightarrow> distinct (map fst fs) \<and> length fs < 224 \<and> int (start_of fs) \<le> clusters lay + 2 \<and>
     (\<forall>f \<in> set fs. ascii (fst f) \<and> length (snd f) < 2 ^ 32)"

text \<open>The image as the stack of writes that makes it.\<close>

definition image_base :: "int \<Rightarrow> layout \<Rightarrow> bytes \<Rightarrow> bytes \<Rightarrow> bytes \<Rightarrow> bytes \<Rightarrow> bytes" where
  "image_base tot lay bs stage2 fat rt =
     (let fatl = part_lba lay + reserved lay in
      blit ((fatl + 2 * fat_size lay) * SECTOR) rt
        (blit ((fatl + fat_size lay) * SECTOR) fat
           (blit (fatl * SECTOR) fat
              (blit (STAGE2_LBA * SECTOR) stage2
                 (blit (part_lba lay * SECTOR) bs (zeros (nat tot * SECTOR)))))))"

definition image_of :: "int \<Rightarrow> layout \<Rightarrow> files \<Rightarrow> bytes \<Rightarrow> bytes \<Rightarrow> nat \<Rightarrow> bytes \<Rightarrow> alloc \<Rightarrow> bytes \<Rightarrow> bytes" where
  "image_of tot lay fs bs blob off stage2 a rt =
     blit off blob (fold (place_file (a_of a) (part_lba lay + reserved lay + 2 * fat_size lay + 14)) fs
       (image_base tot lay bs stage2 (a_fat a) rt))"

lemma image_base_regions:
  assumes p: "plan16 tot lay" and bs: "length bs = 512" and fat: "length fat = fat_size lay * SECTOR"
    and rt: "length rt = 14 * SECTOR" and s2: "STAGE2_LBA * SECTOR + length stage2 \<le> part_lba lay * SECTOR"
  defines "i \<equiv> image_base tot lay bs stage2 fat rt" and "fatl \<equiv> part_lba lay + reserved lay"
  shows "length i = nat tot * SECTOR"
    "bslice (STAGE2_LBA * SECTOR) (STAGE2_LBA * SECTOR + length stage2) i = stage2"
    "bslice (part_lba lay * SECTOR) (part_lba lay * SECTOR + 512) i = bs"
    "bslice (fatl * SECTOR) (fatl * SECTOR + fat_size lay * SECTOR) i = fat"
    "bslice ((fatl + fat_size lay) * SECTOR) ((fatl + fat_size lay) * SECTOR + fat_size lay * SECTOR) i = fat"
    "bslice ((fatl + 2 * fat_size lay) * SECTOR) ((fatl + 2 * fat_size lay) * SECTOR + 14 * SECTOR) i = rt"
proof -
  let ?P = "part_lba lay * 512" let ?R = "reserved lay * 512" let ?F = "fat_size lay * 512"
  have tot: "nat tot * 512 = ?P + ?R + 2 * ?F + 14 * 512 + nat (clusters lay) * 512" and r: "512 \<le> ?R"
    using p by (auto simp: plan16_def)
  note len = bs fat [unfolded SECTOR_def] rt [unfolded SECTOR_def]
  define i1 where "i1 = blit ?P bs (zeros (nat tot * 512))"
  define i2 where "i2 = blit (STAGE2_LBA * 512) stage2 i1"
  define i3 where "i3 = blit (?P + ?R) fat i2"
  define i4 where "i4 = blit (?P + ?R + ?F) fat i3"
  have i: "i = blit (?P + ?R + 2 * ?F) rt i4"
    by (simp add: i_def image_base_def Let_def i1_def i2_def i3_def i4_def SECTOR_def add_mult_distrib)
  have l1: "length i1 = nat tot * 512" unfolding i1_def using tot r len by simp
  have l2: "length i2 = nat tot * 512" unfolding i2_def using l1 s2 tot r by (simp add: SECTOR_def)
  have l3: "length i3 = nat tot * 512" unfolding i3_def using l2 tot r len by simp
  have l4: "length i4 = nat tot * 512" unfolding i4_def using l3 tot r len by simp
  show "length i = nat tot * SECTOR" unfolding i SECTOR_def using l4 tot r len by simp
  have f5: "y \<le> ?P + ?R + 2 * ?F \<Longrightarrow> bslice x y i = bslice x y i4" for x y
    unfolding i by (rule bslice_blit_before) (use l4 tot len in simp_all)
  have f4: "y \<le> ?P + ?R + ?F \<Longrightarrow> bslice x y i4 = bslice x y i3" for x y
    unfolding i4_def by (rule bslice_blit_before) (use l3 tot len in simp_all)
  have f3: "y \<le> ?P + ?R \<Longrightarrow> bslice x y i3 = bslice x y i2" for x y
    unfolding i3_def by (rule bslice_blit_before) (use l2 tot len in simp_all)
  have f2: "?P \<le> x \<Longrightarrow> bslice x y i2 = bslice x y i1" for x y
    unfolding i2_def by (rule bslice_blit_after) (use l1 tot s2 in \<open>simp_all add: SECTOR_def\<close>)
  show "bslice (STAGE2_LBA * SECTOR) (STAGE2_LBA * SECTOR + length stage2) i = stage2"
    using s2 r l1 tot bslice_blit_same [of "STAGE2_LBA * 512" stage2 i1]
    by (simp add: f5 f4 f3 SECTOR_def i2_def [symmetric])
  show "bslice (part_lba lay * SECTOR) (part_lba lay * SECTOR + 512) i = bs"
  proof -
    have "bslice ?P (?P + 512) i1 = bs"
      unfolding i1_def using tot r len bslice_blit_same [of ?P bs "zeros (nat tot * 512)"] by simp
    then show ?thesis using r by (simp add: f5 f4 f3 f2 SECTOR_def)
  qed
  show "bslice (fatl * SECTOR) (fatl * SECTOR + fat_size lay * SECTOR) i = fat"
    using r tot len l2 bslice_blit_same [of "?P + ?R" fat i2]
    by (simp add: f5 f4 SECTOR_def fatl_def add_mult_distrib i3_def [symmetric])
  show "bslice ((fatl + fat_size lay) * SECTOR) ((fatl + fat_size lay) * SECTOR + fat_size lay * SECTOR) i = fat"
    using r tot len l3 bslice_blit_same [of "?P + ?R + ?F" fat i3]
    by (simp add: f5 SECTOR_def fatl_def add_mult_distrib i4_def [symmetric])
  show "bslice ((fatl + 2 * fat_size lay) * SECTOR) ((fatl + 2 * fat_size lay) * SECTOR + 14 * SECTOR) i = rt"
    using r tot len l4 bslice_blit_same [of "?P + ?R + 2 * ?F" rt i4]
    by (simp add: SECTOR_def fatl_def add_mult_distrib i)
qed

lemma build_image_ok:
  assumes p: "plan16 tot lay" and f: "files_fit lay fs" and l: "ascii label"
    and s: "STAGE2_LBA * SECTOR + length stage2 \<le> off" and b: "off + length blob \<le> part_lba lay * SECTOR"
  obtains img fat cl rt where
    "build_image tot lay fs label blob off stage2 =
       Inr (img, \<lparr>fat_lba = part_lba lay + reserved lay, root_lba = part_lba lay + reserved lay + 2 * fat_size lay,
                  data_lba = part_lba lay + reserved lay + 2 * fat_size lay + 14, fatname = ''FAT16   '', used_clusters = start_of fs - 2\<rparr>)"
    "length img = nat tot * SECTOR"
    "allocated 0xFFFF (fat16_ent fat) cl fs" "length fat = fat_size lay * SECTOR"
    "root_holds label cl fs rt" "length rt = 14 * SECTOR"
    "bslice (STAGE2_LBA * SECTOR) (STAGE2_LBA * SECTOR + length stage2) img = stage2"
    "bslice off (off + length blob) img = blob"
    "bslice (part_lba lay * SECTOR) (part_lba lay * SECTOR + 512) img = wr_all (boot_sector_writes tot lay label) (zeros 512)"
    "bslice ((part_lba lay + reserved lay) * SECTOR) ((part_lba lay + reserved lay) * SECTOR + fat_size lay * SECTOR) img = fat"
    "bslice ((part_lba lay + reserved lay + fat_size lay) * SECTOR)
       ((part_lba lay + reserved lay + fat_size lay) * SECTOR + fat_size lay * SECTOR) img = fat"
    "bslice ((part_lba lay + reserved lay + 2 * fat_size lay) * SECTOR)
       ((part_lba lay + reserved lay + 2 * fat_size lay) * SECTOR + 14 * SECTOR) img = rt"
    "\<And>xs x ys. fs = xs @ x # ys \<Longrightarrow> file_at (part_lba lay + reserved lay + 2 * fat_size lay + 14) img x (start_of xs)"
proof -
  let ?part = "part_lba lay" let ?fatl = "?part + reserved lay" let ?fs = "fat_size lay"
  let ?rootl = "?fatl + 2 * ?fs" let ?datal = "?rootl + 14"
  let ?bs = "wr_all (boot_sector_writes tot lay label) (zeros 512)"
  have fits: "bs_fits tot lay" and b16: "bits lay = 16" using p unfolding plan16_def by blast+
  have tot: "nat tot = ?datal + nat (clusters lay)" "\<not> tot < 0" using p by (auto simp: plan16_def)
  have start: "start_of fs - 2 \<le> nat (clusters lay)" "start_of fs \<le> 256 * ?fs"
    using p f by (auto simp: plan16_def files_fit_def)
  have lbs: "length ?bs = 512" using length_wr_all [OF boot_sector_wr_ok [OF fits]] by simp
  obtain a where a: "alloc_files 16 ?fs fs = Inr a" "length (a_fat a) = ?fs * SECTOR" "a_nxt a = start_of fs"
    "allocated 0xFFFF (fat16_ent (a_fat a)) (a_of a) fs"
    using v16.alloc_files_ok [of fs ?fs] f p start(2)
    by (auto simp: plan16_def files_fit_def SECTOR_def eof_mark_def)
  obtain rt where rt: "build_root 14 label (a_of a) fs = Inr rt" "length rt = 14 * SECTOR" "root_holds label (a_of a) fs rt"
    using build_root_ok [OF l, of fs 14 "a_of a"] f by (auto simp: files_fit_def SECTOR_def)
  let ?base = "image_base tot lay ?bs stage2 (a_fat a) rt"
  let ?img = "image_of tot lay fs ?bs blob off stage2 a rt"
  have build: "build_image tot lay fs label blob off stage2 =
       Inr (?img, \<lparr>fat_lba = ?fatl, root_lba = ?rootl, data_lba = ?datal, fatname = ''FAT16   '',
              used_clusters = start_of fs - 2\<rparr>)"
    using b16 tot(2) a rt(1) lbs
    by (simp add: build_image_def boot_sector_ok [OF fits] root_sectors_of_def ROOT_SECTORS_def Let_def
          image_of_def image_base_def blit_def)
  have s2: "STAGE2_LBA * SECTOR + length stage2 \<le> ?part * SECTOR" using s b by simp
  note base = image_base_regions [OF p lbs a(2) rt(2) s2]
  have room: "(?datal + (start_of fs - 2)) * SECTOR \<le> length ?base"
    unfolding base(1) tot(1) using start(1) by (intro mult_le_mono1 add_le_mono order_refl)
  note pl = place_files_ok [OF a(4) room]
  let ?i6 = "fold (place_file (a_of a) ?datal) fs ?base"
  have l6: "length ?i6 = nat tot * SECTOR" using pl base(1) by simp
  have b6: "off + length blob \<le> length ?i6" using b l6 tot(1) by (simp add: SECTOR_def)
  have fr: "bslice x y ?img = bslice x y ?base"
    if "y \<le> off \<or> ?part * SECTOR \<le> x" "y \<le> ?datal * SECTOR" for x y
  proof -
    have "y \<le> off \<or> off + length blob \<le> x" using that(1) b by linarith
    then have "bslice x y ?img = bslice x y ?i6"
      unfolding image_of_def using bslice_blit_outside [OF b6] by blast
    then show ?thesis using pl that(2) by simp
  qed
  show thesis
  proof (rule that [OF build _ a(4,2) rt(3,2)])
    show "length ?img = nat tot * SECTOR" unfolding image_of_def using b6 l6 by simp
    show "bslice off (off + length blob) ?img = blob" unfolding image_of_def using b6 by simp
    show "file_at ?datal ?img x (start_of xs)" if "fs = xs @ x # ys" for xs x ys
    proof -
      have "file_at ?datal ?i6 x (start_of xs)" using pl that by blast
      moreover have "off + length blob \<le> (?datal + (start_of xs - 2)) * SECTOR"
        using b by (simp add: SECTOR_def)
      ultimately show ?thesis
        unfolding file_at_def image_of_def by (simp only: bslice_blit_after [OF b6])
    qed
  qed (use base fr s b in \<open>simp_all add: SECTOR_def add_mult_distrib\<close>)
qed

text \<open>
  A volume laid out by a plan: boot sector, first table, root directory and the clusters of every
  file at the sectors the plan gives them.
\<close>

definition volume_at :: "bytes \<Rightarrow> int \<Rightarrow> layout \<Rightarrow> files \<Rightarrow> string \<Rightarrow> bytes \<Rightarrow> (string \<rightharpoonup> nat \<times> nat) \<Rightarrow> bytes \<Rightarrow> bool" where
  "volume_at img tot lay fs label fat cl rt \<longleftrightarrow>
     length img = nat tot * SECTOR \<and> length fat = fat_size lay * SECTOR \<and> length rt = 14 * SECTOR \<and>
     allocated 0xFFFF (fat16_ent fat) cl fs \<and> root_holds label cl fs rt \<and>
     bslice (part_lba lay * SECTOR) (part_lba lay * SECTOR + 512) img =
       wr_all (boot_sector_writes tot lay label) (zeros 512) \<and>
     bslice ((part_lba lay + reserved lay) * SECTOR) ((part_lba lay + reserved lay) * SECTOR + fat_size lay * SECTOR) img = fat \<and>
     bslice ((part_lba lay + reserved lay + fat_size lay) * SECTOR)
       ((part_lba lay + reserved lay + fat_size lay) * SECTOR + fat_size lay * SECTOR) img = fat \<and>
     bslice ((part_lba lay + reserved lay + 2 * fat_size lay) * SECTOR)
       ((part_lba lay + reserved lay + 2 * fat_size lay) * SECTOR + 14 * SECTOR) img = rt \<and>
     (\<forall>xs x ys. fs = xs @ x # ys \<longrightarrow> file_at (part_lba lay + reserved lay + 2 * fat_size lay + 14) img x (start_of xs))"

lemma volume_at_frame:
  assumes "volume_at img tot lay fs label fat cl rt" "length img' = length img"
    and "\<And>x y. part_lba lay * SECTOR \<le> x \<Longrightarrow> bslice x y img' = bslice x y img"
  shows "volume_at img' tot lay fs label fat cl rt"
  using assms(1) unfolding volume_at_def file_at_def by (simp add: assms(2,3))

section \<open>The readme\<close>

lemma length_dec: "n < 10 ^ k \<Longrightarrow> 0 < k \<Longrightarrow> length (dec n) \<le> k"
proof (induction n arbitrary: k rule: dec.induct)
  case (1 n)
  show ?case
  proof (cases "n < 10")
    case False
    obtain j where k: "k = Suc j" using 1(3) by (cases k) auto
    then have j: "n div 10 < 10 ^ j" using 1(2) by (simp add: less_mult_imp_div_less)
    moreover have "0 < j" using False 1(2) k by (cases j) auto
    ultimately have "length (dec (n div 10)) \<le> j" using 1(1) [OF False] by blast
    then show ?thesis using False k by (simp add: dec.simps [of n])
  qed (use 1 in \<open>simp add: dec.simps [of n]\<close>)
qed

lemma length_dec_int: "0 \<le> v \<Longrightarrow> v < 10 ^ k \<Longrightarrow> 0 < k \<Longrightarrow> length (dec_int v) \<le> k"
  by (simp add: dec_int_def length_dec nat_less_iff)

lemma rne_le: "rne p q \<le> p div q + 1"
  by (simp add: rne_def Let_def)

lemma length_fmt1_fquot:
  assumes "x \<le> 10 ^ 8" "0 < y"
  shows "length (fmt1 (fquot x y)) \<le> 12"
proof -
  obtain m s where ms: "fquot x y = (m, s)" "m \<le> x * 2 ^ s + 1"
  proof (cases "find (\<lambda>s. 2 ^ 52 * y \<le> x * 2 ^ s) [0..<1075]")
    case (Some s)
    have "rne (x * 2 ^ s) y \<le> x * 2 ^ s div y + 1" by (rule rne_le)
    also have "\<dots> \<le> x * 2 ^ s + 1" by simp
    finally show thesis using Some that by (simp add: fquot_def)
  qed (use that in \<open>simp add: fquot_def\<close>)
  let ?t = "rne (10 * m) (2 ^ s)"
  have "?t \<le> 10 * m div 2 ^ s + 1" by (rule rne_le)
  also have "\<dots> \<le> (10 * x * 2 ^ s + 10) div 2 ^ s + 1" using ms(2) by (intro add_right_mono div_le_mono) simp
  also have "\<dots> \<le> 10 * x + 11" by (simp add: div_add1_eq [of "10 * x * 2 ^ s"] div_le_dividend add.commute)
  finally have "?t div 10 < 10 ^ 9" using assms(1) by simp
  then have "length (dec (?t div 10)) \<le> 9" by (rule length_dec) simp
  moreover have "length (dec (?t mod 10)) \<le> 1" by (rule length_dec) simp_all
  ultimately show ?thesis by (simp add: fmt1_def ms(1) Let_def)
qed

lemma length_readme:
  assumes "part_lba lay < 10 ^ 9" "s < 10 ^ 9" "0 \<le> entry_off mi" "entry_off mi < 10 ^ 10" "0 \<le> img_total mi" "img_total mi < 10 ^ 9"
    "length kern < 10 ^ 9" "length blob \<le> 10 ^ 6" "payload \<noteq> []" "0 \<le> clusters lay" "clusters lay < 10 ^ 9"
  shows "length (encode (readme mi lay s kern blob payload)) \<le> 1024"
proof -
  have "length (dec STAGE2_LBA) \<le> 9" "length (dec STAGE2_SECTORS) \<le> 9" "length (dec BLOB_LBA) \<le> 9" "length (dec s) \<le> 9"
    "length (dec (length kern)) \<le> 9" "length (dec (length blob)) \<le> 9" "length (dec (part_lba lay - 1)) \<le> 9"
    by (rule length_dec; use assms in \<open>simp add: STAGE2_LBA_def PART_LBA_def STAGE2_SECTORS_def BLOB_LBA_def\<close>)+
  moreover have "length (dec_int (entry_off mi)) \<le> 10" "length (dec_int ((img_total mi + 1023) div 1024)) \<le> 9"
    "length (dec_int (clusters lay)) \<le> 9"
    by (rule length_dec_int; use assms in simp)+
  moreover have "length (fmt1 (fquot (100 * length blob) (length payload))) \<le> 12"
    using assms by (intro length_fmt1_fquot) simp_all
  ultimately have "length (readme mi lay s kern blob payload) \<le> 512"
    by (simp add: readme_def nl_def)
  then show ?thesis using length_encode_le [of "readme mi lay s kern blob payload"] by linarith
qed

lemma readme_starts: "take 4 (encode (readme mi lay s kern blob payload)) = encode ''qizo''"
  by (simp add: readme_def encode_def encode_char_def)

section \<open>The command\<close>

lemma pick_loop_plan: "pick_loop t p = Inr (tot, lay) \<Longrightarrow> plan_layout tot p RESERVED 16 = Inr (Some lay)"
proof (induction t p rule: pick_loop.induct)
  case (1 t p)
  then obtain l where t: "t < 2 ^ 22" and l: "plan_layout t p RESERVED 16 = Inr l"
    and r: "(case l of Some lay \<Rightarrow> Inr (t, lay) | None \<Rightarrow> pick_loop (t + 256) p) = Inr (tot, lay)"
    by (auto simp: pick_loop.simps [of t p] split: if_splits)
  then show ?case using 1(1) [OF t l] by (cases l) auto
qed

lemma plan_layout_plan16:
  assumes "plan_layout tot (BLOB_LBA + s) RESERVED 16 = Inr (Some lay)" "tot < 65552"
  shows "plan16 tot lay \<and> part_lba lay = BLOB_LBA + s \<and> reserved lay = 32 \<and> 4085 \<le> clusters lay"
proof -
  let ?p = "BLOB_LBA + s"
  obtain roots where l: "root_sectors_of 16 = Inr roots"
    "fat_size lay = fat_size_for (data_sectors tot ?p RESERVED roots 1 + 2) 16"
    "clusters lay = data_sectors tot ?p RESERVED roots (fat_size lay)" "4085 \<le> clusters lay"
    "bits lay = 16" "reserved lay = RESERVED" "part_lba lay = ?p"
    using plan_layout_Some [OF assms(1)] by metis
  have roots: "roots = 14" using l(1) by (simp add: root_sectors_of_def ROOT_SECTORS_def)
  let ?c = "data_sectors tot ?p RESERVED roots 1 + 2"
  have c: "0 \<le> ?c" "?c \<le> 65481"
    using l(3,4) assms(2) by (simp_all add: data_sectors_def RESERVED_def BLOB_LBA_def roots)
  have "4096 * int (fat_size lay) \<le> max 4096 (?c * 16 + 4095)"
    unfolding l(2) using fat_size_for_bounds(3) [OF c(1), of 16] by (simp add: ceil_bits_def)
  moreover have "max 4096 (?c * 16 + 4095) \<le> 1051791" using c by simp
  ultimately have fs: "fat_size lay \<le> 256" by linarith
  have cov: "clusters lay + 2 \<le> 256 * int (fat_size lay)"
    using plan_layout_covers [OF assms(1)] by (simp add: ceil_bits_def)
  show ?thesis
    using l(3-7) assms(2) fs cov
    by (simp add: plan16_def bs_fits_def data_sectors_def roots RESERVED_def PART_LBA_def BLOB_LBA_def)
qed

lemma choose_layout_plan16:
  assumes "choose_layout k s = Inr (tot, lay)" "bits lay = 16" "tot < 65552"
  shows "plan16 tot lay \<and> part_lba lay = BLOB_LBA + s \<and> reserved lay = 32 \<and> 4085 \<le> clusters lay"
proof -
  have "plan_layout tot (BLOB_LBA + s) RESERVED 16 = Inr (Some lay)"
  proof (cases "k = 0")
    case True
    then have "pick_layout s = Inr (tot, lay)" using assms(1) by (simp add: choose_layout_def)
    then show ?thesis unfolding pick_layout_def Let_def by (rule pick_loop_plan)
  next
    case False
    note c = assms(1) [unfolded choose_layout_def Let_def if_P [OF False]]
    then obtain l16 where l16: "plan_layout k (BLOB_LBA + s) RESERVED 16 = Inr l16"
      by (cases "plan_layout k (BLOB_LBA + s) RESERVED 16") simp_all
    show ?thesis
    proof (cases l16)
      case None
      then obtain l12 where l12: "plan_layout k (BLOB_LBA + s) RESERVED 12 = Inr l12"
        using c l16 by (cases "plan_layout k (BLOB_LBA + s) RESERVED 12") simp_all
      then have "l12 = Some lay" using c l16 None by (cases l12) simp_all
      with l12 plan_layout_Some [of k _ _ 12 lay] have "bits lay = 12" by blast
      then show ?thesis using assms(2) by simp
    next
      case (Some l)
      then show ?thesis using c l16 by simp
    qed
  qed
  then show ?thesis using plan_layout_plan16 assms(3) by blast
qed

lemma make_blob_facts:
  assumes "make_blob raw payload = Inr blob"
  shows "length blob = length blob div SECTOR * SECTOR" "length blob \<le> BLOB_MAX" "0 < length blob div SECTOR"
    "length blob div SECTOR \<le> 248" "\<not> raw \<Longrightarrow> \<exists>z pad. compress payload = Inr z \<and> blob = z @ pad"
proof -
  obtain b where b: "(if raw then bindE (pack_le 4 0) (\<lambda>z. bindE (pack_le 4 (int (length payload))) (\<lambda>n. Inr (z @ n @ payload)))
            else compress payload) = Inr b"
    "length b \<le> BLOB_MAX" "blob = b @ zeros (sectors_for (length b) * SECTOR - length b)"
    using assms by (auto simp: make_blob_def not_less)
  have l: "length blob = sectors_for (length b) * SECTOR"
    using b(3) sectors_for_bounds(1) [of "length b"] by simp
  then show "length blob = length blob div SECTOR * SECTOR" by (simp add: SECTOR_def)
  have "8 \<le> length b"
  proof (cases raw)
    case True
    then show ?thesis using b(1) by (auto simp: pack_le_eq_Inr)
  next
    case False
    then have c: "compress payload = Inr b" using b(1) by simp
    then have "length payload < 2 ^ 32" by (auto simp: compress_def pack_le_eq_Inr)
    from compress_container [OF this] c show ?thesis by (metis Inr_inject length_append length_le_bytes le_add1 add.assoc numeral_Bit0)
  qed
  then have "0 < sectors_for (length b)" using sectors_for_bounds(3) [of "length b"] by linarith
  moreover have "sectors_for (length b) \<le> 248" using b(2) by (simp add: sectors_for_def SECTOR_def BLOB_MAX_def)
  ultimately show "length blob \<le> BLOB_MAX" "0 < length blob div SECTOR" "length blob div SECTOR \<le> 248"
    unfolding l by (simp_all add: SECTOR_def BLOB_MAX_def)
  show "\<not> raw \<Longrightarrow> \<exists>z pad. compress payload = Inr z \<and> blob = z @ pad" using b by auto
qed

lemma module_header_length: "module_header mi = Inr hdr \<Longrightarrow> length hdr = 64"
  by (auto simp: module_header_def pack_le_eq_Inr)

text \<open>The first sector: the patched stage1 with the partition entry written over it.\<close>

definition patch_writes :: "nat \<Rightarrow> nat \<Rightarrow> bstmt list" where
  "patch_writes s crc =
     [PackInto 4 468 16, PackInto 2 472 (int (8 + s)), PackInto 4 476 (int crc)]"

lemma patch_stage1_eq: "patch_stage1 s crc s1 = run_writes (patch_writes s crc) s1"
  by (simp add: patch_stage1_def patch_writes_def STAGE1_ARGS_OFF_def PART_LBA_def STAGE2_SECTORS_def)

definition mbr_of :: "layout \<Rightarrow> int \<Rightarrow> nat \<Rightarrow> nat \<Rightarrow> bytes \<Rightarrow> bytes \<Rightarrow> bytes" where
  "mbr_of lay tot s crc s1 img = wr_all (partition_writes lay tot) (blit 0 (wr_all (patch_writes s crc) s1) img)"

lemma mbr_facts:
  assumes p: "plan16 tot lay" and s: "s \<le> 248" and c: "crc < 2 ^ 32" and l: "length s1 = 512" "512 \<le> length img"
  defines "m \<equiv> mbr_of lay tot s crc s1 img"
  shows "run_writes (patch_writes s crc) s1 = Inr (wr_all (patch_writes s crc) s1)"
    "length (wr_all (patch_writes s crc) s1) = 512"
    "run_writes (partition_writes lay tot) (blit 0 (wr_all (patch_writes s crc) s1) img) = Inr m"
    "length m = length img" "\<And>x y. 512 \<le> x \<Longrightarrow> bslice x y m = bslice x y img"
    "bslice 510 512 m = bslice 510 512 s1"
    "unpack_le 4 m 0x1C6 = Inr (part_lba lay)" "unpack_le 4 m 468 = Inr 16" "unpack_le 2 m 472 = Inr (8 + s)"
    "unpack_le 4 m 476 = Inr crc"
proof -
  let ?q = "wr_all (patch_writes s crc) s1"
  have okq: "\<forall>st \<in> set (patch_writes s crc). wr_ok (length s1) st"
    using s c l by (simp add: patch_writes_def)
  then show "run_writes (patch_writes s crc) s1 = Inr ?q" by (rule run_writes_ok)
  show lq: "length ?q = 512" using length_wr_all [OF okq] l by simp
  let ?b = "blit 0 ?q img"
  have lb: "length ?b = length img" using lq l by simp
  have fits: "bs_fits tot lay" using p unfolding plan16_def by blast
  then have pl: "part_lba lay < 2 ^ 32" by (auto simp: bs_fits_def PART_LBA_def)
  have okp: "\<forall>st \<in> set (partition_writes lay tot). wr_ok (length ?b) st"
    using fits l unfolding lb by (simp add: partition_writes_def bs_fits_def PART_LBA_def)
  then show "run_writes (partition_writes lay tot) ?b = Inr m"
    unfolding m_def mbr_of_def by (rule run_writes_ok)
  show lm: "length m = length img" unfolding m_def mbr_of_def using length_wr_all [OF okp] lb by simp
  have rp: "bslice x y m = wr_read x y (rev (partition_writes lay tot)) ?b" for x y
    unfolding m_def mbr_of_def by (rule bslice_wr_all [OF okp])
  have rb: "bslice x y ?b = wr_read x y (rev (patch_writes s crc)) s1" if "y \<le> 512" for x y
    using that lq l by (simp add: bslice_blit_inside bslice_wr_all [OF okq] del: wr_read.simps)
  show "bslice x y m = bslice x y img" if "512 \<le> x" for x y
    unfolding rp using that lq l by (simp add: partition_writes_def bslice_blit_after)
  show "bslice 510 512 m = bslice 510 512 s1"
    unfolding rp by (simp add: partition_writes_def rb) (simp add: patch_writes_def)
  show "unpack_le 4 m 0x1C6 = Inr (part_lba lay)"
    using l pl unfolding unpack_le_def rp lm by (simp add: partition_writes_def del: le_bytes.simps)
  show "unpack_le 4 m 468 = Inr 16" "unpack_le 2 m 472 = Inr (8 + s)" "unpack_le 4 m 476 = Inr crc"
    using l s c unfolding unpack_le_def rp lm
    by (simp_all add: partition_writes_def rb) (simp_all add: patch_writes_def del: le_bytes.simps)
qed

definition files_of :: "mk_args \<Rightarrow> module_info \<Rightarrow> layout \<Rightarrow> bytes \<Rightarrow> bytes \<Rightarrow> files" where
  "files_of args mi lay blob payload =
     [(''README.TXT'', encode (readme mi lay (length blob div SECTOR) (m_kernel args) blob payload)),
      (''KERNEL.BIN'', m_kernel args)]"

lemma module_info_facts:
  assumes "module_info_of args = Inr mi" "module_header mi = Inr hdr"
  shows "klen mi = int (length (m_kernel args))" "klen mi + 64 \<le> 524288" "img_total mi \<le> 524288" "klen mi \<le> img_total mi"
    "0 \<le> entry_off mi" "entry_off mi < 2 ^ 32"
proof -
  show "klen mi = int (length (m_kernel args))" "klen mi + 64 \<le> 524288" "img_total mi \<le> 524288" "klen mi \<le> img_total mi"
    using assms(1) by (auto simp: module_info_of_def Let_def KERNEL_MAX_def QIZOK_HDR_def not_less split: option.splits)
  show "0 \<le> entry_off mi" "entry_off mi < 2 ^ 32" using assms(2) by (auto simp: module_header_def pack_le_eq_Inr)
qed

lemma files_of_fit:
  assumes "module_info_of args = Inr mi" "module_header mi = Inr hdr" "make_blob raw payload = Inr blob" "payload \<noteq> []"
    and "plan16 tot lay" "4085 \<le> clusters lay"
  shows "files_fit lay (files_of args mi lay blob payload)" "start_of (files_of args mi lay blob payload) \<le> 1028"
proof -
  note m = module_info_facts [OF assms(1,2)] and b = make_blob_facts [OF assms(3)]
  let ?r = "encode (readme mi lay (length blob div SECTOR) (m_kernel args) blob payload)"
  have pl: "part_lba lay < 10 ^ 9" "0 \<le> clusters lay" "clusters lay < 10 ^ 9"
    using assms(5,6) by (auto simp: plan16_def bs_fits_def PART_LBA_def)
  have r: "length ?r \<le> 1024"
    by (rule length_readme) (use pl m b assms(4) in \<open>simp_all add: BLOB_MAX_def\<close>)
  then have s: "sectors_for (length ?r) \<le> 2" "sectors_for (length (m_kernel args)) \<le> 1024"
    using m(1,2) by (simp_all add: sectors_for_def SECTOR_def)
  then show "start_of (files_of args mi lay blob payload) \<le> 1028" by (simp add: start_of_def files_of_def)
  then show "files_fit lay (files_of args mi lay blob payload)"
    using r m(1,2) assms(6) by (simp add: files_fit_def files_of_def ascii_def)
qed


lemma build_image_volume:
  assumes p: "plan16 tot lay" and f: "files_fit lay fs" and l: "ascii label"
    and s: "STAGE2_LBA * SECTOR + length stage2 \<le> off" and b: "off + length blob \<le> part_lba lay * SECTOR"
  obtains img info fat cl rt where "build_image tot lay fs label blob off stage2 = Inr (img, info)"
    "volume_at img tot lay fs label fat cl rt"
    "bslice (STAGE2_LBA * SECTOR) (STAGE2_LBA * SECTOR + length stage2) img = stage2"
    "bslice off (off + length blob) img = blob"
  using build_image_ok [OF assms, of thesis] unfolding volume_at_def by blast

lemma mkqizoimg_ok:
  assumes s1: "prepare_stage1 (m_stage1 args) = Inr s1" "length (m_stage1 args) \<le> 512"
    and s2: "length (m_stage2 args) \<le> STAGE2_BYTES"
    and mi: "module_info_of args = Inr mi" "module_header mi = Inr hdr"
    and bl: "make_blob (m_raw args) (hdr @ m_kernel args) = Inr blob"
    and lay: "choose_layout (m_image_sectors args) (length blob div SECTOR) = Inr (tot, lay)" "bits lay = 16" "tot < 65552"
    and lb: "ascii (m_label args)"
  defines "fs \<equiv> files_of args mi lay blob (hdr @ m_kernel args)"
  obtains img fat cl rt where "mkqizoimg args = Inr img" "volume_at img tot lay fs (m_label args) fat cl rt"
    "bslice (PART_LBA * SECTOR) (PART_LBA * SECTOR + STAGE2_BYTES) img = ljust STAGE2_BYTES 0 (m_stage2 args)"
    "bslice (BLOB_LBA * SECTOR) (BLOB_LBA * SECTOR + length blob) img = blob"
    "bslice 510 512 img = [0x55, 0xAA]" "unpack_le 4 img 0x1C6 = Inr (part_lba lay)"
    "unpack_le 4 img (STAGE1_ARGS_OFF + 4) = Inr PART_LBA"
    "unpack_le 2 img (STAGE1_ARGS_OFF + 8) = Inr (STAGE2_SECTORS + length blob div SECTOR)"
    "unpack_le 4 img (STAGE1_ARGS_OFF + 12) = Inr (checksum blob)"
proof -
  let ?s = "length blob div SECTOR" let ?pay = "hdr @ m_kernel args" let ?crc = "checksum blob"
  let ?s2 = "m_stage2 args @ zeros (STAGE2_SECTORS * SECTOR - length (m_stage2 args))"
  note b = make_blob_facts [OF bl]
  have p: "plan16 tot lay" and part: "part_lba lay = BLOB_LBA + ?s" "4085 \<le> clusters lay"
    using choose_layout_plan16 [OF lay] by blast+
  have pay: "?pay \<noteq> []" using module_header_length [OF mi(2)] by auto
  note f = files_of_fit [OF mi bl pay p part(2), folded fs_def]
  have l2: "length ?s2 = STAGE2_BYTES" using s2 by (simp add: STAGE2_BYTES_def STAGE2_SECTORS_def SECTOR_def)
  have g: "STAGE2_LBA * SECTOR + length ?s2 \<le> BLOB_LBA * SECTOR" "BLOB_LBA * SECTOR + length blob \<le> part_lba lay * SECTOR"
    unfolding l2 part(1) using b(1) by (simp_all add: STAGE2_LBA_def PART_LBA_def BLOB_LBA_def STAGE2_BYTES_def SECTOR_def)
  obtain im info fat cl rt where im: "build_image tot lay fs (m_label args) blob (BLOB_LBA * SECTOR) ?s2 = Inr (im, info)"
    and v: "volume_at im tot lay fs (m_label args) fat cl rt"
    and r: "bslice (STAGE2_LBA * SECTOR) (STAGE2_LBA * SECTOR + length ?s2) im = ?s2"
      "bslice (BLOB_LBA * SECTOR) (BLOB_LBA * SECTOR + length blob) im = blob"
    using build_image_volume [OF p f(1) lb g] by blast
  have ls1: "length s1 = 512" and sig: "bslice 510 512 s1 = [0x55, 0xAA]"
    using s1 by (auto simp: prepare_stage1_def Let_def split: if_splits)
  have big: "512 \<le> length im" using v p by (auto simp: volume_at_def plan16_def SECTOR_def)
  let ?img = "mbr_of lay tot ?s ?crc s1 im"
  note m = mbr_facts [OF p b(4) checksum_less [of blob] ls1 big]
  have "mkqizoimg args = Inr ?img"
    using s1(1) s2 mi bl m(1,2,3) lay(1) im
    by (simp add: mkqizoimg_def Let_def not_less patch_stage1_eq fs_def files_of_def blit_def SECTOR_def)
  moreover have "volume_at ?img tot lay fs (m_label args) fat cl rt"
    using volume_at_frame [OF v m(4)] m(5) part(1) by (simp add: SECTOR_def BLOB_LBA_def)
  moreover have "bslice (PART_LBA * SECTOR) (PART_LBA * SECTOR + STAGE2_BYTES) ?img = ljust STAGE2_BYTES 0 (m_stage2 args)"
    using r(1) m(5) [of "PART_LBA * SECTOR"] unfolding l2
    by (simp add: STAGE2_LBA_def PART_LBA_def SECTOR_def ljust_def zeros_def STAGE2_BYTES_def STAGE2_SECTORS_def)
  moreover have "bslice (BLOB_LBA * SECTOR) (BLOB_LBA * SECTOR + length blob) ?img = blob"
    using r(2) m(5) [of "BLOB_LBA * SECTOR"] by (simp add: BLOB_LBA_def SECTOR_def)
  ultimately show thesis
    using that m(6-10) sig by (simp add: STAGE1_ARGS_OFF_def PART_LBA_def STAGE2_SECTORS_def)
qed

end
