(* ===== verification/Qizo_CheckFs.thy ===== *)
theory Qizo_CheckFs
  imports Qizo_Mkimg
begin

text \<open>
  The filesystem check of \<^verbatim>\<open>src/tools/qizocheck/qizocheck.py\<close>: \<open>check_fs\<close> with its \<open>fat16\<close>.

  A check prints its findings and returns 0 or 1; here it returns a \<open>verdict\<close>, \<open>Fail\<close> with the
  message given to \<open>fail\<close>. File names read from the image are Python strings, modelled as lists of
  code points, so that decoding is the real UTF-8 with its failures.
\<close>

section \<open>Definitions\<close>

datatype verdict = Pass | Fail string "farg list"

text \<open>\<open>bytes.decode()\<close>.\<close>

type_synonym ustring = "nat list"

definition is_cont :: "nat \<Rightarrow> bool" where
  "is_cont b \<longleftrightarrow> 0x80 \<le> b \<and> b \<le> 0xBF"

fun utf8_decode :: "nat list \<Rightarrow> ustring res" where
  "utf8_decode [] = Inr []"
| "utf8_decode (a # rest) =
     (if a < 0x80 then bindE (utf8_decode rest) (\<lambda>u. Inr (a # u))
      else case rest of
        [] \<Rightarrow> Inl UnicodeError
      | b # rest1 \<Rightarrow>
          if 0xC2 \<le> a \<and> a \<le> 0xDF \<and> is_cont b
          then bindE (utf8_decode rest1) (\<lambda>u. Inr (((a - 0xC0) * 64 + (b - 0x80)) # u))
          else (case rest1 of
            [] \<Rightarrow> Inl UnicodeError
          | c # rest2 \<Rightarrow>
              if 0xE0 \<le> a \<and> a \<le> 0xEF \<and> is_cont b \<and> is_cont c
                 \<and> (a = 0xE0 \<longrightarrow> 0xA0 \<le> b) \<and> (a = 0xED \<longrightarrow> b \<le> 0x9F)
              then bindE (utf8_decode rest2) (\<lambda>u. Inr (((a - 0xE0) * 4096 + (b - 0x80) * 64 + (c - 0x80)) # u))
              else (case rest2 of
                [] \<Rightarrow> Inl UnicodeError
              | d # rest3 \<Rightarrow>
                  if 0xF0 \<le> a \<and> a \<le> 0xF4 \<and> is_cont b \<and> is_cont c \<and> is_cont d
                     \<and> (a = 0xF0 \<longrightarrow> 0x90 \<le> b) \<and> (a = 0xF4 \<longrightarrow> b \<le> 0x8F)
                  then bindE (utf8_decode rest3) (\<lambda>u.
                    Inr (((a - 0xF0) * 262144 + (b - 0x80) * 4096 + (c - 0x80) * 64 + (d - 0x80)) # u))
                  else Inl UnicodeError)))"

definition decode :: "bytes \<Rightarrow> ustring res" where
  "decode bs = utf8_decode (map unat bs)"

text \<open>\<open>str.strip()\<close> and \<open>str.strip(".")\<close>.\<close>

definition is_space :: "nat \<Rightarrow> bool" where
  "is_space c \<longleftrightarrow> (9 \<le> c \<and> c \<le> 13) \<or> (28 \<le> c \<and> c \<le> 32) \<or> c = 0x85 \<or> c = 0xA0 \<or> c = 0x1680
     \<or> (0x2000 \<le> c \<and> c \<le> 0x200A) \<or> c = 0x2028 \<or> c = 0x2029 \<or> c = 0x202F \<or> c = 0x205F \<or> c = 0x3000"

definition strip_of :: "(nat \<Rightarrow> bool) \<Rightarrow> ustring \<Rightarrow> ustring" where
  "strip_of p s = rev (dropWhile p (rev (dropWhile p s)))"

definition cps :: "string \<Rightarrow> ustring" where
  "cps s = map of_char s"

text \<open>The entries of the root directory: name, size and first cluster.\<close>

type_synonym dirents = "(ustring \<times> nat \<times> nat) list"

fun scan_root :: "bytes \<Rightarrow> nat \<Rightarrow> nat list \<Rightarrow> dirents \<Rightarrow> dirents res" where
  "scan_root img rootl [] acc = Inr acc"
| "scan_root img rootl (i # is) acc =
     (let e = bslice (rootl * SECTOR + i * 32) (rootl * SECTOR + (i + 1) * 32) img in
      if e = [] \<or> hd e = 0 then Inr acc
      else
        bindE (bidx e 11) (\<lambda>attr.
        if attr = 0x0F \<or> attr = 0x08 then scan_root img rootl is acc
        else
          bindE (decode (bslice 0 8 e)) (\<lambda>name.
          bindE (decode (bslice 8 11 e)) (\<lambda>ext.
          bindE (unpack_le 2 e 26) (\<lambda>cluster.
          bindE (unpack_le 4 e 28) (\<lambda>fsize.
            scan_root img rootl is
              (acc @ [(strip_of (\<lambda>c. c = 46) (strip_of is_space name @ [46] @ strip_of is_space ext),
                       fsize, cluster)])))))))"

definition fat16 :: "bytes \<Rightarrow> nat \<Rightarrow> nat \<Rightarrow> nat res" where
  "fat16 img fat_off_bytes index = unpack_le 2 img (fat_off_bytes + index * 2)"

text \<open>The loop that follows a cluster chain, at most 100000 steps.\<close>

function walk_chain :: "bytes \<Rightarrow> nat \<Rightarrow> nat \<Rightarrow> nat \<Rightarrow> nat \<Rightarrow> nat \<Rightarrow> bytes \<Rightarrow> bytes res" where
  "walk_chain img datal spc fat_off cur spins acc =
     (if 2 \<le> cur \<and> cur < 0xFFF8 \<and> spins < 100000 then
        let lba = datal + (cur - 2) * spc;
            acc' = acc @ bslice (lba * SECTOR) ((lba + spc) * SECTOR) img
        in bindE (fat16 img fat_off cur) (\<lambda>nxt. walk_chain img datal spc fat_off nxt (spins + 1) acc')
      else Inr acc)"
  by pat_completeness auto
termination by (relation "measure (\<lambda>(img, datal, spc, fat_off, cur, spins, acc). 100000 - spins)") auto

declare walk_chain.simps [simp del]

definition read_entry :: "bytes \<Rightarrow> nat \<Rightarrow> nat \<Rightarrow> nat \<Rightarrow> ustring \<times> nat \<times> nat \<Rightarrow> (ustring \<rightharpoonup> bytes) \<Rightarrow> (ustring \<rightharpoonup> bytes) res" where
  "read_entry img datal spc fat_off ent found =
     (case ent of (name, fsize, cluster) \<Rightarrow>
        bindE (walk_chain img datal spc fat_off cluster 0 []) (\<lambda>data. Inr (found(name \<mapsto> take fsize data))))"

definition check_fs :: "bytes \<Rightarrow> bytes \<Rightarrow> verdict res" where
  "check_fs img kern =
     bindE (unpack_le 4 img 0x1C6) (\<lambda>part.
     let bs = bslice (part * SECTOR) (part * SECTOR + SECTOR) img in
     if bslice 510 512 bs \<noteq> [0x55, 0xAA] then Inr (Fail ''boot sector signature missing'' [])
     else
     bindE (unpack_le 2 bs 11) (\<lambda>bps.
     bindE (bidx bs 13) (\<lambda>spc.
     bindE (unpack_le 2 bs 14) (\<lambda>rsv.
     bindE (bidx bs 16) (\<lambda>nfats.
     bindE (unpack_le 2 bs 17) (\<lambda>rootcnt.
     bindE (bidx bs 21) (\<lambda>media.
     bindE (unpack_le 2 bs 22) (\<lambda>fsz.
     if bps \<noteq> SECTOR then Inr (Fail ''unexpected bytes per sector %d'' [FI (int bps)])
     else if media \<noteq> 0xF8 \<and> media \<noteq> 0xF9 then Inr (Fail ''unexpected media byte %02x'' [FI (uint media)])
     else
     bindE (unpack_le 2 bs 19) (\<lambda>t16.
     bindE (if t16 \<noteq> 0 then Inr t16 else unpack_le 4 bs 40) (\<lambda>_.
     let rootl = part + rsv + unat nfats * fsz;
         datal = rootl + (rootcnt * 32 + SECTOR - 1) div SECTOR
     in
     bindE (scan_root img rootl [0..<rootcnt] []) (\<lambda>entries.
     bindE (foldE (read_entry img datal (unat spc) ((part + rsv) * SECTOR)) entries Map.empty) (\<lambda>found.
     Inr (case found (cps ''KERNEL.BIN'') of
            None \<Rightarrow> Fail ''KERNEL.BIN missing from root directory'' []
          | Some k \<Rightarrow>
              if k \<noteq> kern then Fail ''KERNEL.BIN in the filesystem differs from the module kernel'' []
              else (case found (cps ''README.TXT'') of
                      None \<Rightarrow> Fail ''README.TXT missing or unexpected'' []
                    | Some r \<Rightarrow> if take 4 r \<noteq> encode ''qizo'' then Fail ''README.TXT missing or unexpected'' []
                               else Pass))))))))))))))"

section \<open>What it means for a volume to hold a file\<close>

text \<open>A path through the table from one cluster to the number that ends it, as the raw bytes of the image give it.\<close>

inductive fat_path :: "bytes \<Rightarrow> nat \<Rightarrow> nat \<Rightarrow> nat list \<Rightarrow> nat \<Rightarrow> bool" for img fat_off where
  path_end: "fat_path img fat_off c [] c"
| path_link: "\<lbrakk>2 \<le> c; c < 0xFFF8; fat_off + 2 * c + 2 \<le> length img;
     fat_path img fat_off (le_nat (bslice (fat_off + 2 * c) (fat_off + 2 * c + 2) img)) cs d\<rbrakk>
   \<Longrightarrow> fat_path img fat_off c (c # cs) d"

inductive_cases fat_path_NilE: "fat_path img fat_off c [] d"
inductive_cases fat_path_ConsE: "fat_path img fat_off c (b # cs) d"

text \<open>The directory slot \<open>i\<close> is a file entry with the given name, size and first cluster.\<close>

definition dir_slot :: "bytes \<Rightarrow> nat \<Rightarrow> nat \<Rightarrow> bytes" where
  "dir_slot img rootl i = bslice (rootl * SECTOR + i * 32) (rootl * SECTOR + (i + 1) * 32) img"

definition in_use :: "bytes \<Rightarrow> nat \<Rightarrow> nat \<Rightarrow> bool" where
  "in_use img rootl i \<longleftrightarrow> dir_slot img rootl i \<noteq> [] \<and> dir_slot img rootl i ! 0 \<noteq> 0"

definition file_slot :: "bytes \<Rightarrow> nat \<Rightarrow> nat \<Rightarrow> ustring \<times> nat \<times> nat \<Rightarrow> bool" where
  "file_slot img rootl i = (\<lambda>(name, fsize, cluster).
     let e = dir_slot img rootl i in
     in_use img rootl i \<and> length e = 32 \<and> e ! 11 \<noteq> 0x0F \<and> e ! 11 \<noteq> 0x08 \<and>
     (\<exists>base ext. decode (bslice 0 8 e) = Inr base \<and> decode (bslice 8 11 e) = Inr ext \<and>
        name = strip_of (\<lambda>c. c = 46) (strip_of is_space base @ [46] @ strip_of is_space ext)) \<and>
     cluster = le_nat (bslice 26 28 e) \<and> fsize = le_nat (bslice 28 32 e))"

definition cluster_data :: "bytes \<Rightarrow> nat \<Rightarrow> nat \<Rightarrow> nat \<Rightarrow> bytes" where
  "cluster_data img datal spc c = bslice ((datal + (c - 2) * spc) * SECTOR) ((datal + (c - 2) * spc + spc) * SECTOR) img"

text \<open>
  The volume in the first partition has a file of that name in the part of its root directory that is in use, and the
  clusters of its chain, cut to its size, are the contents. The chain ends in the table or, when it is longer than any
  table, after the 100000 clusters that are followed.
\<close>

definition holds_file :: "bytes \<Rightarrow> string \<Rightarrow> bytes \<Rightarrow> bool" where
  "holds_file img name content \<longleftrightarrow>
     (\<exists>part bs rsv rootl datal i fsize cluster cs fin.
        part = le_nat (bslice 0x1C6 0x1CA img) \<and> bs = bslice (part * SECTOR) (part * SECTOR + SECTOR) img \<and>
        bslice 510 512 bs = [0x55, 0xAA] \<and> rsv = le_nat (bslice 14 16 bs) \<and>
        rootl = part + rsv + unat (bs ! 16) * le_nat (bslice 22 24 bs) \<and>
        datal = rootl + (le_nat (bslice 17 19 bs) * 32 + SECTOR - 1) div SECTOR \<and>
        i < le_nat (bslice 17 19 bs) \<and> (\<forall>j < i. in_use img rootl j) \<and> file_slot img rootl i (cps name, fsize, cluster) \<and>
        fat_path img ((part + rsv) * SECTOR) cluster cs fin \<and> (fin < 2 \<or> 0xFFF8 \<le> fin \<or> length cs = 100000) \<and>
        content = take fsize (concat (map (cluster_data img datal (unat (bs ! 13))) cs)))"

lemma walk_chain_path:
  assumes "walk_chain img datal spc fat_off cur spins acc = Inr data" "spins \<le> 100000"
  shows "\<exists>cs fin. fat_path img fat_off cur cs fin \<and> (fin < 2 \<or> 0xFFF8 \<le> fin \<or> spins + length cs = 100000) \<and>
    data = acc @ concat (map (cluster_data img datal spc) cs)"
  using assms
proof (induction "100000 - spins" arbitrary: cur spins acc rule: less_induct)
  case less
  show ?case
  proof (cases "2 \<le> cur \<and> cur < 0xFFF8 \<and> spins < 100000")
    case True
    let ?acc = "acc @ cluster_data img datal spc cur"
    have "bindE (fat16 img fat_off cur) (\<lambda>nxt. walk_chain img datal spc fat_off nxt (spins + 1) ?acc) = Inr data"
      using less.prems(1) True by (subst (asm) walk_chain.simps) (simp add: cluster_data_def Let_def)
    then obtain nxt where n: "fat16 img fat_off cur = Inr nxt" "walk_chain img datal spc fat_off nxt (spins + 1) ?acc = Inr data"
      by (auto simp: bindE_eq_Inr)
    have lt: "100000 - (spins + 1) < 100000 - spins" "spins + 1 \<le> 100000" using True by linarith+
    obtain cs fin where c: "fat_path img fat_off nxt cs fin" "fin < 2 \<or> 0xFFF8 \<le> fin \<or> spins + 1 + length cs = 100000"
      "data = ?acc @ concat (map (cluster_data img datal spc) cs)"
      using less.hyps [OF lt(1) n(2) lt(2)] by blast
    have "fat_off + 2 * cur + 2 \<le> length img" "nxt = le_nat (bslice (fat_off + 2 * cur) (fat_off + 2 * cur + 2) img)"
      using n(1) by (auto simp: fat16_def unpack_le_def mult.commute split: if_splits)
    then have "fat_path img fat_off cur (cur # cs) fin" using path_link [of cur fat_off img cs fin] True c(1) by simp
    then show ?thesis using c(2,3) by (intro exI [of _ "cur # cs"] exI [of _ fin]) auto
  next
    case False
    then show ?thesis using less.prems path_end [of img fat_off cur]
      by (intro exI [of _ "[]"] exI [of _ cur]) (auto simp: walk_chain.simps [of img datal spc fat_off cur])
  qed
qed

lemma scan_root_slots:
  assumes "scan_root img rootl [i..<n] acc = Inr entries" "ent \<in> set entries" "ent \<notin> set acc"
  shows "\<exists>k. i \<le> k \<and> k < n \<and> (\<forall>j. i \<le> j \<and> j < k \<longrightarrow> in_use img rootl j) \<and> file_slot img rootl k ent"
  using assms
proof (induction "n - i" arbitrary: i acc)
  case 0
  then show ?case by simp
next
  case (Suc d)
  then have c: "[i..<n] = i # [Suc i..<n]" by (simp add: upt_conv_Cons)
  let ?e = "dir_slot img rootl i"
  have u: "in_use img rootl i"
    using Suc.prems unfolding c by (auto simp: in_use_def dir_slot_def Let_def hd_conv_nth split: if_splits)
  then have live: "\<not> (?e = [] \<or> hd ?e = 0)" by (auto simp: in_use_def hd_conv_nth)
  have rest: ?case if r: "scan_root img rootl [Suc i..<n] acc' = Inr entries" and a: "ent \<notin> set acc'" for acc'
  proof -
    obtain k where "Suc i \<le> k" "k < n" "\<forall>j. Suc i \<le> j \<and> j < k \<longrightarrow> in_use img rootl j" "file_slot img rootl k ent"
      using Suc.hyps(1) [OF _ r Suc.prems(2) a] diff_Suc_Suc [of d 0] Suc.hyps(2) by (metis Suc_diff_Suc diff_Suc_1 zero_less_Suc zero_less_diff)
    then show ?thesis using u by (metis Suc_leD Suc_leI le_neq_implies_less)
  qed
  have s: "scan_root img rootl (i # [Suc i..<n]) acc = Inr entries" using Suc.prems(1) c by simp
  obtain attr where at: "bidx ?e 11 = Inr attr"
    using s live by (auto simp: dir_slot_def Let_def bindE_eq_Inr)
  show ?case
  proof (cases "attr = 0x0F \<or> attr = 0x08")
    case True
    then have "scan_root img rootl [Suc i..<n] acc = Inr entries" using s live at by (simp add: dir_slot_def Let_def)
    then show ?thesis using rest Suc.prems(3) by blast
  next
    case False
    obtain base ext cluster fsize where f: "decode (bslice 0 8 ?e) = Inr base" "decode (bslice 8 11 ?e) = Inr ext"
      "unpack_le 2 ?e 26 = Inr cluster" "unpack_le 4 ?e 28 = Inr fsize"
      and r: "scan_root img rootl [Suc i..<n]
        (acc @ [(strip_of (\<lambda>c. c = 46) (strip_of is_space base @ [46] @ strip_of is_space ext), fsize, cluster)]) = Inr entries"
      using s live at False by (auto simp: dir_slot_def Let_def bindE_eq_Inr)
    let ?x = "(strip_of (\<lambda>c. c = 46) (strip_of is_space base @ [46] @ strip_of is_space ext), fsize, cluster)"
    show ?thesis
    proof (cases "ent = ?x")
      case False
      then show ?thesis using rest [OF r] Suc.prems(3) by simp
    next
      case True
      have l: "length ?e = 32" using f(4) by (auto simp: dir_slot_def unpack_le_def split: if_splits)
      have "attr = ?e ! 11" using at l by (auto simp: bidx_def)
      then have "file_slot img rootl i ent"
        using u l f \<open>\<not> (attr = 0x0F \<or> attr = 0x08)\<close> unfolding True file_slot_def by (auto simp: Let_def unpack_le_def)
      then show ?thesis using Suc.hyps(2) by (intro exI [of _ i]) auto
    qed
  qed
qed

lemma read_entries_found:
  assumes "foldE (read_entry img datal spc fat_off) entries found0 = Inr found" "found name = Some content"
  shows "found0 name = Some content \<or>
    (\<exists>fsize cluster data. (name, fsize, cluster) \<in> set entries \<and> walk_chain img datal spc fat_off cluster 0 [] = Inr data \<and>
       content = take fsize data)"
  using assms
proof (induction entries arbitrary: found0)
  case (Cons ent entries)
  obtain n fs c where e: "ent = (n, fs, c)" by (cases ent) auto
  obtain data where d: "walk_chain img datal spc fat_off c 0 [] = Inr data"
    "foldE (read_entry img datal spc fat_off) entries (found0(n \<mapsto> take fs data)) = Inr found"
    using Cons.prems(1) by (auto simp: e read_entry_def [of img datal spc fat_off "(n, fs, c)"] bindE_eq_Inr)
  show ?case using Cons.IH [OF d(2) Cons.prems(2)] d(1) e by (auto split: if_splits)
qed simp

lemma if_Fail: "(if c then Inr (Fail m as) else k) = Inr Pass \<longleftrightarrow> \<not> c \<and> k = Inr Pass"
  by simp

lemma check_fs_reads:
  assumes "check_fs img kern = Inr Pass" "bs = bslice (le_nat (bslice 0x1C6 0x1CA img) * SECTOR) (le_nat (bslice 0x1C6 0x1CA img) * SECTOR + SECTOR) img"
  obtains part spc rsv nfats rootcnt fsz entries found where
    "unpack_le 4 img 0x1C6 = Inr part" "bslice 510 512 bs = [0x55, 0xAA]" "bidx bs 13 = Inr spc" "unpack_le 2 bs 14 = Inr rsv" "bidx bs 16 = Inr nfats"
    "unpack_le 2 bs 17 = Inr rootcnt" "unpack_le 2 bs 22 = Inr fsz"
    "scan_root img (part + rsv + unat nfats * fsz) [0..<rootcnt] [] = Inr entries"
    "foldE (read_entry img (part + rsv + unat nfats * fsz + (rootcnt * 32 + SECTOR - 1) div SECTOR) (unat spc) ((part + rsv) * SECTOR)) entries Map.empty = Inr found"
    "found (cps ''KERNEL.BIN'') = Some kern" "\<exists>rd. found (cps ''README.TXT'') = Some rd \<and> take 4 rd = encode ''qizo''"
proof -
  obtain part where p: "unpack_le 4 img 0x1C6 = Inr part" using assms(1) unfolding check_fs_def bindE_eq_Inr by blast
  then have bs: "bs = bslice (part * SECTOR) (part * SECTOR + SECTOR) img" using assms(2) by (auto simp: unpack_le_def split: if_splits)
  note u = assms(1) [unfolded check_fs_def p bindE_simps Let_def if_Fail bindE_eq_Inr, folded bs]
  from u obtain spc rsv nfats rootcnt fsz entries found where
    f: "bslice 510 512 bs = [0x55, 0xAA]" "bidx bs 13 = Inr spc" "unpack_le 2 bs 14 = Inr rsv" "bidx bs 16 = Inr nfats"
    "unpack_le 2 bs 17 = Inr rootcnt" "unpack_le 2 bs 22 = Inr fsz"
    "scan_root img (part + rsv + unat nfats * fsz) [0..<rootcnt] [] = Inr entries"
    "foldE (read_entry img (part + rsv + unat nfats * fsz + (rootcnt * 32 + SECTOR - 1) div SECTOR) (unat spc) ((part + rsv) * SECTOR)) entries Map.empty = Inr found"
    and v: "Inr (case found (cps ''KERNEL.BIN'') of
            None \<Rightarrow> Fail ''KERNEL.BIN missing from root directory'' []
          | Some k \<Rightarrow>
              if k \<noteq> kern then Fail ''KERNEL.BIN in the filesystem differs from the module kernel'' []
              else (case found (cps ''README.TXT'') of
                      None \<Rightarrow> Fail ''README.TXT missing or unexpected'' []
                    | Some r \<Rightarrow> if take 4 r \<noteq> encode ''qizo'' then Fail ''README.TXT missing or unexpected'' []
                               else Pass)) = (Inr Pass :: verdict res)"
    by (elim exE conjE) blast
  have "found (cps ''KERNEL.BIN'') = Some kern" "\<exists>rd. found (cps ''README.TXT'') = Some rd \<and> take 4 rd = encode ''qizo''"
    using v by (auto split: option.splits if_splits)
  with p f show thesis using that by blast
qed

lemma check_fs_holds:
  assumes "check_fs img kern = Inr Pass"
  shows "holds_file img ''KERNEL.BIN'' kern \<and> (\<exists>rd. holds_file img ''README.TXT'' rd \<and> take 4 rd = encode ''qizo'')"
proof -
  define bs where "bs = bslice (le_nat (bslice 0x1C6 0x1CA img) * SECTOR) (le_nat (bslice 0x1C6 0x1CA img) * SECTOR + SECTOR) img"
  from check_fs_reads [OF assms bs_def] obtain part spc rsv nfats rootcnt fsz entries found where
    p: "unpack_le 4 img 0x1C6 = Inr part"
    and f: "bidx bs 13 = Inr spc" "unpack_le 2 bs 14 = Inr rsv" "bidx bs 16 = Inr nfats"
    "unpack_le 2 bs 17 = Inr rootcnt" "unpack_le 2 bs 22 = Inr fsz" "bslice 510 512 bs = [0x55, 0xAA]"
    and e0: "scan_root img (part + rsv + unat nfats * fsz) [0..<rootcnt] [] = Inr entries"
    and fd0: "foldE (read_entry img (part + rsv + unat nfats * fsz + (rootcnt * 32 + SECTOR - 1) div SECTOR) (unat spc) ((part + rsv) * SECTOR)) entries Map.empty = Inr found"
    and k: "found (cps ''KERNEL.BIN'') = Some kern" "\<exists>rd. found (cps ''README.TXT'') = Some rd \<and> take 4 rd = encode ''qizo''"
    by metis
  define rootl where "rootl = part + rsv + unat nfats * fsz"
  define datal where "datal = rootl + (rootcnt * 32 + SECTOR - 1) div SECTOR"
  note e = e0 [folded rootl_def] and fd = fd0 [folded rootl_def, folded datal_def]
  have bslen: "length bs = 512"
  proof -
    have "length (bslice 510 512 bs) = 2" unfolding f(6) by simp
    moreover have "length bs \<le> 512" by (simp add: bs_def SECTOR_def)
    ultimately show ?thesis by (simp split: if_splits)
  qed
  have holds: "holds_file img name content" if a: "found (cps name) = Some content" for name content
  proof -
    obtain fsize cluster data where x: "(cps name, fsize, cluster) \<in> set entries"
      "walk_chain img datal (unat spc) ((part + rsv) * SECTOR) cluster 0 [] = Inr data" "content = take fsize data"
      using read_entries_found [OF fd a] by auto
    obtain i where i: "i < rootcnt" "\<forall>j < i. in_use img rootl j" "file_slot img rootl i (cps name, fsize, cluster)"
      using scan_root_slots [OF e x(1)] by auto
    obtain cs fin where c: "fat_path img ((part + rsv) * SECTOR) cluster cs fin" "fin < 2 \<or> 0xFFF8 \<le> fin \<or> length cs = 100000"
      "data = concat (map (cluster_data img datal (unat spc)) cs)"
      using walk_chain_path [OF x(2)] by auto
    have v: "part = le_nat (bslice 0x1C6 0x1CA img)" "rsv = le_nat (bslice 14 16 bs)" "rootcnt = le_nat (bslice 17 19 bs)"
      "fsz = le_nat (bslice 22 24 bs)" "nfats = bs ! 16" "spc = bs ! 13"
      using p f(1-5) bslen by (auto simp: unpack_le_def bidx_def split: if_splits)
    have w: "bs = bslice (part * SECTOR) (part * SECTOR + SECTOR) img" "rootl = part + rsv + unat (bs ! 16) * le_nat (bslice 22 24 bs)"
      "datal = rootl + (le_nat (bslice 17 19 bs) * 32 + SECTOR - 1) div SECTOR"
      by (simp only: bs_def v(1), simp only: rootl_def v(4,5), simp only: datal_def v(3))
    show ?thesis unfolding holds_file_def
      by (rule exI [of _ part], rule exI [of _ bs], rule exI [of _ rsv], rule exI [of _ rootl], rule exI [of _ datal], rule exI [of _ i],
          rule exI [of _ fsize], rule exI [of _ cluster], rule exI [of _ cs], rule exI [of _ fin], intro conjI)
        (fact v(1) w(1) f(6) v(2) w(2,3) i(1) [unfolded v(3)] i(2,3) c(1,2) x(3) [unfolded c(3) v(6)])+
  qed
  show ?thesis using holds k by blast
qed

section \<open>Reading what the builder wrote\<close>

lemma fat16_ent_read:
  assumes "bslice off (off + length fat) img = fat" "index * 2 + 2 \<le> length fat" "off + length fat \<le> length img"
  shows "fat16 img off index = Inr (fat16_ent fat index)"
proof -
  have "bslice (off + index * 2) (off + index * 2 + 2) img = bslice (index * 2) (index * 2 + 2) fat"
    using assms(2) by (subst assms(1) [symmetric]) (simp add: bslice_bslice ac_simps min_def)
  then show ?thesis using assms(2,3) by (simp add: fat16_def fat16_ent_def unpack_le_def)
qed

lemma chain_tail:
  assumes "chain eof e first (Suc n)" "n \<noteq> 0"
  shows "chain eof e (Suc first) n \<and> e first = Suc first"
proof -
  have c: "e (first + i) = first + i + 1" if "i < n" for i using assms(1) that by (simp add: chain_def)
  have "e (Suc first + i) = Suc first + i + 1" if "i < n - 1" for i using c [of "Suc i"] that by simp
  moreover have "e (Suc first + n - 1) = eof" using assms(1) by (simp add: chain_def)
  ultimately show ?thesis using c [of 0] assms(2) by (simp add: chain_def)
qed

text \<open>The walk along a chain collects its clusters.\<close>

lemma walk_chain_ok:
  assumes "chain 0xFFFF e first count" "2 \<le> first" "count \<noteq> 0" "first + count \<le> 0xFFF8" "spins + count \<le> 100000"
    and "\<And>c. first \<le> c \<Longrightarrow> c < first + count \<Longrightarrow> fat16 img fat_off c = Inr (e c)"
  shows "walk_chain img datal 1 fat_off first spins acc =
     Inr (acc @ bslice ((datal + (first - 2)) * SECTOR) ((datal + (first - 2) + count) * SECTOR) img)"
  using assms
proof (induction count arbitrary: first spins acc)
  case (Suc n)
  let ?l = "datal + (first - 2)"
  have step: "walk_chain img datal 1 fat_off first spins acc =
     walk_chain img datal 1 fat_off (e first) (spins + 1) (acc @ bslice (?l * SECTOR) ((?l + 1) * SECTOR) img)"
    using Suc.prems by (subst walk_chain.simps) (simp add: Let_def)
  show ?case
  proof (cases "n = 0")
    case True
    then have "e first = 0xFFFF" using Suc.prems(1) by (simp add: chain_def)
    then show ?thesis unfolding step True by (subst walk_chain.simps) simp
  next
    case False
    have c: "chain 0xFFFF e (first + 1) n" and e: "e first = first + 1"
      using chain_tail [OF Suc.prems(1) False] by simp_all
    have l: "datal + (first + 1 - 2) = ?l + 1" using Suc.prems(2) by simp
    have "bslice (?l * SECTOR) ((?l + 1) * SECTOR) img @ bslice ((?l + 1) * SECTOR) ((?l + 1 + n) * SECTOR) img
        = bslice (?l * SECTOR) ((?l + Suc n) * SECTOR) img"
      by (subst bslice_split [symmetric]) (simp_all add: add_mult_distrib)
    then show ?thesis
      unfolding step e using Suc.prems by (subst Suc.IH [OF c _ False]) (simp_all only: l, auto)
  qed
qed simp


text \<open>Names that survive the trip through an 8.3 entry.\<close>

definition name83 :: "string \<Rightarrow> bool" where
  "name83 s \<longleftrightarrow> (let (b, x) = split_name s in
     b \<noteq> [] \<and> length b \<le> 8 \<and> x \<noteq> [] \<and> length x \<le> 3 \<and>
     list_all (\<lambda>c. 32 < (of_char c :: nat) \<and> (of_char c :: nat) < 128 \<and> upper_char c = c \<and> c \<noteq> CHR ''.'') (b @ x))"

lemma split_name_join: "snd (split_name s) \<noteq> [] \<Longrightarrow> s = fst (split_name s) @ ''.'' @ snd (split_name s)"
proof -
  assume "snd (split_name s) \<noteq> []"
  then have d: "CHR ''.'' \<in> set s" by (auto simp: split_name_def split: if_splits)
  let ?P = "\<lambda>c. c \<noteq> CHR ''.''"
  have "dropWhile ?P (rev s) \<noteq> []" using d by (simp add: dropWhile_eq_Nil_conv)
  moreover have "hd (dropWhile ?P (rev s)) = CHR ''.''" using hd_dropWhile [OF calculation] by simp
  ultimately have "dropWhile ?P (rev s) = CHR ''.'' # tl (dropWhile ?P (rev s))" by (metis list.collapse)
  then have "rev s = takeWhile ?P (rev s) @ CHR ''.'' # tl (dropWhile ?P (rev s))"
    by (metis takeWhile_dropWhile_id)
  then have "s = rev (takeWhile ?P (rev s) @ CHR ''.'' # tl (dropWhile ?P (rev s)))" by (metis rev_rev_ident)
  then show ?thesis using d by (simp add: split_name_def)
qed

lemma utf8_decode_ascii: "\<forall>n \<in> set ns. n < 128 \<Longrightarrow> utf8_decode ns = Inr ns"
  by (induction ns) auto

lemma decode_encode: "ascii s \<Longrightarrow> decode (encode s) = Inr (cps s)"
proof -
  assume s: "ascii s"
  then have "map unat (encode s) = cps s"
    by (auto simp: encode_ascii cps_def ascii_def unat_of_nat_byte)
  moreover have "\<forall>n \<in> set (cps s). n < 128" using s by (auto simp: cps_def ascii_def)
  ultimately show ?thesis by (simp add: decode_def utf8_decode_ascii)
qed

lemma strip_of_pad:
  assumes "s \<noteq> []" "\<not> p (hd s)" "\<not> p (last s)" "\<forall>c \<in> set t. p c"
  shows "strip_of p (s @ t) = s"
proof -
  have 1: "dropWhile p (s @ t) = s @ t" using assms(1,2) by (cases s) auto
  obtain u z where s: "s = u @ [z]" using assms(1) by (metis rev_exhaust)
  have "dropWhile p (rev t @ rev s) = rev s"
    using assms(3,4) by (subst dropWhile_append2) (auto simp: s)
  then show ?thesis by (simp add: strip_of_def 1)
qed

lemma cps_simps [simp]: "cps [] = []" "cps (s @ t) = cps s @ cps t" "cps s = [] \<longleftrightarrow> s = []"
  by (simp_all add: cps_def)

lemma cps_inject [simp]: "cps s = cps t \<longleftrightarrow> s = t"
  by (simp add: cps_def inj_map_eq_map inj_def)

lemma name83_parts:
  assumes "name83 s"
  defines "b \<equiv> fst (split_name s)" and "x \<equiv> snd (split_name s)"
  shows "s = b @ ''.'' @ x" "ascii s" "name_base s = b @ replicate (8 - length b) CHR '' ''"
    "name_ext s = x @ replicate (3 - length x) CHR '' ''" "b \<noteq> []" "x \<noteq> []"
    "\<And>c. c \<in> set (b @ x) \<Longrightarrow> 32 < (of_char c :: nat) \<and> (of_char c :: nat) < 128 \<and> c \<noteq> CHR ''.''"
proof -
  have v: "b \<noteq> []" "length b \<le> 8" "x \<noteq> []" "length x \<le> 3"
    and c: "\<And>c. c \<in> set (b @ x) \<Longrightarrow>
      32 < (of_char c :: nat) \<and> (of_char c :: nat) < 128 \<and> upper_char c = c \<and> c \<noteq> CHR ''.''"
    using assms(1) unfolding name83_def b_def x_def by (simp_all add: split_def list_all_iff Let_def)
  show "b \<noteq> []" "x \<noteq> []" using v by simp_all
  show s: "s = b @ ''.'' @ x" unfolding b_def x_def by (rule split_name_join) (use v x_def in simp)
  have "ascii (b @ x)" using c by (auto simp: ascii_def)
  then show "ascii s" by (subst s) simp
  have "map upper_char b = b" "map upper_char x = x" using c by (auto intro: map_idI)
  then show "name_base s = b @ replicate (8 - length b) CHR '' ''" "name_ext s = x @ replicate (3 - length x) CHR '' ''"
    using v unfolding name_base_def name_ext_def b_def x_def ljust_def by simp_all
  show "\<And>c. c \<in> set (b @ x) \<Longrightarrow> 32 < (of_char c :: nat) \<and> (of_char c :: nat) < 128 \<and> c \<noteq> CHR ''.''"
    using c by blast
qed

lemma name83_read:
  assumes "name83 s"
  shows "strip_of (\<lambda>c. c = 46) (strip_of is_space (cps (name_base s)) @ [46] @ strip_of is_space (cps (name_ext s))) = cps s"
proof -
  let ?b = "fst (split_name s)" let ?x = "snd (split_name s)"
  note v = name83_parts [OF assms]
  have sp: "\<not> is_space (of_char c)" "of_char c \<noteq> (46 :: nat)" if "c \<in> set (?b @ ?x)" for c
  proof -
    have "32 < (of_char c :: nat)" "(of_char c :: nat) < 128" "c \<noteq> CHR ''.''" using v(7) that by blast+
    moreover have "of_char c = (46 :: nat) \<Longrightarrow> c = CHR ''.''" using of_char_eq_iff [of c "CHR ''.''", where 'a = nat] by simp
    ultimately show "\<not> is_space (of_char c)" "of_char c \<noteq> (46 :: nat)" by (auto simp: is_space_def)
  qed
  have hl: "\<not> p (hd (cps t))" "\<not> p (last (cps t))" if "t \<noteq> []" "\<forall>c \<in> set t. \<not> p (of_char c)" for t p
    using that by (auto simp: cps_def hd_map last_map)
  have pad: "\<forall>c \<in> set (cps (replicate k CHR '' '')). is_space c" for k by (auto simp: cps_def is_space_def)
  have 1: "strip_of is_space (cps (t @ replicate k CHR '' '')) = cps t"
    if "t \<noteq> []" "\<forall>c \<in> set t. \<not> is_space (of_char c)" for t k
    unfolding cps_simps(2) by (rule strip_of_pad) (use that hl [OF that] pad in simp_all)
  have 2: "strip_of is_space (cps (name_base s)) = cps ?b" "strip_of is_space (cps (name_ext s)) = cps ?x"
    unfolding v(3,4) using sp(1) v(5,6) 1 [of ?b] 1 [of ?x] by simp_all
  have "\<not> hd (cps ?b) = 46" "\<not> last (cps ?x) = 46"
    using hl(1) [of ?b "\<lambda>c. c = 46"] hl(2) [of ?x "\<lambda>c. c = 46"] sp(2) v(5,6) by auto
  then have "strip_of (\<lambda>c. c = 46) ((cps ?b @ [46] @ cps ?x) @ []) = cps ?b @ [46] @ cps ?x"
    using v(5,6) by (intro strip_of_pad) simp_all
  moreover have "cps s = cps ?b @ [46] @ cps ?x" by (subst v(1)) (simp add: cps_def)
  ultimately show ?thesis unfolding 2 by simp
qed


text \<open>Scanning the root directory gives the files back.\<close>

definition entry_of :: "(string \<rightharpoonup> nat \<times> nat) \<Rightarrow> string \<times> bytes \<Rightarrow> ustring \<times> nat \<times> nat" where
  "entry_of cl f = (cps (fst f), length (snd f), first_cluster cl (fst f) mod 65536)"

lemma entry_read:
  assumes "entry_for e name fsize cluster attrs" "name83 name"
  shows "decode (bslice 0 8 e) = Inr (cps (name_base name))" "decode (bslice 8 11 e) = Inr (cps (name_ext name))"
    "unpack_le 2 e 26 = Inr (cluster mod 65536)" "unpack_le 4 e 28 = Inr fsize"
    "bidx e 11 = Inr (of_nat attrs)" "e \<noteq> []" "hd e \<noteq> 0"
proof -
  have l: "length e = 32" and b: "bslice 0 8 e = encode (name_base name)" and x: "bslice 8 11 e = encode (name_ext name)"
    using assms(1) by (simp_all add: entry_for_def)
  note v = name83_parts [OF assms(2)]
  note n = name_parts [OF v(2)]
  show "decode (bslice 0 8 e) = Inr (cps (name_base name))" "decode (bslice 8 11 e) = Inr (cps (name_ext name))"
    unfolding b x using n by (simp_all add: decode_encode)
  show "unpack_le 2 e 26 = Inr (cluster mod 65536)" "unpack_le 4 e 28 = Inr fsize" "bidx e 11 = Inr (of_nat attrs)" "e \<noteq> []"
    using assms(1) l by (auto simp: entry_for_def unpack_le_def)
  have "hd e = hd (bslice 0 8 e)" using l by (cases e) (simp_all add: bslice_def)
  also have "\<dots> = of_nat (of_char (hd (fst (split_name name))))"
    unfolding b using n(1) v(5) by (simp add: encode_ascii v(3) hd_map)
  finally have hd: "hd e = of_nat (of_char (hd (fst (split_name name))))" .
  have "32 < (of_char (hd (fst (split_name name))) :: nat)" "(of_char (hd (fst (split_name name))) :: nat) < 128"
    using v(7) [of "hd (fst (split_name name))"] v(5) by simp_all
  then have "unat (hd e) \<noteq> 0" unfolding hd by (simp add: unat_of_nat_byte)
  then show "hd e \<noteq> 0" by (metis unat_0)
qed

lemma scan_root_files:
  assumes r: "bslice (rootl * SECTOR) (rootl * SECTOR + length rt) img = rt" "length rt = 32 * n"
    and h: "root_holds label cl fs rt" and n83: "\<forall>f \<in> set fs. name83 (fst f)" and i: "i \<le> length fs" "length fs < n"
  shows "scan_root img rootl [Suc i..<n] acc = Inr (acc @ map (entry_of cl) (drop i fs))"
  using i
proof (induction "length fs - i" arbitrary: i acc)
  have e: "bslice (rootl * SECTOR + k * 32) (rootl * SECTOR + (k + 1) * 32) img = bslice (32 * k) (32 * k + 32) rt"
    if "k < n" for k
  proof -
    have "bslice (32 * k) (32 * k + 32) (bslice (rootl * SECTOR) (rootl * SECTOR + length rt) img)
        = bslice (rootl * SECTOR + k * 32) (rootl * SECTOR + (k + 1) * 32) img"
      using that r(2) by (simp add: bslice_bslice min_def ac_simps)
    then show ?thesis unfolding r(1) by simp
  qed
  {
    case 0
    then have i: "i = length fs" by simp
    show ?case
    proof (cases "Suc i < n")
      case True
      have "bslice (32 * Suc i) (32 * Suc i + 32) rt = bslice 0 32 (bslice (32 * Suc i) (length rt) rt)"
        using True r(2) by (simp add: bslice_bslice min_def)
      also have "\<dots> = zeros 32"
      proof -
        have "32 * Suc (Suc i) \<le> 32 * n" using True by (intro mult_le_mono2) simp
        then have "32 \<le> 32 * n - 32 * Suc i" by simp
        then show ?thesis using h r(2) i by (simp add: root_holds_def min_def)
      qed
      finally have "hd (bslice (32 * Suc i) (32 * Suc i + 32) rt) = 0" by (simp add: zeros_def)
      then show ?thesis using True i e [OF True] by (simp add: upt_conv_Cons Let_def)
    qed (use i in simp)
  next
    case (Suc m)
    then have il: "i < length fs" by simp
    have s: "Suc i < n" using il Suc.prems by simp
    let ?f = "fs ! i" let ?e = "bslice (32 * Suc i) (32 * Suc i + 32) rt"
    have ef: "entry_for ?e (fst ?f) (length (snd ?f)) (first_cluster cl (fst ?f)) 0x20" and n: "name83 (fst ?f)"
      using h il n83 by (simp_all add: root_holds_def)
    note rd = entry_read [OF ef n]
    have "scan_root img rootl [Suc i..<n] acc = scan_root img rootl [Suc (Suc i)..<n] (acc @ [entry_of cl ?f])"
      using s rd e [OF s] name83_read [OF n] by (simp add: upt_conv_Cons Let_def entry_of_def)
    also have "\<dots> = Inr ((acc @ [entry_of cl ?f]) @ map (entry_of cl) (drop (Suc i) fs))"
      using Suc by (intro Suc.hyps) simp_all
    finally show ?case using il by (simp add: Cons_nth_drop_Suc [symmetric])
  }
qed


text \<open>Reading the files back: their chains end inside the table and their bytes are the payloads.\<close>

lemma read_entry_file:
  assumes p: "placed 0xFFFF (fat16_ent fat) cl f first" and at: "file_at datal img f first"
    and c: "\<And>c. 2 \<le> c \<Longrightarrow> c < first + sectors_for (length (snd f)) \<Longrightarrow> fat16 img fat_off c = Inr (fat16_ent fat c)"
    and b: "2 \<le> first" "first + sectors_for (length (snd f)) \<le> 0xFFF8"
  shows "read_entry img datal 1 fat_off (entry_of cl f) found = Inr (found(cps (fst f) \<mapsto> snd f))"
proof -
  let ?n = "sectors_for (length (snd f))" let ?l = "datal + (first - 2)"
  show ?thesis
  proof (cases "?n = 0")
    case True
    then have "snd f = []" "first_cluster cl (fst f) = 0"
      using p sectors_for_bounds(3) [of "length (snd f)"] by (simp_all add: placed_def first_cluster_def)
    then show ?thesis by (simp add: read_entry_def entry_of_def walk_chain.simps)
  next
    case False
    then have ch: "chain 0xFFFF (fat16_ent fat) first ?n" and fc: "first_cluster cl (fst f) = first"
      using p by (simp_all add: placed_def first_cluster_def Let_def)
    have m: "first mod 65536 = first" using b False by simp
    have "walk_chain img datal 1 fat_off first 0 [] = Inr ([] @ bslice (?l * SECTOR) ((?l + ?n) * SECTOR) img)"
      by (rule walk_chain_ok [OF ch b(1) False b(2)]) (use b c in auto)
    moreover have "take (length (snd f)) (bslice (?l * SECTOR) ((?l + ?n) * SECTOR) img) = snd f"
    proof -
      have "take k (bslice a d xs) = bslice a (a + k) xs" if "a + k \<le> d" for k a d and xs :: bytes
        using that by (simp add: bslice_def min_def)
      moreover have "?l * SECTOR + length (snd f) \<le> (?l + ?n) * SECTOR"
        using sectors_for_bounds(1) [of "length (snd f)"] by (simp only: add_mult_distrib add_le_cancel_left)
      ultimately show ?thesis using at unfolding file_at_def by simp
    qed
    ultimately show ?thesis by (simp add: read_entry_def entry_of_def fc m)
  qed
qed

definition files_map :: "files \<Rightarrow> ustring \<rightharpoonup> bytes" where
  "files_map fs = map_of (map (\<lambda>f. (cps (fst f), snd f)) fs)"

lemma files_map_snoc:
  "fst f \<notin> fst ` set fs \<Longrightarrow> files_map (fs @ [f]) = (files_map fs)(cps (fst f) \<mapsto> snd f)"
proof -
  assume "fst f \<notin> fst ` set fs"
  then have "cps (fst f) \<notin> cps ` fst ` set fs" by (simp add: inj_image_mem_iff inj_def)
  then have n: "files_map fs (cps (fst f)) = None"
    unfolding files_map_def map_of_eq_None_iff by (simp add: image_image)
  show ?thesis
  proof
    fix x show "files_map (fs @ [f]) x = ((files_map fs)(cps (fst f) \<mapsto> snd f)) x"
      using n by (auto simp: files_map_def map_add_def split: option.splits)
  qed
qed

lemma read_entries_files:
  assumes al: "allocated 0xFFFF (fat16_ent fat) cl fs" and d: "distinct (map fst fs)"
    and at: "\<And>xs x ys. fs = xs @ x # ys \<Longrightarrow> file_at datal img x (start_of xs)"
    and c: "\<And>c. 2 \<le> c \<Longrightarrow> c < start_of fs \<Longrightarrow> fat16 img fat_off c = Inr (fat16_ent fat c)"
    and b: "start_of fs \<le> 0xFFF8"
  shows "foldE (read_entry img datal 1 fat_off) (map (entry_of cl) fs) Map.empty = Inr (files_map fs)"
proof -
  have "foldE (read_entry img datal 1 fat_off) (map (entry_of cl) gs) Map.empty = Inr (files_map gs)"
    if "fs = gs @ hs" for gs hs
    using that
  proof (induction gs arbitrary: hs rule: rev_induct)
    case (snoc f gs)
    then have fs: "fs = gs @ f # hs" by simp
    have s: "start_of gs + sectors_for (length (snd f)) \<le> start_of fs" by (rule start_of_prefix [OF fs])
    have "read_entry img datal 1 fat_off (entry_of cl f) (files_map gs) = Inr ((files_map gs)(cps (fst f) \<mapsto> snd f))"
      by (rule read_entry_file [OF allocated_placed [OF al fs] at [OF fs]]) (use c b s in auto)
    moreover have "fst f \<notin> fst ` set gs" using d fs by auto
    ultimately show ?case using snoc.IH [OF fs] by (simp add: foldE_append files_map_snoc fun_eq_iff)
  qed (simp add: files_map_def)
  from this [of fs "[]"] show ?thesis by simp
qed


text \<open>The fields of the boot sector.\<close>

lemma take_le_bytes: "k \<le> w \<Longrightarrow> take k (le_bytes w v) = le_bytes k v"
proof (induction k arbitrary: w v)
  case (Suc k)
  then show ?case by (cases w) simp_all
qed simp

lemma bs_sub:
  "i + n \<le> 512 \<Longrightarrow> bs_fits tot lay \<Longrightarrow>
   unpack_le n (wr_all (boot_sector_writes tot lay label) (zeros 512)) i =
   Inr (le_nat (wr_read i (i + n) (rev (boot_sector_writes tot lay label)) (zeros 512)))"
  using length_wr_all [OF boot_sector_wr_ok] bslice_wr_all [OF boot_sector_wr_ok] by (simp add: unpack_le_def)

lemma bs_nth:
  "i < 512 \<Longrightarrow> bs_fits tot lay \<Longrightarrow>
   bidx (wr_all (boot_sector_writes tot lay label) (zeros 512)) i =
   Inr (hd (wr_read i (Suc i) (rev (boot_sector_writes tot lay label)) (zeros 512)))"
  using length_wr_all [OF boot_sector_wr_ok] nth_wr_all [OF boot_sector_wr_ok] by (simp add: bidx_def)

lemma boot_sector_fields:
  fixes label :: string
  assumes "bs_fits tot lay"
  defines "bs \<equiv> wr_all (boot_sector_writes tot lay label) (zeros 512)"
  shows "length bs = 512" "bslice 510 512 bs = [0x55, 0xAA]"
    "unpack_le 2 bs 11 = Inr 512" "bidx bs 13 = Inr 1" "unpack_le 2 bs 14 = Inr (reserved lay)"
    "bidx bs 16 = Inr 2" "unpack_le 2 bs 17 = Inr 224" "unpack_le 2 bs 19 = Inr 0" "bidx bs 21 = Inr 0xF8"
    "unpack_le 2 bs 22 = Inr (fat_size lay)" "unpack_le 4 bs 28 = Inr (part_lba lay)"
    "unpack_le 2 bs 32 = Inr (nat (tot - int (part_lba lay)) mod 65536)" "bidx bs 34 = Inr 0x80" "bidx bs 35 = Inr 0x01"
proof -
  have f: "reserved lay < 65536" "fat_size lay < 65536" "part_lba lay < 4294967296"
    using assms(1) by (auto simp: bs_fits_def PART_LBA_def)
  show "length bs = 512" unfolding bs_def using length_wr_all [OF boot_sector_wr_ok [OF assms(1)]] by simp
  have u: "i + n \<le> 512 \<Longrightarrow> unpack_le n bs i = Inr (le_nat (wr_read i (i + n) (rev (boot_sector_writes tot lay label)) (zeros 512)))"
    and x: "i < 512 \<Longrightarrow> bidx bs i = Inr (hd (wr_read i (Suc i) (rev (boot_sector_writes tot lay label)) (zeros 512)))" for i n
    unfolding bs_def using bs_sub [OF _ assms(1)] bs_nth [OF _ assms(1)] by simp_all
  note d = boot_sector_writes_def SECTOR_def bslice_def take_le_bytes le_nat_le_bytes
  show "bslice 510 512 bs = [0x55, 0xAA]"
    unfolding bs_def by (subst bslice_wr_all [OF boot_sector_wr_ok [OF assms(1)]]) (simp add: boot_sector_writes_def)
  show "unpack_le 2 bs 11 = Inr 512" "bidx bs 13 = Inr 1" "unpack_le 2 bs 14 = Inr (reserved lay)"
    "bidx bs 16 = Inr 2" "unpack_le 2 bs 17 = Inr 224" "unpack_le 2 bs 19 = Inr 0" "bidx bs 21 = Inr 0xF8"
    "unpack_le 2 bs 22 = Inr (fat_size lay)" "unpack_le 4 bs 28 = Inr (part_lba lay)"
    using f by (simp_all add: u x d del: le_bytes.simps)
  show "unpack_le 2 bs 32 = Inr (nat (tot - int (part_lba lay)) mod 65536)" "bidx bs 34 = Inr 0x80" "bidx bs 35 = Inr 0x01"
    by (simp_all add: u x d del: le_bytes.simps)
qed


definition names_ok :: "string \<Rightarrow> files \<Rightarrow> bool" where
  "names_ok label fs \<longleftrightarrow> ascii label \<and> CHR 0x00 \<notin> set label \<and> list_all (\<lambda>f. name83 (fst f)) fs"

lemma label_entry:
  assumes "entry_for e label 0 0 0x08" "ascii label" "CHR 0x00 \<notin> set label"
  shows "e \<noteq> []" "hd e \<noteq> 0" "bidx e 11 = Inr 8"
proof -
  have l: "length e = 32" and b: "bslice 0 8 e = encode (name_base label)" using assms(1) by (simp_all add: entry_for_def)
  show "e \<noteq> []" "bidx e 11 = Inr 8" using assms(1) l by (auto simp: entry_for_def)
  note n = name_parts [OF assms(2)]
  have ne: "name_base label \<noteq> []" using n(2) by auto
  have "hd e = hd (bslice 0 8 e)" using l by (cases e) (simp_all add: bslice_def)
  also have "\<dots> = of_nat (of_char (hd (name_base label)))" unfolding b using n(1) ne by (simp add: encode_ascii hd_map)
  finally have hd: "hd e = of_nat (of_char (hd (name_base label)))" .
  have "set (name_base label) \<subseteq> insert CHR '' '' (upper_char ` set label)"
    using image_mono [OF split_name_set(1) [of label], of upper_char] set_take_subset
    unfolding name_base_def ljust_def by fastforce
  then have "hd (name_base label) \<in> insert CHR '' '' (upper_char ` set label)" using ne hd_in_set by blast
  moreover have "(of_char c :: nat) \<noteq> 0" if "c \<in> set label" for c
    using that assms(3) of_char_eq_iff [of c "CHR 0x00", where 'a = nat] by auto
  ultimately have "(of_char (hd (name_base label)) :: nat) \<noteq> 0"
    by (auto simp: of_char_upper)
  moreover have "(of_char (hd (name_base label)) :: nat) < 128" using n(1) ne by (simp add: ascii_def)
  ultimately have "unat (hd e) \<noteq> 0" unfolding hd by (simp add: unat_of_nat_byte)
  then show "hd e \<noteq> 0" by (metis unat_0)
qed

lemma volume_reads:
  assumes v: "volume_at img tot lay fs label fat cl rt" and p: "plan16 tot lay" and f: "files_fit lay fs"
    and n: "names_ok label fs" and s: "start_of fs \<le> 0xFFF8"
  shows "scan_root img (part_lba lay + reserved lay + 2 * fat_size lay) [0..<224] [] = Inr (map (entry_of cl) fs)"
    "foldE (read_entry img (part_lba lay + reserved lay + 2 * fat_size lay + 14) 1 ((part_lba lay + reserved lay) * SECTOR))
       (map (entry_of cl) fs) Map.empty = Inr (files_map fs)"
proof -
  let ?rootl = "part_lba lay + reserved lay + 2 * fat_size lay"
  let ?fatl = "(part_lba lay + reserved lay) * SECTOR"
  have tot: "nat tot = ?rootl + 14 + nat (clusters lay)" and cov: "start_of fs \<le> 256 * fat_size lay"
    using p f unfolding plan16_def files_fit_def by auto
  have len: "length img = nat tot * SECTOR" "length fat = fat_size lay * SECTOR" "length rt = 14 * SECTOR"
    and al: "allocated 0xFFFF (fat16_ent fat) cl fs" and rh: "root_holds label cl fs rt"
    and rfat: "bslice ?fatl (?fatl + length fat) img = fat"
    and rrt: "bslice (?rootl * SECTOR) (?rootl * SECTOR + length rt) img = rt"
    using v unfolding volume_at_def by simp_all
  have at: "file_at (?rootl + 14) img x (start_of xs)" if "fs = xs @ x # ys" for xs x ys
    using v that unfolding volume_at_def by blast
  have e0: "bslice (?rootl * SECTOR) (?rootl * SECTOR + 32) img = bslice 0 32 rt"
    using len(3) by (subst rrt [symmetric]) (simp add: bslice_bslice min_def SECTOR_def)
  have "scan_root img ?rootl [0..<224] [] = scan_root img ?rootl [Suc 0..<224] []"
    using label_entry [of "bslice 0 32 rt" label] rh n e0
    by (simp add: upt_conv_Cons [of 0] Let_def root_holds_def names_ok_def)
  also have "\<dots> = Inr ([] @ map (entry_of cl) (drop 0 fs))"
    by (rule scan_root_files [OF rrt _ rh]) (use n f len in \<open>auto simp: names_ok_def list_all_iff files_fit_def SECTOR_def\<close>)
  finally show "scan_root img ?rootl [0..<224] [] = Inr (map (entry_of cl) fs)" by simp
  have "fat16 img ?fatl c = Inr (fat16_ent fat c)" if "c < start_of fs" for c
    using that cov len tot by (intro fat16_ent_read [OF rfat]) (simp_all add: SECTOR_def)
  then show "foldE (read_entry img (?rootl + 14) 1 ?fatl) (map (entry_of cl) fs) Map.empty = Inr (files_map fs)"
    using f s by (intro read_entries_files [OF al _ at]) (simp_all add: files_fit_def)
qed

lemma check_fs_ok:
  assumes v: "volume_at img tot lay fs label fat cl rt" and p: "plan16 tot lay" and f: "files_fit lay fs"
    and n: "names_ok label fs" and s: "start_of fs \<le> 0xFFF8"
    and pe: "unpack_le 4 img 0x1C6 = Inr (part_lba lay)"
    and k: "files_map fs (cps ''KERNEL.BIN'') = Some kern"
    and r: "files_map fs (cps ''README.TXT'') = Some rd" "take 4 rd = encode ''qizo''"
  shows "check_fs img kern = Inr Pass"
proof -
  let ?bs = "wr_all (boot_sector_writes tot lay label) (zeros 512)"
  have fits: "bs_fits tot lay" using p unfolding plan16_def by blast
  note bs = boot_sector_fields [OF fits, of label]
  have "bslice (part_lba lay * SECTOR) (part_lba lay * SECTOR + SECTOR) img = ?bs" "unpack_le 2 ?bs 11 = Inr SECTOR"
    "(224 * 32 + SECTOR - 1) div SECTOR = 14" "unpack_le 4 ?bs 40 = Inr (le_nat (bslice 40 44 ?bs))"
    using v bs(1,3) by (simp_all add: volume_at_def SECTOR_def unpack_le_def)
  then show ?thesis
    using bs volume_reads [OF v p f n s] k r by (simp add: check_fs_def pe)
qed

text \<open>Following a chain takes at most 100000 steps, whatever the table holds.\<close>

lemma walk_chain_bounded:
  "walk_chain img datal spc fat_off cur spins acc = Inr data \<Longrightarrow>
   length data \<le> length acc + (100000 - spins) * (spc * SECTOR)"
proof (induction img datal spc fat_off cur spins acc rule: walk_chain.induct)
  case (1 img datal spc fat_off cur spins acc)
  show ?case
  proof (cases "2 \<le> cur \<and> cur < 0xFFF8 \<and> spins < 100000")
    case True
    let ?l = "datal + (cur - 2) * spc"
    let ?acc = "acc @ bslice (?l * SECTOR) ((?l + spc) * SECTOR) img"
    obtain nxt where n: "fat16 img fat_off cur = Inr nxt" "walk_chain img datal spc fat_off nxt (spins + 1) ?acc = Inr data"
      using 1(2) True by (auto simp: walk_chain.simps [of _ _ _ _ cur] Let_def)
    have "length data \<le> length ?acc + (100000 - (spins + 1)) * (spc * SECTOR)"
      using 1(1) [OF True refl refl n(1)] n(2) by blast
    moreover have "length ?acc \<le> length acc + spc * SECTOR" by (simp add: add_mult_distrib)
    moreover have "(100000 - spins) * (spc * SECTOR) = spc * SECTOR + (100000 - (spins + 1)) * (spc * SECTOR)"
      using True by (metis Suc_diff_Suc Suc_eq_plus1 mult_Suc)
    ultimately show ?thesis by linarith
  next
    case False
    then show ?thesis using 1(2) by (simp add: walk_chain.simps [of _ _ _ _ cur] split: if_splits)
  qed
qed

text \<open>C24: the boot sector is written for volumes that end below sector 65552, but the 32-bit count of sectors it stores at 32 has its
  upper half overwritten by the drive number and the flag bytes meant for the fields behind it; for larger volumes packing the
  16-bit copy of the count raises \<open>struct.error\<close>.\<close>

theorem boot_sector_total:
  assumes "reserved lay < 65536" "fat_size lay < 65536" "int (part_lba lay) \<le> tot" "int PART_LBA \<le> tot" "tot < 2 ^ 32"
  shows "if tot < 65552
    then \<exists>bs. boot_sector tot lay label = Inr bs \<and> length bs = 512 \<and> unpack_le 4 bs 28 = Inr (part_lba lay) \<and>
           unpack_le 4 bs 32 = Inr (nat (tot - int (part_lba lay)) mod 65536 + 0x01800000)
    else boot_sector tot lay label = Inl StructError"
proof (cases "tot < 65552")
  case True
  then have fits: "bs_fits tot lay" using assms by (simp add: bs_fits_def PART_LBA_def)
  let ?bs = "wr_all (boot_sector_writes tot lay label) (zeros 512)"
  note f = boot_sector_fields [OF fits, of label]
  have "bslice 32 36 ?bs = bslice 32 34 ?bs @ [?bs ! 34, ?bs ! 35]"
    using f(1) by (simp add: bslice_def numeral_eq_Suc take_Suc_conv_app_nth)
  moreover have "?bs ! 34 = 0x80" "?bs ! 35 = 0x01" using f(1,13,14) by (simp_all add: bidx_def)
  moreover have "le_nat (bslice 32 34 ?bs) = nat (tot - int (part_lba lay)) mod 65536" using f(1,12) by (simp add: unpack_le_def)
  ultimately have "unpack_le 4 ?bs 32 = Inr (nat (tot - int (part_lba lay)) mod 65536 + 0x01800000)"
    using f(1) by (simp add: unpack_le_def le_nat_append)
  then show ?thesis using True f(1,11) boot_sector_ok [OF fits] by simp
next
  case False
  define pre post where "pre = take 17 (boot_sector_writes tot lay label)" and "post = drop 18 (boot_sector_writes tot lay label)"
  have w: "boot_sector_writes tot lay label = pre @ PackInto 2 38 (tot - int PART_LBA) # post"
    by (simp add: boot_sector_writes_def pre_def post_def)
  have "\<forall>st \<in> set pre. wr_ok (length (zeros 512)) st"
    using assms by (simp add: boot_sector_writes_def pre_def PART_LBA_def SECTOR_def)
  then have "run_writes pre (zeros 512) = Inr (wr_all pre (zeros 512))" by (rule run_writes_ok)
  moreover have "do_write (PackInto 2 38 (tot - int PART_LBA)) buf = Inl StructError" for buf
    using False by (simp add: pack_le_def PART_LBA_def)
  ultimately show ?thesis unfolding boot_sector_def w using False by (simp add: run_writes_def foldE_append del: do_write.simps)
qed

theorem boot_sector_total_witness:
  "\<exists>bs. boot_sector 4400 \<lparr>bits = 16, fat_size = 17, clusters = 4321, reserved = 1, root_sectors = 14, part_lba = 30\<rparr> ''QIZO'' = Inr bs \<and>
     unpack_le 4 bs 32 = Inr (4370 + 0x01800000)"
  using boot_sector_total [of "\<lparr>bits = 16, fat_size = 17, clusters = 4321, reserved = 1, root_sectors = 14, part_lba = 30\<rparr>" 4400 "''QIZO''"]
  by (auto simp: PART_LBA_def)

end
