(* ===== verification/Qizo_Iso.thy ===== *)
theory Qizo_Iso
  imports Qizo_CheckFs
begin

text \<open>
  The ISO 9660 writer \<^verbatim>\<open>src/tools/mkqizoiso/mkqizoiso.py\<close> (\<open>build_iso\<close>) and the checker's reader of
  the same format, \<open>check_iso\<close> of \<^verbatim>\<open>src/tools/qizocheck/qizocheck.py\<close>, with the theorem that the
  reader accepts what the writer makes. \<open>build_iso\<close> returns the bytes it writes and the values of
  the dictionary it returns.
\<close>

section \<open>The writer\<close>

definition ISO_SECTOR :: nat where "ISO_SECTOR = 2048"
definition PVD_LBA :: nat where "PVD_LBA = 16"
definition BRVD_LBA :: nat where "BRVD_LBA = 17"
definition TERM_LBA :: nat where "TERM_LBA = 18"
definition CATALOG_LBA :: nat where "CATALOG_LBA = 19"
definition ROOT_LBA :: nat where "ROOT_LBA = 20"
definition FILE_LBA :: nat where "FILE_LBA = 21"
definition FILE_NAME :: string where "FILE_NAME = ''QIZO.IMG;1''"
definition DATE :: bytes where "DATE = encode ''20260101000000000''"

definition both32 :: "int \<Rightarrow> bytes res" where
  "both32 v = bindE (pack_le 4 v) (\<lambda>l. bindE (pack_be 4 v) (\<lambda>b. Inr (l @ b)))"

definition both16 :: "int \<Rightarrow> bytes res" where
  "both16 v = bindE (pack_le 2 v) (\<lambda>l. bindE (pack_be 2 v) (\<lambda>b. Inr (l @ b)))"

text \<open>\<open>bytearray.append\<close>.\<close>

definition append_byte :: "nat \<Rightarrow> bytes \<Rightarrow> bytes res" where
  "append_byte v body =
     (if v < 256 then Inr (body @ [of_nat v]) else Inl (ValueError ''byte must be in range(0, 256)''))"

definition dir_record :: "nat \<Rightarrow> nat \<Rightarrow> nat \<Rightarrow> bytes \<Rightarrow> bytes res" where
  "dir_record lba fsize flags ident =
     bindE (both32 (int lba)) (\<lambda>l.
     bindE (both32 (int fsize)) (\<lambda>s.
     bindE (append_byte flags ([0, 0] @ l @ s @ [26, 1, 1, 0, 0, 0, 0])) (\<lambda>body.
     bindE (both16 1) (\<lambda>one.
     bindE (append_byte (length ident) (body @ [0, 0] @ one)) (\<lambda>body.
     let body = body @ ident;
         body = (if length body mod 2 \<noteq> 0 then body @ [0] else body)
     in do_write (SetByte 0 (int (length body))) body)))))"

definition text_field :: "nat \<Rightarrow> nat \<Rightarrow> string \<Rightarrow> bstmt" where
  "text_field off n val = SetSlice off (off + n) (ljust n 0x20 (take n (encode val)))"

definition pvd_writes :: "string \<Rightarrow> bytes \<Rightarrow> bytes \<Rightarrow> bytes \<Rightarrow> bytes \<Rightarrow> bytes \<Rightarrow> bytes \<Rightarrow> bstmt list" where
  "pvd_writes volume total32 one blk zero32 zero root_rec =
     [SetByte 0 1,
      SetSlice 1 6 (encode ''CD001''),
      SetByte 6 1,
      SetSlice 8 40 (ljust 32 0x20 (encode ''QIZO'')),
      SetSlice 40 72 (ljust 32 0x20 (take 32 (encode volume))),
      SetSlice 80 88 total32,
      SetSlice 120 124 one,
      SetSlice 124 128 one,
      SetSlice 128 132 blk,
      SetSlice 132 140 zero32,
      SetSlice 140 144 zero,
      SetSlice 144 148 zero,
      SetSlice 148 152 zero,
      SetSlice 152 156 zero,
      SetSlice 156 (156 + length root_rec) root_rec,
      text_field 190 128 ''QIZO'',
      text_field 318 128 ''ARENA AI AGENT MODE'',
      text_field 446 128 ''ARENA AI AGENT MODE'',
      SetByte 582 0, SetByte 619 0, SetByte 656 0,
      SetByte 693 1,
      text_field 702 32 ''QIZO MKQIZOISO'',
      text_field 734 32 ''ARENA AI AGENT MODE'',
      text_field 766 32 ''SEIGH-SWORD'',
      text_field 798 32 ''SURIEWEPEDI'',
      SetSlice 830 847 DATE, SetSlice 847 864 DATE, SetSlice 864 881 DATE, SetSlice 881 898 DATE,
      SetSlice 898 ISO_SECTOR (zeros (ISO_SECTOR - 898))]"

definition build_pvd :: "string \<Rightarrow> nat \<Rightarrow> nat \<Rightarrow> bytes res" where
  "build_pvd volume tot root_len =
     bindE (both32 (int tot)) (\<lambda>total32.
     bindE (both16 1) (\<lambda>one.
     bindE (both16 (int ISO_SECTOR)) (\<lambda>blk.
     bindE (both32 0) (\<lambda>zero32.
     bindE (pack_le 4 0) (\<lambda>zero.
     bindE (dir_record ROOT_LBA root_len 2 [0]) (\<lambda>root_rec.
     run_writes (pvd_writes volume total32 one blk zero32 zero root_rec) (zeros ISO_SECTOR)))))))"

definition brvd_writes :: "bstmt list" where
  "brvd_writes =
     [SetByte 0 0,
      SetSlice 1 6 (encode ''CD001''),
      SetByte 6 1,
      SetSlice 7 39 (ljust 32 0 (encode ''EL TORITO SPECIFICATION'')),
      PackInto 4 71 (int CATALOG_LBA)]"

definition term_writes :: "bstmt list" where
  "term_writes = [SetByte 0 255, SetSlice 1 6 (encode ''CD001''), SetByte 6 1]"

definition entry_writes :: "nat \<Rightarrow> bstmt list" where
  "entry_writes file_sectors =
     [SetByte 0 0x88,
      SetByte 1 4,
      PackInto 2 2 0x07C0,
      SetByte 4 0,
      SetByte 5 0,
      PackInto 2 6 (if file_sectors < 0xFFFF then int file_sectors else 0),
      PackInto 4 8 (int FILE_LBA),
      PackInto 4 12 0]"

definition cat_writes :: "bstmt list" where
  "cat_writes =
     [SetByte 0 0x01,
      SetByte 1 0,
      SetSlice 4 28 (ljust 24 0 (encode ''QIZO MKQIZOISO'')),
      SetByte 30 0x55,
      SetByte 31 0xAA]"

text \<open>The sum of the 16-bit words of the validation entry at the given offsets.\<close>

definition word_sum :: "bytes \<Rightarrow> nat list \<Rightarrow> nat res" where
  "word_sum cat offs = foldE (\<lambda>i acc. bindE (unpack_le 2 cat i) (\<lambda>v. Inr ((acc + v) AND 0xFFFF))) offs 0"

definition build_catalog :: "nat \<Rightarrow> bytes res" where
  "build_catalog file_sectors =
     bindE (run_writes (entry_writes file_sectors) (zeros 32)) (\<lambda>ent.
     bindE (run_writes cat_writes (zeros ISO_SECTOR)) (\<lambda>cat.
     bindE (word_sum cat (filter (\<lambda>i. i \<noteq> 28) (map (\<lambda>k. 2 * k) [0..<16]))) (\<lambda>acc.
     run_writes [PackInto 2 28 ((- int acc) AND 0xFFFF), SetSlice 32 64 ent] cat)))"

definition build_root_body :: "nat \<Rightarrow> bytes res" where
  "build_root_body image_len =
     bindE (dir_record ROOT_LBA 0 2 [0]) (\<lambda>d0.
     bindE (dir_record ROOT_LBA 0 2 [1]) (\<lambda>d1.
     bindE (dir_record FILE_LBA image_len 0 (encode FILE_NAME)) (\<lambda>d2.
     let body = d0 @ d1 @ d2 in
     Inr (body @ zeros (ISO_SECTOR - length body mod ISO_SECTOR)))))"

text \<open>The image padded to whole sectors.\<close>

definition iso_payload :: "bytes \<Rightarrow> bytes" where
  "iso_payload img =
     (if length img mod ISO_SECTOR \<noteq> 0 then img @ zeros (ISO_SECTOR - length img mod ISO_SECTOR) else img)"

record iso_info =
  i_sectors :: nat
  i_catalog :: nat
  i_root_lba :: nat
  i_file_lba :: nat
  i_file_sectors :: nat
  i_image :: nat

definition build_iso :: "bytes \<Rightarrow> string \<Rightarrow> (bytes \<times> iso_info) res" where
  "build_iso img volume =
     (let payload = iso_payload img;
          file_sectors = length payload div ISO_SECTOR in
      bindE (build_root_body (length img)) (\<lambda>root_body.
      let tot = FILE_LBA + file_sectors in
      bindE (build_pvd volume tot (length root_body)) (\<lambda>pvd.
      bindE (run_writes brvd_writes (zeros ISO_SECTOR)) (\<lambda>brvd.
      bindE (run_writes term_writes (zeros ISO_SECTOR)) (\<lambda>terminator.
      bindE (build_catalog file_sectors) (\<lambda>cat.
      let out_bytes = zeros (PVD_LBA * ISO_SECTOR) @ pvd @ brvd @ terminator @ cat @ root_body @ payload in
      bindE (foldE (\<lambda>nb u. guardE (length (snd nb) mod ISO_SECTOR \<noteq> 0)
               (SystemExit ''qizo: %s block is %d bytes, not a whole number of sectors'' [FS (fst nb), FI (int (length (snd nb)))]))
             [(''pvd'', pvd), (''brvd'', brvd), (''terminator'', terminator), (''catalog'', cat), (''root'', root_body)] ()) (\<lambda>_.
      bindE (guardE (length out_bytes \<noteq> tot * ISO_SECTOR)
              (SystemExit ''qizo: iso is %d bytes but the layout promised %d sectors'' [FI (int (length out_bytes)), FI (int tot)])) (\<lambda>_.
      Inr (out_bytes, \<lparr>i_sectors = length out_bytes div ISO_SECTOR, i_catalog = CATALOG_LBA, i_root_lba = ROOT_LBA,
                        i_file_lba = FILE_LBA, i_file_sectors = file_sectors, i_image = length img\<rparr>)))))))))"

section \<open>The reader\<close>

text \<open>What the loop over the volume descriptors has seen.\<close>

record iso_seen =
  s_root_lba :: "nat option"
  s_root_size :: "nat option"
  s_block :: "nat option"
  s_blocks :: "nat option"
  s_catalog :: "nat option"

definition read_pvd :: "bytes \<Rightarrow> iso_seen \<Rightarrow> (verdict + iso_seen) res" where
  "read_pvd rec seen =
     (if bslice 1 6 rec \<noteq> encode ''CD001'' then Inr (Inl (Fail ''primary volume descriptor id'' []))
      else
      let rt = bslice 156 (156 + 34) rec in
      bindE (if length rt < 34 then Inr True else bindE (bidx rt 0) (\<lambda>b. Inr (b \<noteq> 34))) (\<lambda>bad.
      if bad then Inr (Inl (Fail ''root directory record malformed'' []))
      else
      bindE (unpack_le 4 rt 2) (\<lambda>rl.
      bindE (unpack_le 4 rt 10) (\<lambda>rs.
      bindE (unpack_le 2 rec 128) (\<lambda>blk.
      let seen = seen\<lparr>s_root_lba := Some rl, s_root_size := Some rs, s_block := Some blk\<rparr> in
      bindE (bidx rec 693) (\<lambda>fsv.
      if fsv \<noteq> 1 then Inr (Inl (Fail ''primary volume descriptor file structure version'' []))
      else
      bindE (unpack_le 2 rec 120) (\<lambda>vss.
      if vss \<noteq> 1 then Inr (Inl (Fail ''primary volume descriptor volume set size'' []))
      else
      bindE (unpack_be 2 rec 130) (\<lambda>be.
      bindE (unpack_le 2 rec 128) (\<lambda>le.
      if be \<noteq> le then Inr (Inl (Fail ''primary volume descriptor block size is not both-endian'' []))
      else if blk \<noteq> 2048 then Inr (Inl (Fail ''logical block size %d'' [FI (int blk)]))
      else
      bindE (unpack_le 4 rec 80) (\<lambda>blocks.
      Inr (Inr (seen\<lparr>s_blocks := Some blocks\<rparr>))))))))))))"

definition read_brvd :: "bytes \<Rightarrow> iso_seen \<Rightarrow> (verdict + iso_seen) res" where
  "read_brvd rec seen =
     (if bslice 7 30 rec \<noteq> ljust 23 0 (encode ''EL TORITO SPECIFICATION'')
      then Inr (Inl (Fail ''boot record volume descriptor id'' []))
      else bindE (unpack_le 4 rec 71) (\<lambda>c. Inr (Inr (seen\<lparr>s_catalog := Some c\<rparr>))))"

function scan_descriptors :: "bytes \<Rightarrow> nat \<Rightarrow> iso_seen \<Rightarrow> (verdict + iso_seen) res" where
  "scan_descriptors cd lba seen =
     (if lba * 2048 + 2048 > length cd then Inr (Inl (Fail ''volume descriptor set runs off the end'' []))
      else
      let rec = bslice (lba * 2048) (lba * 2048 + 2048) cd in
      bindE (bidx rec 0) (\<lambda>typ.
      if typ = 255 then Inr (Inr seen)
      else
      bindE (if typ = 1 then read_pvd rec seen
             else if typ = 0 \<and> bslice 1 6 rec = encode ''CD001'' then read_brvd rec seen
             else Inr (Inr seen)) (\<lambda>r.
      case r of Inl v \<Rightarrow> Inr (Inl v) | Inr seen' \<Rightarrow> scan_descriptors cd (lba + 1) seen')))"
  by pat_completeness auto
termination by (relation "measure (\<lambda>(cd, lba, seen). length cd - lba * 2048)") auto

declare scan_descriptors.simps [simp del]

text \<open>The loop over the records of the root directory.\<close>

function find_image :: "bytes \<Rightarrow> nat \<Rightarrow> (nat \<times> nat) option \<Rightarrow> (nat \<times> nat) option res" where
  "find_image rt off found =
     (if off + 34 \<le> length rt then
        bindE (bidx rt off) (\<lambda>n.
        if n = 0 then Inr found
        else
        bindE (bidx rt (off + 32)) (\<lambda>idlen.
        let ident = bslice (off + 33) (off + 33 + unat idlen) rt in
        bindE (if take 4 ident = encode ''QIZO''
               then bindE (unpack_le 4 rt (off + 2)) (\<lambda>a. bindE (unpack_le 4 rt (off + 10)) (\<lambda>b. Inr (Some (a, b))))
               else Inr found) (\<lambda>found'.
        find_image rt (off + unat n) found')))
      else Inr found)"
  by pat_completeness auto
termination
  by (relation "measure (\<lambda>(rt, off, found). length rt - off)") (auto simp: bidx_eq_Inr unat_gt_0 intro!: diff_less_mono2)

declare find_image.simps [simp del]

definition check_catalog :: "bytes \<Rightarrow> (verdict + bytes) res" where
  "check_catalog cat =
     bindE (bidx cat 0) (\<lambda>c0.
     bindE (if c0 \<noteq> 1 then Inr True else bindE (bidx cat 1) (\<lambda>c1. Inr (c1 \<noteq> 0))) (\<lambda>bad.
     if bad then Inr (Inl (Fail ''boot catalog validation header'' []))
     else
     bindE (bidx cat 30) (\<lambda>k0.
     bindE (if k0 \<noteq> 0x55 then Inr True else bindE (bidx cat 31) (\<lambda>k1. Inr (k1 \<noteq> 0xAA))) (\<lambda>bad.
     if bad then Inr (Inl (Fail ''boot catalog key'' []))
     else
     bindE (word_sum cat (map (\<lambda>k. 2 * k) [0..<16])) (\<lambda>acc.
     if acc \<noteq> 0 then Inr (Inl (Fail ''boot catalog checksum does not cancel'' []))
     else Inr (Inr (bslice 32 64 cat)))))))"

definition check_entry :: "bytes \<Rightarrow> (verdict + nat) res" where
  "check_entry ent =
     bindE (bidx ent 0) (\<lambda>b0.
     if b0 \<noteq> 0x88 then Inr (Inl (Fail ''boot entry not bootable'' []))
     else bindE (bidx ent 1) (\<lambda>b1.
     if b1 \<noteq> 4 then Inr (Inl (Fail ''boot entry is not a hard disk image'' []))
     else bindE (unpack_le 2 ent 2) (\<lambda>seg.
     if seg \<noteq> 0x07C0 then Inr (Inl (Fail ''boot entry load segment'' []))
     else bindE (unpack_le 2 ent 6) (\<lambda>n.
     if n \<noteq> 4 \<and> n \<noteq> 0 \<and> n < 66 then Inr (Inl (Fail ''boot entry load size'' []))
     else bindE (unpack_le 4 ent 8) (\<lambda>lba. Inr (Inr lba))))))"

definition need_key :: "string \<Rightarrow> 'a option \<Rightarrow> 'a res" where
  "need_key k v = (case v of None \<Rightarrow> Inl (KeyError k) | Some x \<Rightarrow> Inr x)"

definition check_files :: "bytes \<Rightarrow> bytes \<Rightarrow> iso_seen \<Rightarrow> nat \<Rightarrow> verdict res" where
  "check_files cd img seen file_lba =
     (if file_lba * 2048 + length img > length cd then Inr (Fail ''boot image runs off the end of the iso'' [])
      else if bslice (file_lba * 2048) (file_lba * 2048 + length img) cd \<noteq> img
      then Inr (Fail ''embedded image bytes differ'' [])
      else
      bindE (need_key ''root_lba'' (s_root_lba seen)) (\<lambda>root_lba.
      bindE (need_key ''root_size'' (s_root_size seen)) (\<lambda>root_size.
      bindE (find_image (bslice (root_lba * 2048) (root_lba * 2048 + root_size) cd) 0 None) (\<lambda>found.
      Inr (case found of
             None \<Rightarrow> Fail ''QIZO.IMG missing from the root directory'' []
           | Some (a, b) \<Rightarrow>
               if a \<noteq> file_lba \<or> b \<noteq> length img
               then Fail ''root directory extent %d/%d != catalog %d/%d''
                      [FI (int a), FI (int b), FI (int file_lba), FI (int (length img))]
               else Pass)))))"

definition check_iso :: "bytes \<Rightarrow> bytes \<Rightarrow> verdict res" where
  "check_iso cd img =
     bindE (scan_descriptors cd 16
              \<lparr>s_root_lba = None, s_root_size = None, s_block = None, s_blocks = None, s_catalog = None\<rparr>) (\<lambda>r.
     case r of
       Inl v \<Rightarrow> Inr v
     | Inr seen \<Rightarrow>
         if s_block seen \<noteq> Some 2048 then Inr (Fail ''no primary volume descriptor'' [])
         else (case s_catalog seen of
           None \<Rightarrow> Inr (Fail ''no el torito boot volume descriptor'' [])
         | Some catalog \<Rightarrow>
             bindE (check_catalog (bslice (catalog * 2048) (catalog * 2048 + 2048) cd)) (\<lambda>r.
             case r of
               Inl v \<Rightarrow> Inr v
             | Inr ent \<Rightarrow>
                 bindE (check_entry ent) (\<lambda>r.
                 case r of
                   Inl v \<Rightarrow> Inr v
                 | Inr file_lba \<Rightarrow> check_files cd img seen file_lba))))"

section \<open>Directory records\<close>

lemma both_ok:
  "n < 2 ^ 32 \<Longrightarrow> both32 (int n) = Inr (le_bytes 4 n @ rev (le_bytes 4 n))"
  "n < 65536 \<Longrightarrow> both16 (int n) = Inr (le_bytes 2 n @ rev (le_bytes 2 n))"
  by (simp_all add: both32_def both16_def pack_le_def pack_be_def del: le_bytes.simps)

definition record_bytes :: "nat \<Rightarrow> nat \<Rightarrow> nat \<Rightarrow> bytes \<Rightarrow> bytes" where
  "record_bytes lba fsize flags ident =
     (let n = 33 + length ident; n' = n + n mod 2 in
      [of_nat n', 0] @ le_bytes 4 lba @ rev (le_bytes 4 lba) @ le_bytes 4 fsize @ rev (le_bytes 4 fsize) @
      [26, 1, 1, 0, 0, 0, 0, of_nat flags, 0, 0] @ le_bytes 2 1 @ rev (le_bytes 2 1) @
      [of_nat (length ident)] @ ident @ zeros (n mod 2))"

lemma dir_record_ok:
  assumes "lba < 2 ^ 32" "fsize < 2 ^ 32" "flags < 256" "length ident \<le> 220"
  shows "dir_record lba fsize flags ident = Inr (record_bytes lba fsize flags ident)"
proof -
  have b: "both32 (int lba) = Inr (le_bytes 4 lba @ rev (le_bytes 4 lba))"
    "both32 (int fsize) = Inr (le_bytes 4 fsize @ rev (le_bytes 4 fsize))"
    "both16 1 = Inr (le_bytes 2 1 @ rev (le_bytes 2 1))"
    using both_ok assms both_ok(2) [of 1] by simp_all
  show ?thesis
    using assms
    by (cases "even (length ident)")
       (simp_all add: dir_record_def b append_byte_def Let_def record_bytes_def zeros_def
          even_iff_mod_2_eq_zero odd_iff_mod_2_eq_one mod_Suc del: le_bytes.simps)
qed

lemma length_record_bytes: "length (record_bytes lba fsize flags ident) = 33 + length ident + (33 + length ident) mod 2"
  by (simp add: record_bytes_def Let_def)

lemma record_bytes_fields:
  fixes flags :: nat
  assumes "lba < 2 ^ 32" "fsize < 2 ^ 32" "length ident \<le> 220"
  defines "r \<equiv> record_bytes lba fsize flags ident"
  shows "r ! 0 = of_nat (length r)" "le_nat (bslice 2 6 r) = lba" "le_nat (bslice 10 14 r) = fsize"
    "r ! 32 = of_nat (length ident)" "bslice 33 (33 + length ident) r = ident"
proof -
  have n: "length r = 33 + length ident + (33 + length ident) mod 2" unfolding r_def by (rule length_record_bytes)
  show "r ! 0 = of_nat (length r)" unfolding n by (simp add: r_def record_bytes_def Let_def)
  show "le_nat (bslice 2 6 r) = lba" "le_nat (bslice 10 14 r) = fsize" "r ! 32 = of_nat (length ident)"
    "bslice 33 (33 + length ident) r = ident"
    using assms(1,2) by (simp_all add: r_def record_bytes_def Let_def bslice_def nth_append del: le_bytes.simps)
qed

section \<open>The descriptors\<close>

lemma nth_bidx: "i < length xs \<Longrightarrow> xs ! i = x \<Longrightarrow> bidx xs i = Inr x"
  by simp

lemma pvd_ok:
  assumes "tot < 2 ^ 32" "root_len < 2 ^ 32"
  obtains pvd where "build_pvd volume tot root_len = Inr pvd" "length pvd = 2048"
    "bidx pvd 0 = Inr 1" "bslice 1 6 pvd = encode ''CD001''"
    "bslice 156 190 pvd = record_bytes 20 root_len 2 [0]" "unpack_le 2 pvd 128 = Inr 2048" "unpack_be 2 pvd 130 = Inr 2048"
    "bidx pvd 693 = Inr 1" "unpack_le 2 pvd 120 = Inr 1" "unpack_le 4 pvd 80 = Inr tot"
proof -
  let ?r = "record_bytes 20 root_len 2 [0]"
  let ?w = "pvd_writes volume (le_bytes 4 tot @ rev (le_bytes 4 tot)) (le_bytes 2 1 @ rev (le_bytes 2 1))
     (le_bytes 2 2048 @ rev (le_bytes 2 2048)) (le_bytes 4 0 @ rev (le_bytes 4 0)) (le_bytes 4 0) ?r"
  have lr: "length ?r = 34" by (simp add: length_record_bytes)
  have ok: "\<forall>st \<in> set ?w. wr_ok (length (zeros 2048)) st"
    using lr by (simp add: pvd_writes_def text_field_def ISO_SECTOR_def DATE_def ascii_def)
  let ?pvd = "wr_all ?w (zeros 2048)"
  have b: "both32 (int tot) = Inr (le_bytes 4 tot @ rev (le_bytes 4 tot))"
    "both16 1 = Inr (le_bytes 2 1 @ rev (le_bytes 2 1))" "both16 2048 = Inr (le_bytes 2 2048 @ rev (le_bytes 2 2048))"
    "both32 0 = Inr (le_bytes 4 0 @ rev (le_bytes 4 0))" "pack_le 4 0 = Inr (le_bytes 4 0)"
    using both_ok(1) [of tot] both_ok(1) [of 0] both_ok(2) [of 1] both_ok(2) [of 2048] pack_le_int [of 0 4] assms by simp_all
  have p: "build_pvd volume tot root_len = Inr ?pvd"
    using run_writes_ok [OF ok] dir_record_ok [of 20 root_len 2 "[0]"] assms
    by (simp add: build_pvd_def b ISO_SECTOR_def ROOT_LBA_def)
  have l: "length ?pvd = 2048" using length_wr_all [OF ok] by simp
  note s = bslice_wr_all [OF ok] and d = pvd_writes_def text_field_def ISO_SECTOR_def DATE_def ascii_def
  define pvd where "pvd = ?pvd"
  have l': "length pvd = 2048" unfolding pvd_def by (rule l)
  have s': "bslice x y pvd = wr_read x y (rev ?w) (zeros 2048)" for x y unfolding pvd_def by (rule s)
  have x': "i < 2048 \<Longrightarrow> bidx pvd i = Inr (hd (wr_read i (Suc i) (rev ?w) (zeros 2048)))" for i
    unfolding pvd_def using nth_wr_all [OF ok] l by (simp add: bidx_def)
  show thesis
  proof (rule that [of pvd])
    show "build_pvd volume tot root_len = Inr pvd" unfolding pvd_def by (rule p)
    show "bslice 1 6 pvd = encode ''CD001''" "bslice 156 190 pvd = ?r"
      unfolding s' using lr by (simp_all add: d)
    show "bidx pvd 0 = Inr 1" "bidx pvd 693 = Inr 1" using lr by (simp_all add: x' d bslice_def)
    show "unpack_le 2 pvd 128 = Inr 2048" "unpack_be 2 pvd 130 = Inr 2048" "unpack_le 2 pvd 120 = Inr 1" "unpack_le 4 pvd 80 = Inr tot"
      unfolding unpack_le_def unpack_be_def s' l' using assms lr by (simp_all add: d bslice_def del: le_bytes.simps)
  qed (rule l')
qed

lemma brvd_ok:
  obtains brvd where "run_writes brvd_writes (zeros 2048) = Inr brvd" "length brvd = 2048" "bidx brvd 0 = Inr 0"
    "bslice 1 6 brvd = encode ''CD001''" "bslice 7 30 brvd = ljust 23 0 (encode ''EL TORITO SPECIFICATION'')"
    "unpack_le 4 brvd 71 = Inr 19"
proof -
  have ok: "\<forall>st \<in> set brvd_writes. wr_ok (length (zeros 2048)) st"
    by (simp add: brvd_writes_def CATALOG_LBA_def ascii_def)
  define b where "b = wr_all brvd_writes (zeros 2048)"
  have l: "length b = 2048" unfolding b_def using length_wr_all [OF ok] by simp
  have s: "bslice x y b = wr_read x y (rev brvd_writes) (zeros 2048)" for x y unfolding b_def by (rule bslice_wr_all [OF ok])
  have x: "i < 2048 \<Longrightarrow> bidx b i = Inr (hd (wr_read i (Suc i) (rev brvd_writes) (zeros 2048)))" for i
    unfolding b_def using nth_wr_all [OF ok] l [unfolded b_def] by (simp add: bidx_def)
  show thesis
  proof (rule that [of b])
    show "run_writes brvd_writes (zeros 2048) = Inr b" unfolding b_def by (rule run_writes_ok [OF ok])
    show "bidx b 0 = Inr 0" by (simp add: x brvd_writes_def ascii_def bslice_def)
    show "bslice 1 6 b = encode ''CD001''" "bslice 7 30 b = ljust 23 0 (encode ''EL TORITO SPECIFICATION'')"
      unfolding s by (simp_all add: brvd_writes_def ascii_def) (simp add: bslice_def ljust_def ascii_def)
    show "unpack_le 4 b 71 = Inr 19"
      unfolding unpack_le_def s l by (simp add: brvd_writes_def CATALOG_LBA_def del: le_bytes.simps)
  qed (rule l)
qed

lemma term_ok:
  obtains t where "run_writes term_writes (zeros 2048) = Inr t" "length t = 2048" "bidx t 0 = Inr 255"
proof -
  have ok: "\<forall>st \<in> set term_writes. wr_ok (length (zeros 2048)) st" by (simp add: term_writes_def ascii_def)
  have "wr_all term_writes (zeros 2048) ! 0 = 255"
    by (subst nth_wr_all [OF ok]) (simp_all add: term_writes_def ascii_def bslice_def)
  then show thesis using that [OF run_writes_ok [OF ok]] length_wr_all [OF ok] by simp
qed

section \<open>The boot catalog\<close>

definition validation :: bytes where
  "validation = [1, 0, 0, 0] @ ljust 24 0 (encode ''QIZO MKQIZOISO'') @ [0, 0, 0x55, 0xAA]"

lemma replicate_2: "replicate 2 x = [x, x]"
  by (simp add: numeral_2_eq_2)

lemma le_bytes_2: "le_bytes 2 v = [of_nat v, of_nat (v div 256)]"
  by (simp add: numeral_2_eq_2)

lemma cat_writes_ok: "run_writes cat_writes (zeros 2048) = Inr (validation @ zeros 2016)"
proof -
  have ok: "\<forall>st \<in> set cat_writes. wr_ok (length (zeros 2048)) st" by (simp add: cat_writes_def ascii_def)
  have "wr_all cat_writes (zeros 2048) = validation @ zeros 2016"
    by (simp add: cat_writes_def blit_def bslice_set_def zeros_def validation_def ljust_def encode_def encode_char_def replicate_2)
  then show ?thesis using run_writes_ok [OF ok] by simp
qed

lemma word_sum_prefix:
  "\<forall>i \<in> set offs. i + 2 \<le> length v \<Longrightarrow> word_sum (v @ r) offs = word_sum v offs"
proof -
  assume o: "\<forall>i \<in> set offs. i + 2 \<le> length v"
  have "foldE (\<lambda>i acc. bindE (unpack_le 2 (v @ r) i) (\<lambda>w. Inr ((acc + w) AND 0xFFFF))) offs a =
        foldE (\<lambda>i acc. bindE (unpack_le 2 v i) (\<lambda>w. Inr ((acc + w) AND 0xFFFF))) offs a" for a
    using o by (induction offs arbitrary: a) (auto simp: unpack_le_def)
  then show ?thesis by (simp add: word_sum_def)
qed

lemma offs_eq: "map (\<lambda>k. 2 * k) [0..<16] = [0, 2, 4, 6, 8, 10, 12, 14, 16, 18, 20, 22, 24, 26, 28, 30 :: nat]"
  by (simp add: upt_rec)

lemma validation_sum:
  "word_sum validation (filter (\<lambda>i. i \<noteq> 28) (map (\<lambda>k. 2 * k) [0..<16])) = Inr 54359"
  unfolding offs_eq
  by (simp add: word_sum_def validation_def ljust_def encode_def encode_char_def unpack_le_def bslice_def replicate_2)

lemma sealed_sum: "word_sum (blit 28 (le_bytes 2 11177) validation) (map (\<lambda>k. 2 * k) [0..<16]) = Inr 0"
  unfolding offs_eq
  by (simp add: word_sum_def validation_def ljust_def encode_def encode_char_def unpack_le_def bslice_def replicate_2
        blit_def bslice_set_def le_bytes_2)

lemma length_validation: "length validation = 32"
  by (simp add: validation_def ascii_def)

text \<open>The catalog sector: the validation entry with its word sum cancelled, then the boot entry.\<close>

lemma entry_ok:
  obtains ent where "run_writes (entry_writes file_sectors) (zeros 32) = Inr ent" "length ent = 32" "bidx ent 0 = Inr 0x88"
    "bidx ent 1 = Inr 4" "unpack_le 2 ent 2 = Inr 0x07C0"
    "unpack_le 2 ent 6 = Inr (if file_sectors < 0xFFFF then file_sectors else 0)" "unpack_le 4 ent 8 = Inr 21"
proof -
  let ?w = "entry_writes file_sectors"
  have ok: "\<forall>st \<in> set ?w. wr_ok (length (zeros 32)) st" by (simp add: entry_writes_def FILE_LBA_def)
  define b where "b = wr_all ?w (zeros 32)"
  have l: "length b = 32" unfolding b_def using length_wr_all [OF ok] by simp
  have s: "bslice x y b = wr_read x y (rev ?w) (zeros 32)" for x y unfolding b_def by (rule bslice_wr_all [OF ok])
  have x: "i < 32 \<Longrightarrow> bidx b i = Inr (hd (wr_read i (Suc i) (rev ?w) (zeros 32)))" for i
    unfolding b_def using nth_wr_all [OF ok] l [unfolded b_def] by (simp add: bidx_def)
  show thesis
  proof (rule that [of b])
    show "run_writes ?w (zeros 32) = Inr b" unfolding b_def by (rule run_writes_ok [OF ok])
    show "bidx b 0 = Inr 0x88" "bidx b 1 = Inr 4" by (simp_all add: x entry_writes_def bslice_def)
    show "unpack_le 2 b 2 = Inr 0x07C0" "unpack_le 2 b 6 = Inr (if file_sectors < 0xFFFF then file_sectors else 0)"
      "unpack_le 4 b 8 = Inr 21"
      unfolding unpack_le_def s l by (simp_all add: entry_writes_def FILE_LBA_def del: le_bytes.simps)
  qed (rule l)
qed

lemma catalog_ok:
  obtains cat ent where "build_catalog file_sectors = Inr cat" "length cat = 2048" "check_catalog cat = Inr (Inr ent)"
    "bidx ent 0 = Inr 0x88" "bidx ent 1 = Inr 4" "unpack_le 2 ent 2 = Inr 0x07C0"
    "unpack_le 2 ent 6 = Inr (if file_sectors < 0xFFFF then file_sectors else 0)" "unpack_le 4 ent 8 = Inr 21"
proof -
  obtain ent where e: "run_writes (entry_writes file_sectors) (zeros 32) = Inr ent" "length ent = 32"
    and f: "bidx ent 0 = Inr 0x88" "bidx ent 1 = Inr 4" "unpack_le 2 ent 2 = Inr 0x07C0"
    "unpack_le 2 ent 6 = Inr (if file_sectors < 0xFFFF then file_sectors else 0)" "unpack_le 4 ent 8 = Inr 21"
    using entry_ok by metis
  let ?v = "blit 28 (le_bytes 2 11177) validation"
  let ?cat = "?v @ ent @ zeros 1984"
  have lv: "length ?v = 32" using length_validation by simp
  have sum: "word_sum (validation @ zeros 2016) (filter (\<lambda>i. i \<noteq> 28) (map (\<lambda>k. 2 * k) [0..<16])) = Inr 54359"
    unfolding validation_sum [symmetric] by (rule word_sum_prefix) (auto simp: length_validation)
  have neg: "(- int 54359) AND 0xFFFF = 11177" by simp
  have "run_writes [PackInto 2 28 ((- int 54359) AND 0xFFFF), SetSlice 32 64 ent] (validation @ zeros 2016) = Inr ?cat"
    unfolding neg using e(2) length_validation
    by (simp add: run_writes_def pack_le_def blit_def bslice_set_def zeros_def del: le_bytes.simps)
  then have "build_catalog file_sectors = Inr ?cat"
    by (simp add: build_catalog_def e(1) ISO_SECTOR_def cat_writes_ok sum del: of_nat_numeral)
  moreover have "check_catalog ?cat = Inr (Inr ent)"
  proof -
    have w: "word_sum ?cat (map (\<lambda>k. 2 * k) [0..<16]) = Inr 0"
      unfolding sealed_sum [symmetric] by (rule word_sum_prefix) (auto simp: lv)
    have "?v ! 0 = 1" "?v ! 1 = 0" "?v ! 30 = 0x55" "?v ! 31 = 0xAA"
      by (simp_all add: validation_def blit_def bslice_set_def ljust_def encode_def encode_char_def nth_append le_bytes_2)
    then have "bidx ?cat 0 = Inr 1" "bidx ?cat 1 = Inr 0" "bidx ?cat 30 = Inr 0x55" "bidx ?cat 31 = Inr 0xAA"
      using lv by (simp_all add: bidx_def nth_append)
    moreover have "bslice 32 64 ?cat = ent" using lv e(2) by (simp add: bslice_append_right)
    ultimately show ?thesis using w by (simp add: check_catalog_def)
  qed
  ultimately show thesis using that f lv e(2) by simp
qed

section \<open>The root directory\<close>

text \<open>One step of the search over the records.\<close>

lemma find_image_step:
  fixes flags :: nat
  assumes "lba < 2 ^ 32" "fsize < 2 ^ 32" "0 < length ident" "length ident \<le> 220"
  defines "r \<equiv> record_bytes lba fsize flags ident"
  shows "find_image (pre @ r @ post) (length pre) found =
     find_image (pre @ r @ post) (length pre + length r) (if take 4 ident = encode ''QIZO'' then Some (lba, fsize) else found)"
proof -
  let ?t = "pre @ r @ post"
  note f = record_bytes_fields [OF assms(1,2,4), of flags, folded r_def]
  have l: "length r = 33 + length ident + (33 + length ident) mod 2" unfolding r_def by (rule length_record_bytes)
  have l34: "34 \<le> length r" "length r < 256" using assms(3,4) unfolding l by presburger+
  have g: "bslice (length pre + a) (length pre + b) ?t = bslice a b r" if "b \<le> length r" for a b
    using that by (cases "a \<le> b") (simp_all add: bslice_append_right)
  have x: "bidx ?t (length pre) = Inr (of_nat (length r))" "bidx ?t (length pre + 32) = Inr (of_nat (length ident))"
  proof -
    have "r \<noteq> []" using l34 by auto
    then show "bidx ?t (length pre) = Inr (of_nat (length r))" "bidx ?t (length pre + 32) = Inr (of_nat (length ident))"
      using f(1,4) l34 by (simp_all add: bidx_def nth_append)
  qed
  have u: "unat (of_nat (length r) :: byte) = length r" "unat (of_nat (length ident) :: byte) = length ident"
    "(of_nat (length r) :: byte) \<noteq> 0"
  proof -
    show "unat (of_nat (length r) :: byte) = length r" "unat (of_nat (length ident) :: byte) = length ident"
      using l34 assms(4) by (simp_all add: unat_of_nat_byte)
    then show "(of_nat (length r) :: byte) \<noteq> 0" using l34 by (metis unat_0 not_numeral_le_zero)
  qed
  have "unpack_le 4 ?t (length pre + 2) = Inr lba" "unpack_le 4 ?t (length pre + 10) = Inr fsize"
    using f(2,3) g [of 6 2] g [of 14 10] l34 by (simp_all add: unpack_le_def add.commute)
  moreover have "bslice (length pre + 33) (length pre + 33 + length ident) ?t = ident"
    using f(5) g [of "33 + length ident" 33] l by (simp add: add.assoc)
  ultimately show ?thesis
    using x u l34 by (subst find_image.simps) simp
qed

lemma find_image_end:
  "find_image (pre @ zeros n) (length pre) found = Inr found"
  by (subst find_image.simps) (simp add: bidx_def nth_append zeros_def)

definition root_bytes :: "nat \<Rightarrow> bytes" where
  "root_bytes n = record_bytes 20 0 2 [0] @ record_bytes 20 0 2 [1] @ record_bytes 21 n 0 (encode FILE_NAME) @ zeros 1936"

lemma root_body_ok:
  assumes "n < 2 ^ 32"
  shows "build_root_body n = Inr (root_bytes n)" "length (root_bytes n) = 2048"
    "find_image (root_bytes n) 0 None = Inr (Some (21, n))"
proof -
  let ?a = "record_bytes 20 0 2 [0]" let ?b = "record_bytes 20 0 2 [1]" let ?c = "record_bytes 21 n 0 (encode FILE_NAME)"
  have i: "length (encode FILE_NAME) = 10" "take 4 (encode FILE_NAME) = encode ''QIZO''"
    "take 4 [0 :: byte] \<noteq> encode ''QIZO''" "take 4 [1 :: byte] \<noteq> encode ''QIZO''"
    by (simp_all add: FILE_NAME_def encode_def encode_char_def)
  have l: "length ?a = 34" "length ?b = 34" "length ?c = 44" by (simp_all add: length_record_bytes i)
  show "build_root_body n = Inr (root_bytes n)"
    using l i assms by (simp add: build_root_body_def ROOT_LBA_def FILE_LBA_def dir_record_ok root_bytes_def ISO_SECTOR_def)
  show "length (root_bytes n) = 2048" using l by (simp add: root_bytes_def)
  have "find_image (root_bytes n) 0 None = find_image (root_bytes n) 34 None"
    using find_image_step [of 20 0 "[0]" "[]" 2 "?b @ ?c @ zeros 1936" None] l i by (simp add: root_bytes_def)
  also have "\<dots> = find_image (root_bytes n) 68 None"
    using find_image_step [of 20 0 "[1]" ?a 2 "?c @ zeros 1936" None] l i by (simp add: root_bytes_def)
  also have "\<dots> = find_image (root_bytes n) 112 (Some (21, n))"
    using find_image_step [of 21 n "encode FILE_NAME" "?a @ ?b" 0 "zeros 1936" None] l i assms by (simp add: root_bytes_def)
  also have "\<dots> = Inr (Some (21, n))"
    using find_image_end [of "?a @ ?b @ ?c" 1936 "Some (21, n)"] l by (simp add: root_bytes_def)
  finally show "find_image (root_bytes n) 0 None = Inr (Some (21, n))" .
qed

section \<open>The whole disc\<close>

lemma iso_payload_facts:
  "length (iso_payload img) = (length img + 2047) div 2048 * 2048" "take (length img) (iso_payload img) = img"
proof -
  define q m where "q = length img div 2048" and "m = length img mod 2048"
  have l: "length img = q * 2048 + m" "m < 2048" by (simp_all add: q_def m_def)
  have "(q * 2048 + m + 2047) div 2048 = q + (m + 2047) div 2048" by simp
  moreover have "(m + 2047) div 2048 = (if m = 0 then 0 else 1)" using l(2) by (simp add: div_nat_eqI)
  ultimately have "(length img + 2047) div 2048 = (if m = 0 then q else q + 1)" unfolding l(1) by simp
  then show "length (iso_payload img) = (length img + 2047) div 2048 * 2048"
    using l by (simp add: iso_payload_def ISO_SECTOR_def m_def [symmetric])
qed (simp add: iso_payload_def)

lemma build_iso_ok:
  assumes "length img < 2 ^ 32"
  obtains cd info where "build_iso img volume = Inr (cd, info)"
    "check_iso cd img =
       Inr (if (length img + 2047) div 2048 \<noteq> 4 \<and> (length img + 2047) div 2048 \<noteq> 0 \<and> (length img + 2047) div 2048 < 66
            then Fail ''boot entry load size'' [] else Pass)"
    "length cd = (21 + (length img + 2047) div 2048) * 2048"
proof -
  let ?fs = "(length img + 2047) div 2048" let ?pl = "iso_payload img" let ?rt = "root_bytes (length img)"
  note pl = iso_payload_facts [of img] and rt = root_body_ok [OF assms]
  have fs: "length ?pl div 2048 = ?fs" unfolding pl by simp
  have "?fs < 2 ^ 22" using assms by simp
  then obtain pvd where pvd: "build_pvd volume (21 + ?fs) (length ?rt) = Inr pvd" "length pvd = 2048"
    "bidx pvd 0 = Inr 1" "bslice 1 6 pvd = encode ''CD001''"
    "bslice 156 190 pvd = record_bytes 20 (length ?rt) 2 [0]" "unpack_le 2 pvd 128 = Inr 2048" "unpack_be 2 pvd 130 = Inr 2048"
    "bidx pvd 693 = Inr 1" "unpack_le 2 pvd 120 = Inr 1" "unpack_le 4 pvd 80 = Inr (21 + ?fs)"
    using pvd_ok [of "21 + ?fs" "length ?rt" volume] rt(2) by auto
  obtain brvd where brvd: "run_writes brvd_writes (zeros 2048) = Inr brvd" "length brvd = 2048" "bidx brvd 0 = Inr 0"
    "bslice 1 6 brvd = encode ''CD001''" "bslice 7 30 brvd = ljust 23 0 (encode ''EL TORITO SPECIFICATION'')"
    "unpack_le 4 brvd 71 = Inr 19" using brvd_ok by metis
  obtain tm where tm: "run_writes term_writes (zeros 2048) = Inr tm" "length tm = 2048" "bidx tm 0 = Inr 255"
    using term_ok by metis
  obtain cat ent where cat: "build_catalog ?fs = Inr cat" "length cat = 2048" "check_catalog cat = Inr (Inr ent)"
    "bidx ent 0 = Inr 0x88" "bidx ent 1 = Inr 4" "unpack_le 2 ent 2 = Inr 0x07C0"
    "unpack_le 2 ent 6 = Inr (if ?fs < 0xFFFF then ?fs else 0)" "unpack_le 4 ent 8 = Inr 21" using catalog_ok by metis
  define cd where "cd = zeros 32768 @ pvd @ brvd @ tm @ cat @ ?rt @ ?pl"
  have lcd: "length cd = (21 + ?fs) * 2048" unfolding cd_def using pvd(2) brvd(2) tm(2) cat(2) rt(2) pl(1) by simp
  obtain info where b: "build_iso img volume = Inr (cd, info)"
    using pvd(1,2) brvd(1,2) tm(1,2) cat(1,2) rt(1,2) lcd [unfolded cd_def] fs
    by (simp add: build_iso_def ISO_SECTOR_def PVD_LBA_def FILE_LBA_def Let_def cd_def)
  note len = pvd(2) brvd(2) tm(2) cat(2) rt(2)
  have sl: "bslice 32768 34816 cd = pvd" "bslice 34816 36864 cd = brvd" "bslice 36864 38912 cd = tm"
    "bslice 38912 40960 cd = cat" "bslice 40960 43008 cd = ?rt" "bslice 43008 (43008 + length img) cd = img"
    unfolding cd_def using len pl(2) by (simp_all add: bslice_append_right bslice_def)
  let ?s0 = "\<lparr>s_root_lba = None, s_root_size = None, s_block = None, s_blocks = None, s_catalog = None\<rparr>"
  let ?s1 = "\<lparr>s_root_lba = Some 20, s_root_size = Some 2048, s_block = Some 2048, s_blocks = Some (21 + ?fs), s_catalog = None\<rparr>"
  have rp: "read_pvd pvd ?s0 = Inr (Inr ?s1)"
  proof -
    let ?r = "record_bytes 20 2048 2 [0]"
    have "length ?r = 34" by (simp add: length_record_bytes)
    then have "bidx ?r 0 = Inr 34" "unpack_le 4 ?r 2 = Inr 20" "unpack_le 4 ?r 10 = Inr 2048" "length ?r = 34"
      using record_bytes_fields [of 20 2048 "[0]" 2] by (simp_all add: unpack_le_def)
    then show ?thesis using pvd(4-10) rt(2) by (simp add: read_pvd_def)
  qed
  have rb: "read_brvd brvd ?s1 = Inr (Inr (?s1\<lparr>s_catalog := Some 19\<rparr>))"
    using brvd by (simp add: read_brvd_def)
  have scan: "scan_descriptors cd 16 ?s0 = Inr (Inr (?s1\<lparr>s_catalog := Some 19\<rparr>))"
    using pvd(3) brvd(3,4) tm(3) sl lcd rp rb
    by (simp add: scan_descriptors.simps [of _ 16] scan_descriptors.simps [of _ 17] scan_descriptors.simps [of _ 18])
  have files: "check_files cd img (?s1\<lparr>s_catalog := Some 19\<rparr>) 21 = Inr Pass"
    using sl lcd rt(3) pl by (simp add: check_files_def need_key_def)
  have "check_iso cd img = Inr (if ?fs \<noteq> 4 \<and> ?fs \<noteq> 0 \<and> ?fs < 66 then Fail ''boot entry load size'' [] else Pass)"
    using scan sl(4) cat files by (simp add: check_iso_def check_entry_def)
  then show thesis using that b lcd by blast
qed

lemma build_iso_sectors: "build_iso img volume = Inr (cd, info) \<Longrightarrow> i_sectors info = length cd div ISO_SECTOR"
  by (auto simp: build_iso_def Let_def)

section \<open>Properties\<close>

text \<open>C6: the writer succeeds on every image below 4 GiB, the disc has exactly the promised number of
  sectors, and the reader accepts it, unless the image occupies 1 to 3 or 5 to 65 ISO sectors,
  which the reader refuses as a wrong boot load size.\<close>

theorem build_iso_checked:
  assumes "length img < 2 ^ 32"
  shows "\<exists>cd info. build_iso img volume = Inr (cd, info) \<and>
    length cd = (FILE_LBA + (length img + 2047) div 2048) * ISO_SECTOR \<and> i_sectors info * ISO_SECTOR = length cd \<and>
    check_iso cd img =
      Inr (if (length img + 2047) div 2048 \<noteq> 4 \<and> (length img + 2047) div 2048 \<noteq> 0 \<and> (length img + 2047) div 2048 < 66
           then Fail ''boot entry load size'' [] else Pass)"
proof -
  obtain cd info where c: "build_iso img volume = Inr (cd, info)"
    "check_iso cd img =
       Inr (if (length img + 2047) div 2048 \<noteq> 4 \<and> (length img + 2047) div 2048 \<noteq> 0 \<and> (length img + 2047) div 2048 < 66
            then Fail ''boot entry load size'' [] else Pass)"
    "length cd = (21 + (length img + 2047) div 2048) * 2048"
    using build_iso_ok [OF assms] by blast
  then have "i_sectors info * ISO_SECTOR = length cd" by (simp add: build_iso_sectors [OF c(1)] ISO_SECTOR_def)
  with c show ?thesis unfolding FILE_LBA_def ISO_SECTOR_def by blast
qed

theorem build_iso_checked_witness:
  "\<exists>cd info. build_iso (zeros 8192) ''QIZO'' = Inr (cd, info) \<and> length cd = 25 * ISO_SECTOR \<and>
     check_iso cd (zeros 8192) = Inr Pass"
  using build_iso_checked [of "zeros 8192" "''QIZO''"] by (auto simp: FILE_LBA_def)

end
