(* ===== verification/Qizo_Check.thy ===== *)
theory Qizo_Check
  imports Qizo_Iso
begin

text \<open>
  The image checker \<^verbatim>\<open>src/tools/qizocheck/qizocheck.py\<close>: the stage1 disk address packet, the stage2
  descriptor table and mode switch, and the whole command (\<open>check\<close>, the body of \<open>main\<close>), which also
  calls \<open>check_fs\<close> and \<open>check_iso\<close>. The outputs of \<open>objdump\<close> and \<open>nm\<close> are arguments, \<open>None\<close> when
  \<open>objdump\<close> is not installed; text is over code points below 256.
\<close>

section \<open>Definitions\<close>

subsection \<open>Sequencing of checks\<close>

text \<open>\<open>if c: return fail(m)\<close> and \<open>rc = f(...); if rc: return rc\<close>.\<close>

definition failV :: "bool \<Rightarrow> string \<Rightarrow> farg list \<Rightarrow> verdict res \<Rightarrow> verdict res" where
  "failV c m as k = (if c then Inr (Fail m as) else k)"

definition seqV :: "verdict res \<Rightarrow> verdict res \<Rightarrow> verdict res" where
  "seqV v k = bindE v (\<lambda>x. case x of Pass \<Rightarrow> k | Fail m as \<Rightarrow> Inr (Fail m as))"

subsection \<open>The disk address packet\<close>

text \<open>\<open>s.rsplit(c, 1)[-1]\<close>, \<open>s.replace(old, new)\<close>, \<open>p in s\<close> and \<open>"%x" % n\<close>.\<close>

definition after_last :: "char \<Rightarrow> string \<Rightarrow> string" where
  "after_last c s = rev (takeWhile (\<lambda>x. x \<noteq> c) (rev s))"

fun replace_str :: "string \<Rightarrow> string \<Rightarrow> string \<Rightarrow> string" where
  "replace_str old new [] = []"
| "replace_str old new (c # s) =
     (if take (length old) (c # s) = old then new @ replace_str old new (drop (length old - 1) s)
      else c # replace_str old new s)"

fun contains :: "'a list \<Rightarrow> 'a list \<Rightarrow> bool" where
  "contains p [] = (p = [])"
| "contains p (x # xs) = (take (length p) (x # xs) = p \<or> contains p xs)"

fun hex :: "nat \<Rightarrow> string" where
  "hex n = (if n < 16 then [''0123456789abcdef'' ! n] else hex (n div 16) @ [''0123456789abcdef'' ! (n mod 16)])"

declare hex.simps [simp del]

definition mov_dest :: "string \<Rightarrow> int option" where
  "mov_dest line0 =
     (let line = strip_ws line0 in
      if line = [] \<or> CHR 0x09 \<notin> set line then None
      else
        let text = after_last CHR 0x09 line in
        if take 3 text \<noteq> ''mov'' then None
        else
          let tail = strip_ws (after_last CHR '','' text) in
          if take 2 tail \<noteq> ''0x'' then None else py_int16 tail)"

definition dap_missing :: "int \<Rightarrow> int list \<Rightarrow> int option" where
  "dap_missing dap dests = find (\<lambda>off. dap + off \<notin> set dests) [0, 2, 4, 6, 8, 12]"

definition check_stage1_dap :: "string option \<Rightarrow> verdict res" where
  "check_stage1_dap objdump =
     bindE (g ''QIZO_DAP_ADDR'') (\<lambda>dap.
     failV (dap mod 16 \<noteq> 0) ''stage1 disk address packet at %x is not paragraph aligned'' [FI dap]
     (case objdump of
        None \<Rightarrow> Inr Pass
      | Some out \<Rightarrow>
          let dests = List.map_filter mov_dest (splitlines out);
              flat = replace_str ''0x07e00'' ''0x7e00'' (replace_str '', '' '','' out)
          in
          case dap_missing dap dests of
            Some off \<Rightarrow> Inr (Fail ''stage1 never writes disk address packet field +%d'' [FI off])
          | None \<Rightarrow>
              failV (dap + 10 \<in> set dests)
                ''stage1 writes the lba high half at +10, seabios reads struct int13ext_s lba at +8'' []
              (failV (\<not> contains (''$0x'' @ hex (nat dap) @ '',%bx'') flat)
                ''stage1 must hand the disk address packet to INT 13h in es:bx'' []
              (failV (\<not> contains (''$0x'' @ hex (nat dap) @ '',%si'') flat)
                ''stage1 must also put the packet in ds:si, which is where seabios reads it'' []
              (failV (\<not> contains ''int'' out \<or> \<not> contains ''$0x13'' out) ''stage1 has no int $0x13'' []
              (Inr Pass))))))"

subsection \<open>The descriptor table of stage2\<close>

record desc =
  d_limit :: nat
  d_base :: nat
  d_access :: nat
  d_flags :: nat
  d_g :: nat
  d_d :: nat
  d_l :: nat

definition decode_desc :: "bytes \<Rightarrow> desc" where
  "decode_desc b =
     (let q = le_nat b in
      \<lparr>d_limit = (q AND 0xFFFF) OR (drop_bit 32 q AND 0xF0000),
       d_base = (drop_bit 16 q AND 0xFFFFFF) OR push_bit 24 (drop_bit 56 q AND 0xFF),
       d_access = drop_bit 40 q AND 0xFF, d_flags = drop_bit 48 q AND 0xFF,
       d_g = drop_bit 55 q AND 1, d_d = drop_bit 54 q AND 1, d_l = drop_bit 53 q AND 1\<rparr>)"

fun find_gdtr :: "bytes \<Rightarrow> nat list \<Rightarrow> nat option res" where
  "find_gdtr data [] = Inr None"
| "find_gdtr data (i # is) =
     bindE (unpack_le 2 data i) (\<lambda>lim.
     if lim \<noteq> 55 then find_gdtr data is
     else bindE (unpack_le 4 data (i + 2)) (\<lambda>base.
       if 0x20000 < base \<and> base < 0x21000 then Inr (Some base) else find_gdtr data is))"

text \<open>The wanted selectors in ascending order: access byte, base, granularity and long-mode bit.\<close>

definition gdt_want :: "(nat \<times> nat \<times> nat \<times> nat \<times> nat) list" where
  "gdt_want = [(0x08, 0x9A, 0, 1, 0), (0x10, 0x92, 0, 1, 0), (0x18, 0x9A, 0x20000, 0, 0),
               (0x28, 0x9A, 0, 1, 1), (0x30, 0x92, 0, 1, 0)]"

fun check_sels :: "bytes \<Rightarrow> nat \<Rightarrow> (nat \<times> nat \<times> nat \<times> nat \<times> nat) list \<Rightarrow> verdict" where
  "check_sels data off [] = Pass"
| "check_sels data off ((sel, access, base, gr, lm) # rest) =
     (let d = decode_desc (bslice (off + sel) (off + sel + 8) data) in
      if d_access d \<noteq> access
      then Fail ''stage2 gdt selector 0x%02x has access byte 0x%02x, expected 0x%02x''
             [FI (int sel), FI (int (d_access d)), FI (int access)]
      else if d_base d \<noteq> base
      then Fail ''stage2 gdt selector 0x%02x has base 0x%x, expected 0x%x: base 16:23 occupies byte 4, not the access field''
             [FI (int sel), FI (int (d_base d)), FI (int base)]
      else if d_g d \<noteq> gr \<or> d_l d \<noteq> lm
      then Fail ''stage2 gdt selector 0x%02x has the wrong granularity or mode bits'' [FI (int sel)]
      else if d_access d AND 0x80 = 0 \<or> d_access d AND 0x10 = 0
      then Fail ''stage2 gdt selector 0x%02x is not a present code or data descriptor'' [FI (int sel)]
      else check_sels data off rest)"

definition check_stage2_gdt :: "bytes \<Rightarrow> verdict res" where
  "check_stage2_gdt data =
     bindE (find_gdtr data [0..<length data - 6]) (\<lambda>r.
     case r of
       None \<Rightarrow> Inr (Fail ''stage2 has no gdtr pseudo descriptor pointing inside the load area'' [])
     | Some gdtr \<Rightarrow> Inr (check_sels data (gdtr - 0x20000) gdt_want))"

subsection \<open>The mode switch of stage2\<close>

text \<open>\<open>data.find(p)\<close> and \<open>data.rfind(p, 0, stop)\<close>; \<open>None\<close> is \<open>-1\<close>.\<close>

definition occurs_at :: "bytes \<Rightarrow> bytes \<Rightarrow> nat \<Rightarrow> bool" where
  "occurs_at p data i \<longleftrightarrow> bslice i (i + length p) data = p"

definition bfind :: "bytes \<Rightarrow> bytes \<Rightarrow> nat option" where
  "bfind p data = find (occurs_at p data) [0..<length data + 1 - length p]"

definition brfind :: "bytes \<Rightarrow> bytes \<Rightarrow> nat \<Rightarrow> nat option" where
  "brfind p data stop = find (occurs_at p data) (rev [0..<min stop (length data) + 1 - length p])"

definition check_stage2_transition :: "bytes \<Rightarrow> verdict" where
  "check_stage2_transition data =
     (if contains [0x66, 0x0F, 0x01] data
      then Fail ''stage2 descriptor table load carries a 66 prefix, which selects the 10 byte pseudo descriptor that 16 bit mode cannot use'' []
      else if \<not> contains [0x0F, 0x01, 0x17] data
      then Fail ''stage2 has no 6 byte lgdt of the real mode form'' []
      else case bfind [0x0F, 0x22, 0xC0] data of
        None \<Rightarrow> Fail ''stage2 never writes cr0, so it cannot enable protected mode'' []
      | Some store \<Rightarrow>
          (case brfind [0x0F, 0x20, 0xC0] data store of
             None \<Rightarrow> Fail ''stage2 writes cr0 without reading it first'' []
           | Some rd \<Rightarrow>
               let live = bslice (rd + 3) store data in
               case find (\<lambda>bw. fst bw \<in> set live) [(0xE8, ''a call''), (0xB0, ''a movb into al''), (0xB2, ''a movb into dl'')] of
                 Some bw \<Rightarrow> Fail ''stage2 puts %s inside the cr0 handoff, which destroys the pending value in eax'' [FS (snd bw)]
               | None \<Rightarrow>
                   if bslice (store - 2) store data \<noteq> [0xC8, 0x01]
                   then Fail ''stage2 does not set bit 0 of cr0 immediately before the write'' []
                   else Pass))"

subsection \<open>The command\<close>

record check_args =
  c_image :: bytes
  c_stage1 :: "bytes option"
  c_stage2 :: "bytes option"
  c_kernel_nm :: "string option"
  c_iso :: "bytes option"
  c_objdump :: "string option"

text \<open>The blob named by the stage1 arguments, up to the module header.\<close>

definition unpack_module :: "bytes \<Rightarrow> bytes res" where
  "unpack_module blob =
     bindE (unpack_le 4 blob 0) (\<lambda>magic. if magic = LY_LZSS_MAGIC then decompress blob else Inr (drop 8 blob))"

text \<open>Everything \<open>main\<close> says of the module and of the memory map, then \<open>check_fs\<close>.\<close>

definition check_module :: "bytes \<Rightarrow> bytes \<Rightarrow> verdict res" where
  "check_module img blob =
     bindE (unpack_le 4 blob 0) (\<lambda>magic0.
     failV (magic0 \<noteq> LY_LZSS_MAGIC \<and> magic0 \<noteq> 0) ''blob has neither lzss nor raw header'' []
     (bindE (unpack_le 4 blob 4) (\<lambda>blob_len.
     bindE (unpack_module blob) (\<lambda>out.
     failV (length out \<noteq> blob_len) ''decompressed length %d != declared %d'' [FI (int (length out)), FI (int blob_len)]
     (bindE (if 16 \<le> length out then Inr () else Inl StructError) (\<lambda>_.
     bindE (unpack_le 4 out 0) (\<lambda>mod_magic.
     bindE (unpack_le 4 out 4) (\<lambda>kl.
     bindE (unpack_le 4 out 8) (\<lambda>entry.
     bindE (unpack_le 4 out 12) (\<lambda>total_len.
     failV (mod_magic \<noteq> QIZOK_MAGIC) ''module header magic missing'' []
     (failV (total_len < kl + 64) ''module total %u smaller than image %u'' [FI (int total_len), FI (int (kl + 64))]
     (failV (total_len > KERNEL_MAX) ''module total %u exceeds load budget'' [FI (int total_len)]
     (failV (kl + 64 \<noteq> length out) ''module klen mismatch with stream'' []
     (failV (entry \<ge> kl) ''entry %d outside kernel'' [FI (int entry)]
     (let kern = bslice 64 (64 + kl) out in
     failV (kl > KERNEL_MAX) ''kernel oversized'' []
     (failV (BLOB_PHYS + length blob > E820_BUF) ''blob overlaps the e820 buffer'' []
     (failV (int (E820_BUF + E820_MAX * E820_ENT + 4) > int PM_STACK - 0x1000) ''e820 buffer crowds the 32 bit stack'' []
     (failV (STAGE2 + STAGE2_BYTES > BLOB_PHYS) ''stage2 code region does not end before the blob'' []
     (failV (KTEXT + total_len > SCRATCH) ''kernel image and bss reach the decompression scratch'' []
     (failV (SCRATCH + total_len > PAGE_PML4) ''decompression scratch reaches the page tables'' []
     (failV (BOOTINFO + BOOTINFO_SIZE > STAGE2) ''bootinfo reaches the stage2 load area'' []
     (check_fs img kern))))))))))))))))))))))"

text \<open>The optional inputs, in the order \<open>main\<close> looks at them.\<close>

definition check_stage1 :: "bytes \<Rightarrow> string option \<Rightarrow> verdict res" where
  "check_stage1 s1 objdump =
     failV (length s1 \<noteq> SECTOR) ''stage1 is not one sector: %d'' [FI (int (length s1))]
     (failV (bslice 510 512 s1 \<noteq> [0x55, 0xAA]) ''stage1 signature missing'' []
     (failV (bslice (STAGE1_ARGS_OFF + 8) (STAGE1_ARGS_OFF + 12) s1 \<noteq> [0, 0, 0, 0])
        ''stage1 template has a non-zero argument block'' []
     (check_stage1_dap objdump)))"

definition check_stage2 :: "bytes \<Rightarrow> verdict res" where
  "check_stage2 s2 =
     failV (take 3 s2 \<noteq> [0xFA, 0xFC, 0x31]) ''stage2 prologue missing'' []
     (seqV (check_stage2_gdt s2) (Inr (check_stage2_transition (take STAGE2_BYTES s2))))"

definition elf_need :: "string list" where
  "elf_need = [''qizo_kernel_entry'', ''__qizo_phys_base'', ''qizo_kmain'', ''qizo_pg_tables'', ''qizo_idt'']"

definition check_elf :: "string \<Rightarrow> verdict" where
  "check_elf nm_out =
     (case find (\<lambda>n. nm nm_out n = None) elf_need of
        Some n \<Rightarrow> Fail ''kernel elf missing symbol '' [FS n]
      | None \<Rightarrow> Pass)"

definition opt_check :: "'a option \<Rightarrow> ('a \<Rightarrow> verdict res) \<Rightarrow> verdict res" where
  "opt_check v f = (case v of None \<Rightarrow> Inr Pass | Some x \<Rightarrow> f x)"

definition check :: "check_args \<Rightarrow> verdict res" where
  "check args =
     (let img = c_image args in
      failV (length img mod SECTOR \<noteq> 0) ''image not a whole number of sectors'' []
      (failV (bslice 510 512 img \<noteq> [0x55, 0xAA]) ''mbr signature missing'' []
      (bindE (bidx img STAGE1_ARGS_OFF) (\<lambda>drive.
      bindE (unpack_le 4 img (STAGE1_ARGS_OFF + 4)) (\<lambda>lba.
      bindE (unpack_le 2 img (STAGE1_ARGS_OFF + 8)) (\<lambda>tot.
      bindE (unpack_le 4 img (STAGE1_ARGS_OFF + 12)) (\<lambda>crc.
      failV (lba \<noteq> PART_LBA) ''stage1 blob lba is not %d'' [FI (int PART_LBA)]
      (failV (tot \<le> STAGE2_SECTORS) ''read span does not cover the blob'' []
      (let start = lba * SECTOR + STAGE2_BYTES;
           blob = bslice start (start + (tot - STAGE2_SECTORS) * SECTOR) img in
      seqV (opt_check (c_stage2 args) (\<lambda>s2.
              failV (bslice (lba * SECTOR) (lba * SECTOR + STAGE2_BYTES) img \<noteq> ljust STAGE2_BYTES 0 s2)
                ''stage2 in the image differs from the built binary'' [] (Inr Pass)))
      (failV (length blob \<noteq> (tot - STAGE2_SECTORS) * SECTOR) ''blob extends past end of image'' []
      (failV (checksum blob \<noteq> crc) ''blob adler mismatch'' []
      (seqV (check_module img blob)
      (seqV (opt_check (c_stage1 args) (\<lambda>s1. check_stage1 s1 (c_objdump args)))
      (seqV (opt_check (c_stage2 args) check_stage2)
      (seqV (opt_check (c_kernel_nm args) (\<lambda>t. Inr (check_elf t)))
      (opt_check (c_iso args) (\<lambda>cd. check_iso cd img)))))))))))))))))"

section \<open>The module header\<close>

definition header_bytes :: "module_info \<Rightarrow> bytes" where
  "header_bytes mi = le_bytes 4 QIZOK_MAGIC @ le_bytes 4 (nat (klen mi)) @ le_bytes 4 (nat (entry_off mi)) @
     le_bytes 4 (nat (img_total mi)) @ le_bytes 4 (nat (kbase mi)) @ le_bytes 4 SECTOR @ zeros 40"

definition header_fits :: "module_info \<Rightarrow> bool" where
  "header_fits mi \<longleftrightarrow> list_all (\<lambda>v. 0 \<le> v \<and> v < 2 ^ 32) [klen mi, entry_off mi, img_total mi, kbase mi]"

lemma module_header_eq:
  "module_header mi = (if header_fits mi then Inr (header_bytes mi) else Inl StructError)"
proof -
  have m: "pack_le 4 (int QIZOK_MAGIC) = Inr (le_bytes 4 QIZOK_MAGIC)" "pack_le 4 (int SECTOR) = Inr (le_bytes 4 SECTOR)"
    by (rule pack_le_int; simp add: QIZOK_MAGIC_def SECTOR_def)+
  have p: "pack_le 4 v = (if 0 \<le> v \<and> v < 2 ^ 32 then Inr (le_bytes 4 (nat v)) else Inl StructError)" for v
    by (simp add: pack_le_def)
  show ?thesis
    unfolding module_header_def foldE.simps m
    by (simp add: p header_fits_def header_bytes_def del: le_bytes.simps)
qed

lemma header_fields:
  assumes "header_fits mi"
  shows "unpack_le 4 (header_bytes mi @ k) 0 = Inr QIZOK_MAGIC" "unpack_le 4 (header_bytes mi @ k) 4 = Inr (nat (klen mi))"
    "unpack_le 4 (header_bytes mi @ k) 8 = Inr (nat (entry_off mi))" "unpack_le 4 (header_bytes mi @ k) 12 = Inr (nat (img_total mi))"
    "length (header_bytes mi) = 64"
  using assms
  by (simp_all add: header_bytes_def header_fits_def unpack_le_def bslice_def QIZOK_MAGIC_def nat_less_iff del: le_bytes.simps)

section \<open>The checker accepts what the builder makes\<close>

lemma verdict_simps [simp]:
  "failV False m as k = k" "failV True m as k = Inr (Fail m as)" "seqV (Inr Pass) k = k" "seqV (Inr (Fail m as)) k = Inr (Fail m as)"
  "opt_check None f = Inr Pass" "opt_check (Some x) f = f x"
  by (simp_all add: failV_def seqV_def opt_check_def)

text \<open>A compressed blob gives its payload back to the checker.\<close>

lemma blob_reads:
  assumes "make_blob False payload = Inr blob" "length payload < 2 ^ 32"
  shows "unpack_le 4 blob 0 = Inr LY_LZSS_MAGIC" "unpack_le 4 blob 4 = Inr (length payload)" "decompress blob = Inr payload"
    "unpack_module blob = Inr payload"
proof -
  obtain z pad where z: "compress payload = Inr z" "blob = z @ pad" using make_blob_facts(5) [OF assms(1)] by auto
  obtain body where b: "compress payload = Inr (le_bytes 4 LZSS_MAGIC @ le_bytes 4 (length payload) @ body)"
    using compress_container [OF assms(2)] by metis
  then have blob: "blob = le_bytes 4 LZSS_MAGIC @ le_bytes 4 (length payload) @ body @ pad" using z by simp
  show m: "unpack_le 4 blob 0 = Inr LY_LZSS_MAGIC" "unpack_le 4 blob 4 = Inr (length payload)"
    unfolding blob using assms(2)
    by (simp_all add: unpack_le_def bslice_def LZSS_MAGIC_def LY_LZSS_MAGIC_def del: le_bytes.simps)
  show d: "decompress blob = Inr payload" unfolding z(2) by (rule lz.dec_enc [OF z(1)])
  show "unpack_module blob = Inr payload" using m(1) d by (simp add: unpack_module_def)
qed

text \<open>What the command line must give the builder.\<close>

definition module_fits :: "module_info \<Rightarrow> bool" where
  "module_fits mi \<longleftrightarrow> header_fits mi \<and> entry_off mi < klen mi \<and> klen mi + 64 \<le> img_total mi"

lemma files_of_map:
  "files_map (files_of args mi lay blob payload) (cps ''KERNEL.BIN'') = Some (m_kernel args)"
  "files_map (files_of args mi lay blob payload) (cps ''README.TXT'') =
     Some (encode (readme mi lay (length blob div SECTOR) (m_kernel args) blob payload))"
  by (simp_all add: files_map_def files_of_def)

lemma files_of_names: "ascii label \<Longrightarrow> CHR 0x00 \<notin> set label \<Longrightarrow> names_ok label (files_of args mi lay blob payload)"
  by (simp add: names_ok_def files_of_def name83_def split_name_def upper_char_def)

lemma check_image:
  assumes s1: "prepare_stage1 (m_stage1 args) = Inr s1" "length (m_stage1 args) \<le> 512"
    and s2: "length (m_stage2 args) \<le> STAGE2_BYTES"
    and mi: "module_info_of args = Inr mi" "module_fits mi"
    and bl: "\<not> m_raw args" "make_blob False (header_bytes mi @ m_kernel args) = Inr blob"
    and lay: "choose_layout (m_image_sectors args) (length blob div SECTOR) = Inr (tot, lay)" "bits lay = 16" "tot < 65552"
    and lb: "ascii (m_label args)" "CHR 0x00 \<notin> set (m_label args)"
    and o2: "o2 = None \<or> o2 = Some (m_stage2 args)"
  obtains img where "mkqizoimg args = Inr img" "length img = nat tot * SECTOR"
    "check \<lparr>c_image = img, c_stage1 = o1, c_stage2 = o2, c_kernel_nm = o3, c_iso = o4, c_objdump = od\<rparr> =
       seqV (opt_check o1 (\<lambda>s1. check_stage1 s1 od)) (seqV (opt_check o2 check_stage2)
         (seqV (opt_check o3 (\<lambda>t. Inr (check_elf t))) (opt_check o4 (\<lambda>cd. check_iso cd img))))"
proof -
  let ?pay = "header_bytes mi @ m_kernel args" let ?fs = "files_of args mi lay blob ?pay" let ?s = "length blob div SECTOR"
  have hf: "header_fits mi" using mi(2) by (simp add: module_fits_def)
  then have hd: "module_header mi = Inr (header_bytes mi)" by (simp add: module_header_eq)
  have bl': "make_blob (m_raw args) ?pay = Inr blob" using bl by simp
  obtain img fat cl rt where img: "mkqizoimg args = Inr img" and v: "volume_at img tot lay ?fs (m_label args) fat cl rt"
    and r: "bslice (PART_LBA * SECTOR) (PART_LBA * SECTOR + STAGE2_BYTES) img = ljust STAGE2_BYTES 0 (m_stage2 args)"
    "bslice (BLOB_LBA * SECTOR) (BLOB_LBA * SECTOR + length blob) img = blob"
    "bslice 510 512 img = [0x55, 0xAA]" "unpack_le 4 img 0x1C6 = Inr (part_lba lay)"
    "unpack_le 4 img (STAGE1_ARGS_OFF + 4) = Inr PART_LBA"
    "unpack_le 2 img (STAGE1_ARGS_OFF + 8) = Inr (STAGE2_SECTORS + ?s)"
    "unpack_le 4 img (STAGE1_ARGS_OFF + 12) = Inr (checksum blob)"
    using mkqizoimg_ok [OF s1 s2 mi(1) hd bl' lay lb(1)] by blast
  note p = choose_layout_plan16 [OF lay] and b = make_blob_facts [OF bl(2)]
  note m = module_info_facts [OF mi(1) hd]
  have pay: "?pay \<noteq> []" using header_fields(5) [OF hf] by auto
  have lp: "length ?pay = 64 + length (m_kernel args)" using header_fields(5) [OF hf] by simp
  have l32: "length ?pay < 2 ^ 32" using m(1,2) lp by simp
  have p16: "plan16 tot lay" and c: "4085 \<le> clusters lay" using p by blast+
  note f = files_of_fit [OF mi(1) hd bl' pay p16 c] and br = blob_reads [OF bl(2) l32]
  have len: "length img = nat tot * SECTOR" using v by (simp add: volume_at_def)
  have fs: "check_fs img (m_kernel args) = Inr Pass"
    using f(2) by (intro check_fs_ok [OF v p16 f(1) files_of_names [OF lb] _ r(4) files_of_map readme_starts]) simp
  have "nat (entry_off mi) < length (m_kernel args)" "length (m_kernel args) + 64 \<le> nat (img_total mi)" "nat (img_total mi) \<le> 524288"
    "bslice 64 (64 + length (m_kernel args)) ?pay = m_kernel args" "64 \<le> length ?pay"
    using m mi(2) lp header_fields(5) [OF hf] by (auto simp: module_fits_def bslice_append_right)
  then have mod: "check_module img blob = Inr Pass"
    using br header_fields(1-4) [OF hf, of "m_kernel args"] m(1) fs lp b(2)
    by (simp add: check_module_def failV_def KERNEL_MAX_def BLOB_PHYS_def E820_BUF_def E820_MAX_def
          E820_ENT_def PM_STACK_def STAGE2_def STAGE2_BYTES_def KTEXT_def SCRATCH_def PAGE_PML4_def BOOTINFO_def
          BOOTINFO_SIZE_def BLOB_MAX_def)
  have "length img mod SECTOR = 0" "STAGE1_ARGS_OFF < length img"
    using len p16 c by (auto simp: SECTOR_def STAGE1_ARGS_OFF_def plan16_def)
  moreover have "bslice (PART_LBA * SECTOR + STAGE2_BYTES) (PART_LBA * SECTOR + STAGE2_BYTES + ?s * SECTOR) img = blob"
    using r(2) b(1) by (simp add: PART_LBA_def STAGE2_BYTES_def SECTOR_def BLOB_LBA_def)
  ultimately have "check \<lparr>c_image = img, c_stage1 = o1, c_stage2 = o2, c_kernel_nm = o3, c_iso = o4, c_objdump = od\<rparr> =
       seqV (opt_check o1 (\<lambda>s1. check_stage1 s1 od)) (seqV (opt_check o2 check_stage2)
         (seqV (opt_check o3 (\<lambda>t. Inr (check_elf t))) (opt_check o4 (\<lambda>cd. check_iso cd img))))"
    using r(1,3,5-7) mod b(1) [symmetric] b(3) o2 by (auto simp: check_def Let_def simp del: length_bslice)
  then show thesis using that [OF img len] by blast
qed


lemma make_blob_compress:
  assumes "compress payload = Inr z" "length z \<le> BLOB_MAX"
  obtains blob where "make_blob False payload = Inr blob" "length blob div SECTOR = sectors_for (length z)"
proof -
  let ?b = "z @ zeros (sectors_for (length z) * SECTOR - length z)"
  have "make_blob False payload = Inr ?b" using assms by (simp add: make_blob_def)
  moreover have "length ?b = sectors_for (length z) * SECTOR" using sectors_for_bounds(1) [of "length z"] by simp
  then have "length ?b div SECTOR = sectors_for (length z)" by (simp add: SECTOR_def)
  ultimately show thesis by (rule that)
qed

lemma load_size_ok: "66 \<le> n \<Longrightarrow> \<not> (n \<noteq> 4 \<and> n \<noteq> 0 \<and> n < (66 :: nat))"
  by simp

text \<open>The default build.\<close>

lemma default_checked:
  assumes "prepare_stage1 (m_stage1 args) = Inr s1" "length (m_stage1 args) \<le> 512"
    and "length (m_stage2 args) \<le> STAGE2_BYTES"
    and "module_info_of args = Inr mi" "module_fits mi"
    and "compress (header_bytes mi @ m_kernel args) = Inr z" "length z \<le> BLOB_MAX"
    and "\<not> m_raw args" "m_image_sectors args = 0"
    and "ascii (m_label args)" "CHR 0x00 \<notin> set (m_label args)"
  shows "\<exists>img cd info. mkqizoimg args = Inr img \<and>
    length img = (BLOB_LBA + sectors_for (length z) + 4400) * SECTOR \<and>
    build_iso img volume = Inr (cd, info) \<and>
    check \<lparr>c_image = img, c_stage1 = None, c_stage2 = None, c_kernel_nm = None, c_iso = Some cd, c_objdump = None\<rparr> = Inr Pass"
proof -
  obtain blob where b: "make_blob False (header_bytes mi @ m_kernel args) = Inr blob" "length blob div SECTOR = sectors_for (length z)"
    using make_blob_compress [OF assms(6,7)] by blast
  let ?s = "length blob div SECTOR"
  have s: "?s \<le> 248" using make_blob_facts(4) [OF b(1)] .
  have lay: "choose_layout (m_image_sectors args) ?s = Inr (int (BLOB_LBA + ?s) + 4400, default_layout (BLOB_LBA + ?s))"
    using assms(9) pick_layout_default [OF s] by (simp add: choose_layout_def)
  have tot: "int (BLOB_LBA + ?s) + 4400 < 65552" "nat (int (BLOB_LBA + ?s) + 4400) = BLOB_LBA + ?s + 4400"
    using s by (simp_all add: BLOB_LBA_def)
  have bits: "bits (default_layout (BLOB_LBA + ?s)) = 16" by (simp add: default_layout_def)
  have ck: "\<exists>img. mkqizoimg args = Inr img \<and> length img = (BLOB_LBA + ?s + 4400) * SECTOR \<and>
      check \<lparr>c_image = img, c_stage1 = None, c_stage2 = None, c_kernel_nm = None, c_iso = o4, c_objdump = None\<rparr> =
        opt_check o4 (\<lambda>cd. check_iso cd img)" for o4
    using check_image [OF assms(1-5,8) b(1) lay bits tot(1) assms(10,11), of None None None o4 None] tot(2) by fastforce
  then obtain img where i: "mkqizoimg args = Inr img" "length img = (BLOB_LBA + ?s + 4400) * SECTOR" by blast
  have n: "66 \<le> (length img + 2047) div 2048" "length img < 2 ^ 32"
    unfolding i(2) using s by (simp_all add: SECTOR_def BLOB_LBA_def)
  obtain cd info where c: "build_iso img volume = Inr (cd, info)" "check_iso cd img = Inr Pass"
    using build_iso_ok [OF n(2), unfolded if_not_P [OF load_size_ok [OF n(1)]]] by blast
  from ck [of "Some cd"] i(1) c(2)
  have "check \<lparr>c_image = img, c_stage1 = None, c_stage2 = None, c_kernel_nm = None, c_iso = Some cd, c_objdump = None\<rparr> = Inr Pass"
    by auto
  with i c(1) show ?thesis unfolding b(2) by blast
qed

text \<open>The smallest inputs of a build, used as the concrete case of the theorems about the command.\<close>

definition tiny_args :: mk_args where
  "tiny_args = \<lparr>m_stage1 = zeros 510 @ [0x55, 0xAA], m_stage2 = [0xFA, 0xFC, 0x31], m_kernel = [0xF4, 0xEB, 0xFD],
     m_syms = [''__qizo_phys_base'' \<mapsto> 0x100000, ''qizo_kernel_entry'' \<mapsto> 0x100000,
               ''__qizo_image_end'' \<mapsto> 0x100003, ''__qizo_bss_end'' \<mapsto> 0x101000],
     m_entry = None, m_image_sectors = 0, m_raw = False, m_label = ''QIZO_BOOT''\<rparr>"

definition tiny_info :: module_info where
  "tiny_info = \<lparr>klen = 3, entry_off = 0, img_total = 0x1000, kbase = 0x100000\<rparr>"

lemma tiny_ok:
  "prepare_stage1 (m_stage1 tiny_args) = Inr (zeros 510 @ [0x55, 0xAA])" "length (m_stage1 tiny_args) \<le> 512"
  "length (m_stage2 tiny_args) \<le> STAGE2_BYTES" "module_info_of tiny_args = Inr tiny_info" "module_fits tiny_info"
  "\<not> m_raw tiny_args" "m_image_sectors tiny_args = 0" "ascii (m_label tiny_args)" "CHR 0x00 \<notin> set (m_label tiny_args)"
  "length (header_bytes tiny_info @ m_kernel tiny_args) = 67"
  by (simp_all add: tiny_args_def tiny_info_def prepare_stage1_def bslice_append_right STAGE1_ARGS_OFF_def STAGE2_BYTES_def
        module_info_of_def KERNEL_MAX_def QIZOK_HDR_def module_fits_def header_fits_def header_bytes_def ascii_def Let_def)

lemma tiny_blob: "\<exists>z. compress (header_bytes tiny_info @ m_kernel tiny_args) = Inr z \<and> length z \<le> BLOB_MAX"
proof -
  let ?p = "header_bytes tiny_info @ m_kernel tiny_args"
  have l: "length ?p = 67" by (rule tiny_ok)
  then have "length ?p < 2 ^ 32" by simp
  then obtain body where "compress ?p = Inr (le_bytes 4 LZSS_MAGIC @ le_bytes 4 (length ?p) @ body)"
    "length body \<le> length ?p + (length ?p + 7) div 8"
    using compress_container by metis
  then show ?thesis unfolding l by (simp add: BLOB_MAX_def del: le_bytes.simps)
qed

lemma tiny_layout:
  obtains blob tot lay where "make_blob False (header_bytes tiny_info @ m_kernel tiny_args) = Inr blob"
    "choose_layout (m_image_sectors tiny_args) (length blob div SECTOR) = Inr (tot, lay)" "bits lay = 16" "tot < 65552"
proof -
  obtain z where z: "compress (header_bytes tiny_info @ m_kernel tiny_args) = Inr z" "length z \<le> BLOB_MAX" using tiny_blob by blast
  obtain blob where b: "make_blob False (header_bytes tiny_info @ m_kernel tiny_args) = Inr blob" using make_blob_compress [OF z] by blast
  let ?s = "length blob div SECTOR"
  have s: "?s \<le> 248" using make_blob_facts(4) [OF b] .
  have "choose_layout (m_image_sectors tiny_args) ?s = Inr (int (BLOB_LBA + ?s) + 4400, default_layout (BLOB_LBA + ?s))"
    using tiny_ok(7) pick_layout_default [OF s] by (simp add: choose_layout_def)
  moreover have "bits (default_layout (BLOB_LBA + ?s)) = 16" "int (BLOB_LBA + ?s) + 4400 < 65552"
    using s by (simp_all add: BLOB_LBA_def default_layout_def)
  ultimately show thesis using that [OF b] by blast
qed

lemma tiny_checked:
  "\<exists>img. mkqizoimg tiny_args = Inr img \<and>
    check \<lparr>c_image = img, c_stage1 = None, c_stage2 = None, c_kernel_nm = None, c_iso = None, c_objdump = None\<rparr> = Inr Pass"
proof -
  obtain blob tot lay where l: "make_blob False (header_bytes tiny_info @ m_kernel tiny_args) = Inr blob"
    "choose_layout (m_image_sectors tiny_args) (length blob div SECTOR) = Inr (tot, lay)" "bits lay = 16" "tot < 65552"
    using tiny_layout by blast
  from check_image [OF tiny_ok(1-6) l tiny_ok(8,9), of None None None None None] show ?thesis by fastforce
qed

section \<open>Descriptors\<close>

lemma le_nat_drop: "le_nat bs div 256 ^ k = le_nat (drop k bs)"
proof (induction k arbitrary: bs)
  case (Suc k)
  show ?case
  proof (cases bs)
    case (Cons b r)
    have "(unat b + 256 * le_nat r) div 256 = le_nat r" using unat_byte_less [of b] by simp
    then have "(unat b + 256 * le_nat r) div (256 * 256 ^ k) = le_nat r div 256 ^ k" by (simp add: div_mult2_eq)
    then show ?thesis using Cons Suc by simp
  qed simp
qed simp

lemma le_nat_take: "le_nat bs mod 256 ^ k = le_nat (take k bs)"
proof (cases "k \<le> length bs")
  case True
  have "le_nat bs = le_nat (take k bs) + 256 ^ k * le_nat (drop k bs)"
    using le_nat_append [of "take k bs" "drop k bs"] True by simp
  moreover have "le_nat (take k bs) < 256 ^ k" using le_nat_less [of "take k bs"] True by simp
  ultimately show ?thesis by simp
next
  case False
  then have "le_nat bs < 256 ^ k" using le_nat_less [of bs]
    by (meson le_less_trans less_le_trans linear not_less power_increasing one_le_numeral)
  then show ?thesis using False by simp
qed

lemma and_shifted_mask: "x AND push_bit n (mask m) = push_bit n (take_bit m (drop_bit n x))" for x :: nat
  by (rule bit_eqI) (auto simp: bit_simps)

text \<open>The eight bytes of a descriptor as one number, shifted by whole bytes and cut into its fields.\<close>

lemma desc_div:
  fixes l0 l1 b0 b1 b2 a f b3 :: byte
  defines "q \<equiv> le_nat [l0, l1, b0, b1, b2, a, f, b3]"
  shows "q div 65536 = le_nat [b0, b1, b2, a, f, b3]" "q div 1099511627776 = le_nat [a, f, b3]"
    "q div 281474976710656 = unat f + 256 * unat b3" "q div 72057594037927936 = unat b3"
  using le_nat_drop [of "[l0, l1, b0, b1, b2, a, f, b3]" 2] le_nat_drop [of "[l0, l1, b0, b1, b2, a, f, b3]" 5]
    le_nat_drop [of "[l0, l1, b0, b1, b2, a, f, b3]" 6] le_nat_drop [of "[l0, l1, b0, b1, b2, a, f, b3]" 7]
  unfolding q_def by (simp_all del: le_nat.simps) simp_all

lemma desc_limit:
  fixes l0 l1 b0 b1 b2 a f b3 :: byte
  defines "q \<equiv> le_nat [l0, l1, b0, b1, b2, a, f, b3]"
  shows "(q AND 0xFFFF) OR (drop_bit 32 q AND 0xF0000) = unat l0 + 256 * unat l1 + 65536 * (unat f mod 16)"
proof -
  have lo: "q AND 0xFFFF = unat l0 + 256 * unat l1" "unat l0 + 256 * unat l1 < 2 ^ 16"
    unfolding and_mask_mod(1) q_def
    using le_nat_take [of "[l0, l1, b0, b1, b2, a, f, b3]" 2] le_nat_less [of "[l0, l1]"] by simp_all
  have "push_bit 16 (mask 4) = (0xF0000 :: nat)" by (simp add: mask_eq_exp_minus_1 push_bit_eq_mult)
  then have "drop_bit 32 q AND 0xF0000 = push_bit 16 (take_bit 4 (drop_bit 48 q))"
    using and_shifted_mask [of "drop_bit 32 q" 16 4] by simp
  also have "take_bit 4 (drop_bit 48 q) = unat f mod 16"
    using desc_div(3) [of l0 l1 b0 b1 b2 a f b3, folded q_def] mod_mult_self2 [of "unat f" 16 "16 * unat b3"]
    by (simp add: drop_bit_eq_div take_bit_eq_mod)
  finally show ?thesis
    using push_bit_or_add [OF lo(2), of "unat f mod 16"] lo(1) by (simp add: or.commute push_bit_eq_mult)
qed

lemma desc_base:
  fixes l0 l1 b0 b1 b2 a f b3 :: byte
  defines "q \<equiv> le_nat [l0, l1, b0, b1, b2, a, f, b3]"
  shows "(drop_bit 16 q AND 0xFFFFFF) OR push_bit 24 (drop_bit 56 q AND 0xFF) =
    unat b0 + 256 * unat b1 + 65536 * unat b2 + 16777216 * unat b3"
proof -
  have b3: "drop_bit 56 q AND 0xFF = unat b3"
    using desc_div(4) [of l0 l1 b0 b1 b2 a f b3, folded q_def] unfolding and_mask_mod drop_bit_eq_div by simp
  have "drop_bit 16 q AND 0xFFFFFF = q div 65536 mod 16777216"
    using take_bit_eq_mask [of 24 "drop_bit 16 q"] by (simp add: mask_eq_exp_minus_1 take_bit_eq_mod drop_bit_eq_div)
  also have "\<dots> = unat b0 + 256 * unat b1 + 65536 * unat b2"
    using desc_div(1) [of l0 l1 b0 b1 b2 a f b3, folded q_def] le_nat_take [of "[b0, b1, b2, a, f, b3]" 3]
    by (simp del: le_nat.simps) simp
  finally have "drop_bit 16 q AND 0xFFFFFF = unat b0 + 256 * unat b1 + 65536 * unat b2" .
  moreover have "unat b0 + 256 * unat b1 + 65536 * unat b2 < 2 ^ 24" using le_nat_less [of "[b0, b1, b2]"] by simp
  ultimately show ?thesis
    using push_bit_or_add [of "unat b0 + 256 * unat b1 + 65536 * unat b2" 24 "unat b3"]
    unfolding b3 by (simp add: or.commute push_bit_eq_mult)
qed

lemma desc_bytes:
  fixes l0 l1 b0 b1 b2 a f b3 :: byte
  defines "q \<equiv> le_nat [l0, l1, b0, b1, b2, a, f, b3]"
  shows "drop_bit 40 q AND 0xFF = unat a" "drop_bit 48 q AND 0xFF = unat f"
  using desc_div(2,3) [of l0 l1 b0 b1 b2 a f b3, folded q_def] le_nat_take [of "[a, f, b3]" 1]
  unfolding and_mask_mod drop_bit_eq_div by (simp_all)

lemma desc_flags:
  fixes l0 l1 b0 b1 b2 a f b3 :: byte
  defines "q \<equiv> le_nat [l0, l1, b0, b1, b2, a, f, b3]"
  shows "drop_bit 55 q AND 1 = unat f div 128" "drop_bit 54 q AND 1 = unat f div 64 mod 2" "drop_bit 53 q AND 1 = unat f div 32 mod 2"
proof -
  have bits: "drop_bit (48 + n) q AND 1 = (unat f + 256 * unat b3) div 2 ^ n mod 2" for n
    unfolding drop_bit_eq_div and_one_eq power_add
    using desc_div(3) [of l0 l1 b0 b1 b2 a f b3, folded q_def] by (simp add: div_mult2_eq)
  have "unat f div 128 < 2" using unat_byte_less [of f] by (intro less_mult_imp_div_less) simp
  moreover have "(unat f + 256 * unat b3) div 128 mod 2 = unat f div 128 mod 2" "(unat f + 256 * unat b3) div 64 mod 2 = unat f div 64 mod 2"
    "(unat f + 256 * unat b3) div 32 mod 2 = unat f div 32 mod 2"
    using div_mult_self2 [of 128 "unat f" "2 * unat b3"] div_mult_self2 [of 64 "unat f" "4 * unat b3"]
      div_mult_self2 [of 32 "unat f" "8 * unat b3"]
      mod_mult_self2 [of "unat f div 64" 2 "2 * unat b3"] mod_mult_self2 [of "unat f div 32" 2 "4 * unat b3"]
    by (simp_all add: add.commute)
  ultimately show "drop_bit 55 q AND 1 = unat f div 128" "drop_bit 54 q AND 1 = unat f div 64 mod 2" "drop_bit 53 q AND 1 = unat f div 32 mod 2"
    using bits [of 7] bits [of 6] bits [of 5] by simp_all
qed

section \<open>Properties\<close>

text \<open>C2: when the stage1 template is clear and at most one sector, stage2 fits its eight sectors, the
  symbols describe the kernel file with the entry inside it and 64 bytes to spare, and the
  compressed module fits the blob area, the builder succeeds with the default size, the ISO
  writer succeeds on the image, and the checker accepts the pair.\<close>

theorem mkqizoimg_checked:
  assumes "prepare_stage1 (m_stage1 args) = Inr s1" "length (m_stage1 args) \<le> 512"
    and "length (m_stage2 args) \<le> STAGE2_BYTES"
    and "module_info_of args = Inr mi" "module_fits mi"
    and "compress (header_bytes mi @ m_kernel args) = Inr z" "length z \<le> BLOB_MAX"
    and "\<not> m_raw args" "m_image_sectors args = 0"
    and "ascii (m_label args)" "CHR 0x00 \<notin> set (m_label args)"
  shows "\<exists>img cd info. mkqizoimg args = Inr img \<and>
    length img = (BLOB_LBA + sectors_for (length z) + 4400) * SECTOR \<and>
    build_iso img volume = Inr (cd, info) \<and>
    check \<lparr>c_image = img, c_stage1 = None, c_stage2 = None, c_kernel_nm = None, c_iso = Some cd, c_objdump = None\<rparr> = Inr Pass"
  using assms by (rule default_checked)

theorem mkqizoimg_checked_witness:
  "\<exists>img cd info. mkqizoimg tiny_args = Inr img \<and> build_iso img ''QIZO'' = Inr (cd, info) \<and>
    check \<lparr>c_image = img, c_stage1 = None, c_stage2 = None, c_kernel_nm = None, c_iso = Some cd, c_objdump = None\<rparr> = Inr Pass"
proof -
  obtain z where "compress (header_bytes tiny_info @ m_kernel tiny_args) = Inr z" "length z \<le> BLOB_MAX" using tiny_blob by blast
  from mkqizoimg_checked [OF tiny_ok(1-5) this tiny_ok(6-9), of "''QIZO''"] show ?thesis by blast
qed

text \<open>The eight bytes of a segment descriptor are split into its fields as the processor manual
  lays them out: limit in bytes 0, 1 and the low half of 6, base in bytes 2 to 4 and 7, access in
  byte 5, and the granularity, size and long-mode bits at the top of byte 6.\<close>

lemma decode_desc_layout:
  "decode_desc [l0, l1, b0, b1, b2, a, f, b3] =
     \<lparr>d_limit = unat l0 + 256 * unat l1 + 65536 * (unat f mod 16),
      d_base = unat b0 + 256 * unat b1 + 65536 * unat b2 + 16777216 * unat b3,
      d_access = unat a, d_flags = unat f, d_g = unat f div 128, d_d = unat f div 64 mod 2, d_l = unat f div 32 mod 2\<rparr>"
  using desc_limit [of l0 l1 b0 b1 b2 a f b3] desc_base [of l0 l1 b0 b1 b2 a f b3] desc_bytes [of l0 l1 b0 b1 b2 a f b3]
    desc_flags [of l0 l1 b0 b1 b2 a f b3]
  by (simp add: decode_desc_def Let_def del: le_nat.simps)

lemma verdict_Pass [simp]:
  "failV c m as k = Inr Pass \<longleftrightarrow> \<not> c \<and> k = Inr Pass" "seqV v k = Inr Pass \<longleftrightarrow> v = Inr Pass \<and> k = Inr Pass"
proof -
  show "failV c m as k = Inr Pass \<longleftrightarrow> \<not> c \<and> k = Inr Pass" by (auto simp: failV_def)
  show "seqV v k = Inr Pass \<longleftrightarrow> v = Inr Pass \<and> k = Inr Pass"
  proof (cases v)
    case (Inr x)
    then show ?thesis by (cases x) (simp_all add: seqV_def)
  qed (simp add: seqV_def)
qed

lemma find_SomeD: "find P xs = Some x \<Longrightarrow> P x \<and> x \<in> set xs"
  by (auto simp: find_Some_iff)

text \<open>What \<open>main\<close> has established when it returns 0.\<close>

lemma check_pass:
  assumes "check args = Inr Pass"
  obtains n crc out entry tot where "unpack_le 4 (c_image args) (STAGE1_ARGS_OFF + 4) = Inr PART_LBA"
    "unpack_le 2 (c_image args) (STAGE1_ARGS_OFF + 8) = Inr (STAGE2_SECTORS + n)" "0 < n"
    "unpack_le 4 (c_image args) (STAGE1_ARGS_OFF + 12) = Inr crc"
    "length (bslice (BLOB_LBA * SECTOR) (BLOB_LBA * SECTOR + n * SECTOR) (c_image args)) = n * SECTOR"
    "checksum (bslice (BLOB_LBA * SECTOR) (BLOB_LBA * SECTOR + n * SECTOR) (c_image args)) = crc"
    "unpack_module (bslice (BLOB_LBA * SECTOR) (BLOB_LBA * SECTOR + n * SECTOR) (c_image args)) = Inr out"
    "unpack_le 4 out 0 = Inr QIZOK_MAGIC" "unpack_le 4 out 4 = Inr (length (drop 64 out))"
    "unpack_le 4 out 8 = Inr entry" "entry < length (drop 64 out)"
    "unpack_le 4 out 12 = Inr tot" "length (drop 64 out) + 64 \<le> tot" "KTEXT + tot \<le> SCRATCH"
    "check_fs (c_image args) (drop 64 out) = Inr Pass"
proof -
  let ?img = "c_image args"
  obtain tot crc where t: "unpack_le 4 ?img (STAGE1_ARGS_OFF + 4) = Inr PART_LBA"
    "unpack_le 2 ?img (STAGE1_ARGS_OFF + 8) = Inr tot" "unpack_le 4 ?img (STAGE1_ARGS_OFF + 12) = Inr crc" "STAGE2_SECTORS < tot"
    and blob: "length (bslice (PART_LBA * SECTOR + STAGE2_BYTES)
        (PART_LBA * SECTOR + STAGE2_BYTES + (tot - STAGE2_SECTORS) * SECTOR) ?img) = (tot - STAGE2_SECTORS) * SECTOR"
      "checksum (bslice (PART_LBA * SECTOR + STAGE2_BYTES)
        (PART_LBA * SECTOR + STAGE2_BYTES + (tot - STAGE2_SECTORS) * SECTOR) ?img) = crc"
      "check_module ?img (bslice (PART_LBA * SECTOR + STAGE2_BYTES)
        (PART_LBA * SECTOR + STAGE2_BYTES + (tot - STAGE2_SECTORS) * SECTOR) ?img) = Inr Pass"
    using assms by (auto simp: check_def Let_def not_le simp del: length_bslice)
  let ?n = "tot - STAGE2_SECTORS"
  have at: "PART_LBA * SECTOR + STAGE2_BYTES = BLOB_LBA * SECTOR"
    by (simp add: PART_LBA_def STAGE2_BYTES_def SECTOR_def BLOB_LBA_def)
  let ?b = "bslice (BLOB_LBA * SECTOR) (BLOB_LBA * SECTOR + ?n * SECTOR) ?img"
  note blob' = blob [unfolded at]
  obtain out kl entry tl where m: "unpack_module ?b = Inr out" "unpack_le 4 out 0 = Inr QIZOK_MAGIC" "unpack_le 4 out 4 = Inr kl"
    "unpack_le 4 out 8 = Inr entry" "unpack_le 4 out 12 = Inr tl" "kl + 64 \<le> tl" "kl + 64 = length out" "entry < kl"
    "KTEXT + tl \<le> SCRATCH" "check_fs ?img (bslice 64 (64 + kl) out) = Inr Pass"
    using blob'(3) by (auto simp: check_module_def Let_def not_le not_less simp del: length_bslice)
  have "bslice 64 (64 + kl) out = drop 64 out" "length (drop 64 out) = kl" using m(7) by (simp_all add: bslice_def)
  moreover have "unpack_le 2 ?img (STAGE1_ARGS_OFF + 8) = Inr (STAGE2_SECTORS + ?n)" "0 < ?n" using t(2,4) by simp_all
  ultimately show thesis using that t(1,3) blob'(1,2) m(1-6,8-10) by metis
qed

text \<open>C9: an image is accepted only if its first sector names a blob that lies inside it and has the
  recorded checksum, the blob unpacks to a module whose header describes exactly the bytes that
  follow it with the entry inside the kernel, the loaded kernel with its bss fits below the
  scratch area, and the volume holds that same kernel as \<open>KERNEL.BIN\<close>: a slot of the root directory
  in front of the end mark carries the name, and the clusters of the chain that starts at its first
  cluster, cut at its recorded size, are the kernel. A \<open>README.TXT\<close> that begins with \<open>qizo\<close> is on
  the volume in the same sense.\<close>

theorem check_accepts:
  assumes "check args = Inr Pass"
  shows "\<exists>n crc blob out kern entry tot readme. unpack_le 2 (c_image args) (STAGE1_ARGS_OFF + 8) = Inr (STAGE2_SECTORS + n) \<and> 0 < n \<and>
    unpack_le 4 (c_image args) (STAGE1_ARGS_OFF + 12) = Inr crc \<and>
    blob = bslice (BLOB_LBA * SECTOR) (BLOB_LBA * SECTOR + n * SECTOR) (c_image args) \<and> length blob = n * SECTOR \<and>
    checksum blob = crc \<and> unpack_module blob = Inr out \<and> kern = drop 64 out \<and>
    unpack_le 4 out 0 = Inr QIZOK_MAGIC \<and> unpack_le 4 out 4 = Inr (length kern) \<and>
    unpack_le 4 out 8 = Inr entry \<and> entry < length kern \<and>
    unpack_le 4 out 12 = Inr tot \<and> length kern + 64 \<le> tot \<and> KTEXT + tot \<le> SCRATCH \<and>
    holds_file (c_image args) ''KERNEL.BIN'' kern \<and>
    holds_file (c_image args) ''README.TXT'' readme \<and> take 4 readme = encode ''qizo''"
  using check_pass [OF assms] check_fs_holds by metis

theorem check_accepts_witness:
  "\<exists>img n crc kern. mkqizoimg tiny_args = Inr img \<and> unpack_le 2 img (STAGE1_ARGS_OFF + 8) = Inr (STAGE2_SECTORS + n) \<and>
     unpack_le 4 img (STAGE1_ARGS_OFF + 12) = Inr crc \<and>
     checksum (bslice (BLOB_LBA * SECTOR) (BLOB_LBA * SECTOR + n * SECTOR) img) = crc \<and> holds_file img ''KERNEL.BIN'' kern"
proof -
  obtain img where i: "mkqizoimg tiny_args = Inr img"
    "check \<lparr>c_image = img, c_stage1 = None, c_stage2 = None, c_kernel_nm = None, c_iso = None, c_objdump = None\<rparr> = Inr Pass"
    using tiny_checked by blast
  show ?thesis using check_accepts [OF i(2)] i(1) unfolding check_args.simps by blast
qed

text \<open>The mode switch check looks only at the last two bytes before the write to cr0. These bytes load
  the table, read cr0, add 0x01C8 to ax and write cr0 back: nothing ors bit 0 in, and the check
  accepts them.\<close>

lemma transition_accepts_add:
  "check_stage2_transition [0x0F, 0x01, 0x17, 0x0F, 0x20, 0xC0, 0x05, 0xC8, 0x01, 0x0F, 0x22, 0xC0] = Pass"
  by (simp add: check_stage2_transition_def bfind_def brfind_def occurs_at_def bslice_def upt_rec)

end
