(* ===== verification/Qizo_Bootmodel.thy ===== *)
theory Qizo_Bootmodel
  imports Qizo_Check
begin

text \<open>
  The boot path model, \<^verbatim>\<open>src/tools/qizocheck/qizobootmodel.py\<close>: a flat memory, the BIOS disk read, the
  loader loop of stage1, the two halves of stage2 and the final checks. The memory is the second
  instance of the byte store contract. The text of \<^verbatim>\<open>boot/stage2.S\<close>, which \<open>copy_offset\<close> searches, is
  an argument, and so is Python's \<open>eval\<close> of the expression found there.
\<close>

section \<open>Definitions\<close>

subsection \<open>Memory\<close>

record Mem =
  buf :: bytes

definition new_mem :: "nat \<Rightarrow> Mem" where
  "new_mem n = \<lparr>buf = zeros n\<rparr>"

definition mem_read :: "Mem \<Rightarrow> nat \<Rightarrow> nat \<Rightarrow> bytes" where
  "mem_read m addr n = bslice addr (addr + n) (buf m)"

definition mem_write :: "Mem \<Rightarrow> nat \<Rightarrow> bytes \<Rightarrow> Mem" where
  "mem_write m addr data = m\<lparr>buf := bslice_set addr (addr + length data) data (buf m)\<rparr>"

definition u8 :: "Mem \<Rightarrow> nat \<Rightarrow> nat res" where
  "u8 m addr = bindE (bidx (buf m) addr) (\<lambda>b. Inr (unat b))"

definition u16 :: "Mem \<Rightarrow> nat \<Rightarrow> nat res" where
  "u16 m addr = unpack_le 2 (buf m) addr"

definition u32 :: "Mem \<Rightarrow> nat \<Rightarrow> nat res" where
  "u32 m addr = unpack_le 4 (buf m) addr"

definition put_u32 :: "Mem \<Rightarrow> nat \<Rightarrow> int \<Rightarrow> Mem res" where
  "put_u32 m addr v = bindE (do_write (PackInto 4 addr v) (buf m)) (\<lambda>b. Inr (m\<lparr>buf := b\<rparr>))"

definition put_u16 :: "Mem \<Rightarrow> nat \<Rightarrow> int \<Rightarrow> Mem res" where
  "put_u16 m addr v = bindE (do_write (PackInto 2 addr v) (buf m)) (\<lambda>b. Inr (m\<lparr>buf := b\<rparr>))"

definition put_u8 :: "Mem \<Rightarrow> nat \<Rightarrow> int \<Rightarrow> Mem res" where
  "put_u8 m addr v = bindE (do_write (SetByte addr (v mod 256)) (buf m)) (\<lambda>b. Inr (m\<lparr>buf := b\<rparr>))"

text \<open>A read at a computed, possibly negative address: both bounds count from the end when negative.\<close>

definition slice_bound :: "'a list \<Rightarrow> int \<Rightarrow> nat" where
  "slice_bound xs i = (if i < 0 then nat (i + int (length xs)) else nat i)"

definition mem_read_int :: "Mem \<Rightarrow> int \<Rightarrow> nat \<Rightarrow> bytes" where
  "mem_read_int m addr n = bslice (slice_bound (buf m) addr) (slice_bound (buf m) (addr + int n)) (buf m)"

text \<open>\<open>LY.QIZO[key]\<close>: the same table again; every key below is in it (\<open>QIZO_keys\<close>).\<close>

definition QIZO :: "string \<Rightarrow> nat" where
  "QIZO key = (case g key of Inr v \<Rightarrow> nat v | Inl e \<Rightarrow> 0)"

subsection \<open>The disk read and stage1\<close>

definition int13_read :: "Mem \<Rightarrow> bytes \<Rightarrow> nat \<Rightarrow> (Mem \<times> nat \<times> nat) res" where
  "int13_read mem disk dap =
     bindE (guardE (dap mod 16 \<noteq> 0) (SystemExit ''model: disk address packet not paragraph aligned'' [])) (\<lambda>_.
     bindE (u8 mem dap) (\<lambda>size_byte.
     bindE (guardE (size_byte \<noteq> 0x10) (SystemExit ''model: disk address packet size byte is not 0x10'' [])) (\<lambda>_.
     bindE (u16 mem (dap + 4)) (\<lambda>reserved_word.
     bindE (guardE (reserved_word \<noteq> 0) (SystemExit ''model: disk address packet reserved word is not zero'' [])) (\<lambda>_.
     bindE (u16 mem (dap + 2)) (\<lambda>count.
     bindE (u16 mem (dap + 4)) (\<lambda>off.
     bindE (u16 mem (dap + 6)) (\<lambda>seg.
     bindE (u32 mem (dap + 8)) (\<lambda>lba.
     let dest = seg * 16 + off in
     bindE (guardE (count = 0 \<or> count > 127) (SystemExit ''model: sector count %d out of range'' [FI (int count)])) (\<lambda>_.
     let src = bslice (lba * SECTOR) (lba * SECTOR + count * SECTOR) disk in
     bindE (guardE (length src \<noteq> count * SECTOR) (SystemExit ''model: disk underrun at lba %d'' [FI (int lba)])) (\<lambda>_.
     Inr (mem_write mem dest src, count, dest))))))))))))"

definition put_dap :: "nat \<Rightarrow> nat \<Rightarrow> Mem \<Rightarrow> Mem res" where
  "put_dap count bx mem =
     (let dap = QIZO ''QIZO_DAP_ADDR''; lin = STAGE2 + bx * SECTOR in
      bindE (put_u8 mem dap 0x10) (\<lambda>m.
      bindE (put_u16 m (dap + 2) (int count)) (\<lambda>m.
      bindE (put_u16 m (dap + 4) (int (lin mod 16))) (\<lambda>m.
      bindE (put_u16 m (dap + 6) (int (lin div 16))) (\<lambda>m.
      bindE (u32 m (QIZO ''QIZO_ARG_ADDR'' + QIZO ''QIZO_ARG_LBA'')) (\<lambda>lba.
      bindE (put_u32 m (dap + 8) (int (lba + bx))) (\<lambda>m.
      put_u32 m (dap + 12) 0)))))))"

lemma int13_read_count: "int13_read mem disk dap = Inr (m, n, dest) \<Longrightarrow> 0 < n"
  by (auto simp: int13_read_def Let_def)

function stage1_loop :: "bytes \<Rightarrow> nat \<Rightarrow> nat \<Rightarrow> Mem \<Rightarrow> (Mem \<times> nat) res" where
  "stage1_loop disk tot bx mem =
     (if bx < tot then
        bindE (put_dap (min 64 (tot - bx)) bx mem) (\<lambda>m.
        bindE (int13_read m disk (QIZO ''QIZO_DAP_ADDR'')) (\<lambda>(m, n, dest).
        bindE (guardE (dest + n * SECTOR > BLOB_PHYS + BLOB_MAX) (SystemExit ''model: read overruns the blob region'' [])) (\<lambda>_.
        stage1_loop disk tot (bx + n) m)))
      else Inr (mem, bx))"
  by pat_completeness auto
termination
  by (relation "measure (\<lambda>(disk, tot, bx, mem). tot - bx)") (auto dest: int13_read_count)

declare stage1_loop.simps [simp del]

definition stage1 :: "Mem \<Rightarrow> bytes \<Rightarrow> nat \<Rightarrow> (Mem \<times> nat) res" where
  "stage1 mem disk drive =
     (let m = mem_write mem 0x7C00 (bslice 0 512 disk) in
      bindE (put_u8 m (QIZO ''QIZO_ARG_ADDR'' + QIZO ''QIZO_ARG_DRIVE'') (int drive)) (\<lambda>m.
      bindE (u16 m (QIZO ''QIZO_ARG_ADDR'' + QIZO ''QIZO_ARG_TOTAL'')) (\<lambda>tot.
      bindE (stage1_loop disk tot 0 m) (\<lambda>(m, bx).
      Inr (m, bx * SECTOR)))))"

subsection \<open>Stage2\<close>

text \<open>The boot information block, one store after the other.\<close>

definition stage2_real :: "Mem \<Rightarrow> Mem res" where
  "stage2_real mem =
     (let arg = QIZO ''QIZO_ARG_ADDR''; bi = QIZO ''QIZO_BOOTINFO'' in
      foldE (\<lambda>store m. store m)
        [\<lambda>m. put_u32 m (bi + QIZO ''QIZO_BI_MAGIC'') 0x00010001,
         \<lambda>m. bindE (u8 m (arg + 0)) (\<lambda>v. put_u8 m (bi + QIZO ''QIZO_BI_DRIVE'') (int v)),
         \<lambda>m. put_u8 m (bi + QIZO ''QIZO_BI_MODE'') 1,
         \<lambda>m. bindE (u32 m (arg + 4)) (\<lambda>v. put_u32 m (bi + QIZO ''QIZO_BI_BLOB_LBA'') (int v)),
         \<lambda>m. bindE (u16 m (arg + 8)) (\<lambda>v. put_u16 m (bi + QIZO ''QIZO_BI_BLOB_SECTORS'') (int v)),
         \<lambda>m. bindE (u16 m (arg + QIZO ''QIZO_ARG_TOTAL'')) (\<lambda>v.
               put_u32 m (bi + QIZO ''QIZO_BI_BLOB_SIZE'') (int (v * SECTOR) - int STAGE2_BYTES)),
         \<lambda>m. put_u32 m (bi + QIZO ''QIZO_BI_BLOB_PHYS'') (int BLOB_PHYS),
         \<lambda>m. bindE (u32 m (arg + 12)) (\<lambda>v. put_u32 m (bi + QIZO ''QIZO_BI_BLOB_CRC'') (int v)),
         \<lambda>m. put_u32 m (bi + QIZO ''QIZO_BI_SCRATCH'') (int SCRATCH),
         \<lambda>m. put_u32 m (bi + QIZO ''QIZO_BI_KTEXT'') (int KTEXT),
         \<lambda>m. put_u32 m (bi + QIZO ''QIZO_BI_FLAGS'') (int (QIZO ''QIZO_BOOTVER'')),
         \<lambda>m. put_u8 m (bi + QIZO ''QIZO_BI_A20'') 1,
         \<lambda>m. put_u8 m (bi + QIZO ''QIZO_BI_LONGMODE'') 1] mem)"

text \<open>
  \<open>re.search\<close> for a literal prefix, a greedy run of characters other than \<open>stop\<close> and a literal
  suffix that starts with \<open>stop\<close>: the run of the leftmost match.
\<close>

fun re_search :: "string \<Rightarrow> char \<Rightarrow> string \<Rightarrow> string \<Rightarrow> string option" where
  "re_search pre stop post [] = None"
| "re_search pre stop post (c # s) =
     (let r = drop (length pre) (c # s) in
      if take (length pre) (c # s) = pre \<and> take (length post) (dropWhile (\<lambda>x. x \<noteq> stop) r) = post
      then Some (takeWhile (\<lambda>x. x \<noteq> stop) r)
      else re_search pre stop post s)"

definition copy_offset :: "((string \<times> int) list \<Rightarrow> string \<Rightarrow> int res) \<Rightarrow> string \<Rightarrow> int res" where
  "copy_offset ev src =
     bindE (case re_search ''addl $('' (CHR '')'') ''), %esi'' src of
              Some e \<Rightarrow> Inr e
            | None \<Rightarrow>
                (case re_search ''addl $QIZO_QIZOK_HDR'' (CHR '','') '', %esi'' src of
                   Some e \<Rightarrow> Inr (''QIZO_QIZOK_HDR'' @ e)
                 | None \<Rightarrow> Inl (SystemExit ''model: cannot find where stage2 takes the kernel image from'' []))) (\<lambda>e.
     ev LAYOUT (map (\<lambda>c. if c = CHR '' '' then CHR ''+'' else c) (strip_ws e)))"

definition stage2_pm32 ::
    "((string \<times> int) list \<Rightarrow> string \<Rightarrow> int res) \<Rightarrow> string \<Rightarrow> Mem \<Rightarrow> (Mem \<times> nat \<times> nat \<times> nat) res" where
  "stage2_pm32 ev src mem =
     (let bi = QIZO ''QIZO_BOOTINFO'' in
      bindE (u32 mem (bi + QIZO ''QIZO_BI_BLOB_SIZE'')) (\<lambda>blob_size.
      let blob = mem_read mem BLOB_PHYS blob_size in
      bindE (u32 mem (bi + QIZO ''QIZO_BI_BLOB_CRC'')) (\<lambda>crc.
      bindE (guardE (checksum blob \<noteq> crc) (SystemExit ''model: stage2 adler mismatch'' [])) (\<lambda>_.
      bindE (decompress blob) (\<lambda>out.
      let mem = mem_write mem SCRATCH out; hdr = mem_read mem SCRATCH 16 in
      bindE (guardE (length hdr \<noteq> 16) StructError) (\<lambda>_.
      bindE (unpack_le 4 hdr 0) (\<lambda>magic.
      bindE (unpack_le 4 hdr 4) (\<lambda>kl.
      bindE (unpack_le 4 hdr 8) (\<lambda>entry.
      bindE (unpack_le 4 hdr 12) (\<lambda>tot.
      bindE (guardE (magic \<noteq> QIZOK_MAGIC) (SystemExit ''model: module magic missing'' [])) (\<lambda>_.
      bindE (guardE (kl > KERNEL_MAX \<or> tot > KERNEL_MAX \<or> entry \<ge> kl)
               (SystemExit ''model: module header out of range'' [])) (\<lambda>_.
      bindE (guardE (kl + QIZOK_HDR \<noteq> length out) (SystemExit ''model: decompressed size mismatch'' [])) (\<lambda>_.
      bindE (copy_offset ev src) (\<lambda>ofs.
      let img = mem_read_int mem (int SCRATCH + ofs) kl;
          mem = mem_write mem KTEXT img;
          mem = mem_write mem (KTEXT + kl) (zeros (tot - kl)) in
      Inr (mem, kl, entry, tot)))))))))))))))"

subsection \<open>The run and its checks\<close>

definition regions :: "nat \<Rightarrow> nat \<Rightarrow> (string \<times> nat \<times> nat) list" where
  "regions kl tot =
     [(''stage2+blob'', STAGE2, BLOB_PHYS + BLOB_MAX),
      (''e820'', E820_BUF, E820_BUF + E820_MAX * 24 + 8),
      (''pmstack'', PM_STACK - 0x1000, PM_STACK),
      (''bootinfo'', QIZO ''QIZO_BOOTINFO'', QIZO ''QIZO_BOOTINFO'' + BOOTINFO_SIZE),
      (''kernel'', KTEXT, KTEXT + max kl tot),
      (''scratch'', SCRATCH, SCRATCH + KERNEL_MAX + QIZOK_HDR),
      (''pages'', PAGE_PML4, PAGE_PDT + 4 * 0x1000),
      (''fault idt'', IDT_BOOT, IDT_BOOT + 32 * 16)]"

fun check_regions :: "(string \<times> nat \<times> nat) list \<Rightarrow> unit res" where
  "check_regions (a # b # rs) =
     bindE (guardE (fst (snd b) < snd (snd a))
       (SystemExit ''model: %s [%x,%x) overlaps %s [%x,%x)''
          [FS (fst a), FI (int (fst (snd a))), FI (int (snd (snd a))), FS (fst b), FI (int (fst (snd b))), FI (int (snd (snd b)))])) (\<lambda>_.
     check_regions (b # rs))"
| "check_regions rs = Inr ()"

text \<open>The boot itself: the memory it leaves and the numbers of the module.\<close>

definition boot :: "((string \<times> int) list \<Rightarrow> string \<Rightarrow> int res) \<Rightarrow> string \<Rightarrow> bytes \<Rightarrow> (Mem \<times> nat \<times> nat \<times> nat) res" where
  "boot ev src disk =
     bindE (stage1 (new_mem 0x4000000) disk 0x80) (\<lambda>(mem, sectors).
     bindE (guardE (sectors \<le> STAGE2_BYTES) (SystemExit ''model: nothing to decompress'' [])) (\<lambda>_.
     bindE (stage2_real mem) (\<lambda>mem.
     stage2_pm32 ev src mem)))"

definition first_diff :: "bytes \<Rightarrow> bytes \<Rightarrow> nat res" where
  "first_diff got kern =
     (if length got = length kern then
        (case find (\<lambda>i. got ! i \<noteq> kern ! i) [0..<length kern] of Some i \<Rightarrow> Inr i | None \<Rightarrow> Inl StopIteration)
      else Inr (min (length got) (length kern)))"

definition bootmodel :: "((string \<times> int) list \<Rightarrow> string \<Rightarrow> int res) \<Rightarrow> string \<Rightarrow> bytes \<Rightarrow> bytes \<Rightarrow> unit res" where
  "bootmodel ev src disk kern =
     bindE (boot ev src disk) (\<lambda>(mem, kl, entry, tot).
     let got = mem_read mem KTEXT kl in
     bindE (if got \<noteq> kern then
              bindE (first_diff got kern) (\<lambda>pos.
                Inl (SystemExit ''model: kernel at 0x%x differs at +%d'' [FI (int KTEXT), FI (int pos)]))
            else Inr ()) (\<lambda>_.
     bindE (u8 mem KTEXT) (\<lambda>b.
     bindE (bidx kern 0) (\<lambda>k0.
     bindE (guardE (b \<noteq> unat k0) (SystemExit ''model: entry byte mismatch'' [])) (\<lambda>_.
     check_regions (sort_key (\<lambda>r. fst (snd r)) (regions kl tot)))))))"


section \<open>The memory as a byte store\<close>

abbreviation msize :: "Mem \<Rightarrow> nat" where
  "msize m \<equiv> length (buf m)"

interpretation mm: byte_store mem_read mem_write msize
proof unfold_locales
  fix a c n :: nat and d :: bytes and m :: Mem
  assume a: "a + length d \<le> msize m"
  then show "msize (mem_write m a d) = msize m" by (simp add: mem_write_def flip: blit_def)
  show "mem_read (mem_write m a d) a (length d) = d"
    using buf.rd_wr_same [OF a] by (simp add: mem_read_def mem_write_def flip: blit_def)
  assume "c + n \<le> a \<or> a + length d \<le> c"
  then show "mem_read (mem_write m a d) c n = mem_read m c n"
    using buf.rd_wr_disj [OF a] by (simp add: mem_read_def mem_write_def flip: blit_def)
next
  fix k n l a :: nat and m :: Mem
  assume "k + n \<le> l"
  then show "mem_read m (a + k) n = take n (drop k (mem_read m a l))"
    unfolding mem_read_def by (rule buf.rd_window)
qed

lemma mem_get:
  "a < msize m \<Longrightarrow> u8 m a = Inr (le_nat (mem_read m a (Suc 0)))"
  "a + 2 \<le> msize m \<Longrightarrow> u16 m a = Inr (le_nat (mem_read m a 2))"
  "a + 4 \<le> msize m \<Longrightarrow> u32 m a = Inr (le_nat (mem_read m a 4))"
  by (simp_all add: u8_def u16_def u32_def unpack_le_def mem_read_def bidx_def bslice_def take_Suc_conv_app_nth hd_drop_conv_nth flip: Cons_nth_drop_Suc)

lemma le_bytes_1: "le_bytes (Suc 0) v = [of_nat v]"
  by simp

lemma mem_put:
  "a < msize m \<Longrightarrow> 0 \<le> v \<Longrightarrow> v < 256 \<Longrightarrow> put_u8 m a v = Inr (mem_write m a (le_bytes 1 (nat v)))"
  "a + 2 \<le> msize m \<Longrightarrow> 0 \<le> v \<Longrightarrow> v < 65536 \<Longrightarrow> put_u16 m a v = Inr (mem_write m a (le_bytes 2 (nat v)))"
  "a + 4 \<le> msize m \<Longrightarrow> 0 \<le> v \<Longrightarrow> v < 2 ^ 32 \<Longrightarrow> put_u32 m a v = Inr (mem_write m a (le_bytes 4 (nat v)))"
  by (simp_all add: put_u8_def put_u16_def put_u32_def mem_write_def blit_def bslice_set_def upd_conv_take_nth_drop
        le_bytes_1 pack_le_def of_nat_nat del: le_bytes.simps)

lemma rd_same: "n = length d \<Longrightarrow> a + n \<le> msize m \<Longrightarrow> mem_read (mem_write m a d) a n = d"
  using mm.rd_wr_same by simp

lemmas mem_simps = mem_get mem_put mm.sz_wr mm.rd_wr_disj rd_same le_nat_le_bytes

text \<open>The keys of the table the model looks up, with their values.\<close>

lemma QIZO_keys:
  "map (map_of LAYOUT)
    [''QIZO_ARG_ADDR'', ''QIZO_ARG_DRIVE'', ''QIZO_ARG_LBA'', ''QIZO_ARG_TOTAL'', ''QIZO_DAP_ADDR'',
     ''QIZO_BOOTINFO'', ''QIZO_BI_MAGIC'', ''QIZO_BI_DRIVE'', ''QIZO_BI_MODE'', ''QIZO_BI_BLOB_LBA'',
     ''QIZO_BI_BLOB_SECTORS'', ''QIZO_BI_BLOB_SIZE'', ''QIZO_BI_BLOB_PHYS'', ''QIZO_BI_BLOB_CRC'', ''QIZO_BI_SCRATCH'',
     ''QIZO_BI_KTEXT'', ''QIZO_BI_FLAGS'', ''QIZO_BOOTVER'', ''QIZO_BI_A20'', ''QIZO_BI_LONGMODE''] =
   map Some [32208, 0, 4, 8, 32256, 65536, 0, 4, 5, 8, 12, 24, 20, 16, 28, 48, 68, 256, 89, 88]"
  by code_simp

lemma QIZO_values:
  "QIZO ''QIZO_ARG_ADDR'' = 32208" "QIZO ''QIZO_ARG_DRIVE'' = 0" "QIZO ''QIZO_ARG_LBA'' = 4" "QIZO ''QIZO_ARG_TOTAL'' = 8"
  "QIZO ''QIZO_DAP_ADDR'' = 32256" "QIZO ''QIZO_BOOTINFO'' = 65536" "QIZO ''QIZO_BI_MAGIC'' = 0" "QIZO ''QIZO_BI_DRIVE'' = 4"
  "QIZO ''QIZO_BI_MODE'' = 5" "QIZO ''QIZO_BI_BLOB_LBA'' = 8" "QIZO ''QIZO_BI_BLOB_SECTORS'' = 12" "QIZO ''QIZO_BI_BLOB_SIZE'' = 24"
  "QIZO ''QIZO_BI_BLOB_PHYS'' = 20" "QIZO ''QIZO_BI_BLOB_CRC'' = 16" "QIZO ''QIZO_BI_SCRATCH'' = 28" "QIZO ''QIZO_BI_KTEXT'' = 48"
  "QIZO ''QIZO_BI_FLAGS'' = 68" "QIZO ''QIZO_BOOTVER'' = 256" "QIZO ''QIZO_BI_A20'' = 89" "QIZO ''QIZO_BI_LONGMODE'' = 88"
  using QIZO_keys by (simp_all add: QIZO_def g_def)


section \<open>Stage1 loads stage2 and the blob\<close>

lemma put_dap_ok:
  assumes "msize m = 67108864" "count < 65536" "bx \<le> 1024" "lba = le_nat (mem_read m 32212 4)" "lba + bx < 2 ^ 32"
  shows "put_dap count bx m = Inr (mm.wr_list [(32256, le_bytes 1 16), (32258, le_bytes 2 count), (32260, le_bytes 2 0),
     (32262, le_bytes 2 (8192 + bx * 32)), (32264, le_bytes 4 (lba + bx)), (32268, le_bytes 4 0)] m)"
proof -
  have lin: "(131072 + bx * 512) mod 16 = 0" "(131072 + bx * 512) div 16 = 8192 + bx * 32" by presburger+
  have seg: "nat (8192 + int bx * 32) = 8192 + bx * 32" by (simp add: nat_add_distrib nat_mult_distrib)
  show ?thesis
    using assms
    by (simp add: put_dap_def Let_def QIZO_values STAGE2_def SECTOR_def lin seg mem_simps nat_int_add del: le_bytes.simps)
qed


text \<open>What the loop keeps: the argument block and the sectors read so far.\<close>

definition loaded :: "bytes \<Rightarrow> nat \<Rightarrow> bytes \<Rightarrow> nat \<Rightarrow> Mem \<Rightarrow> bool" where
  "loaded disk lba args bx m \<longleftrightarrow> msize m = 67108864 \<and> mem_read m 32208 20 = args \<and>
     mem_read m 131072 (bx * 512) = bslice (lba * 512) ((lba + bx) * 512) disk"

lemma load_step:
  assumes l: "loaded disk lba args bx m" and a: "lba = le_nat (take 4 (drop 4 args))"
    and c: "0 < count" "count \<le> 64" "bx + count \<le> 1024" and d: "(lba + bx + count) * 512 \<le> length disk" "lba < 2 ^ 31"
  obtains m1 m2 where "put_dap count bx m = Inr m1" "int13_read m1 disk 32256 = Inr (m2, count, 131072 + bx * 512)"
    "loaded disk lba args (bx + count) m2"
proof -
  let ?ws = "[(32256, le_bytes 1 16), (32258, le_bytes 2 count), (32260, le_bytes 2 0),
     (32262, le_bytes 2 (8192 + bx * 32)), (32264, le_bytes 4 (lba + bx)), (32268, le_bytes 4 0)]"
  have sz: "msize m = 67108864" and ar: "mem_read m 32208 20 = args"
    and st: "mem_read m 131072 (bx * 512) = bslice (lba * 512) ((lba + bx) * 512) disk"
    using l unfolding loaded_def by blast+
  have lba: "lba = le_nat (mem_read m 32212 4)" using a mm.rd_window [of 4 4 20 m 32208] ar by simp
  define m1 where "m1 = mm.wr_list ?ws m"
  have s1: "msize m1 = 67108864" unfolding m1_def by (subst mm.sz_wr_list) (simp_all add: sz)
  have f1: "mem_read m1 x n = mem_read m x n" if "x + n \<le> 32256 \<or> 32272 \<le> x" for x n
    unfolding m1_def using that by (intro mm.rd_wr_list_frame) (auto simp: sz)
  have put: "put_dap count bx m = Inr m1"
    unfolding m1_def using c d by (intro put_dap_ok [OF sz _ _ lba]) simp_all
  have r: "le_nat (mem_read m1 32256 (Suc 0)) = 16" "le_nat (mem_read m1 32258 2) = count" "le_nat (mem_read m1 32260 2) = 0"
    "le_nat (mem_read m1 32262 2) = 8192 + bx * 32" "le_nat (mem_read m1 32264 4) = lba + bx"
    unfolding m1_def using c d sz by (simp_all add: mem_simps del: le_bytes.simps)
  let ?src = "bslice ((lba + bx) * 512) ((lba + bx) * 512 + count * 512) disk"
  let ?a = "131072 + bx * 512"
  have ls: "length ?src = count * 512" using d by (simp add: add_mult_distrib)
  define m2 where "m2 = mem_write m1 ?a ?src"
  have int13: "int13_read m1 disk 32256 = Inr (m2, count, ?a)"
    using c s1 ls by (simp add: int13_read_def mem_get r SECTOR_def m2_def Let_def mult.commute [of bx 512] del: length_bslice)
  have a1: "?a + length ?src \<le> msize m1" unfolding ls s1 using c(3) by linarith
  have s2: "msize m2 = 67108864" unfolding m2_def using mm.sz_wr [OF a1] s1 by simp
  have f2: "mem_read m2 x n = mem_read m x n" if "x + n \<le> ?a" "x + n \<le> 32256 \<or> 32272 \<le> x" for x n
    unfolding m2_def using mm.rd_wr_disj [OF a1, of x n] f1 [OF that(2)] that(1) by simp
  have "mem_read m2 131072 ((bx + count) * 512) = mem_read m2 131072 (bx * 512) @ mem_read m2 ?a (count * 512)"
    using mm.rd_append [of m2 131072 "bx * 512" "count * 512"] by (simp add: add_mult_distrib)
  also have "\<dots> = bslice (lba * 512) ((lba + bx) * 512) disk @ ?src"
    using st f2 [of 131072 "bx * 512"] rd_same [of "count * 512" ?src ?a m1] ls a1 unfolding m2_def by simp
  also have "\<dots> = bslice (lba * 512) ((lba + (bx + count)) * 512) disk"
    using bslice_split [of "lba * 512" "(lba + bx) * 512" "(lba + (bx + count)) * 512" disk] by (simp add: add_mult_distrib add.assoc)
  finally have "loaded disk lba args (bx + count) m2"
    unfolding loaded_def using s2 ar f2 [of 32208 20] by simp
  with put int13 show thesis by (rule that)
qed


lemma stage1_loop_ok:
  assumes "loaded disk lba args bx m" "lba = le_nat (take 4 (drop 4 args))" "bx \<le> tot" "tot \<le> 256"
    and "(lba + tot) * 512 \<le> length disk" "lba < 2 ^ 31"
  shows "\<exists>m'. stage1_loop disk tot bx m = Inr (m', tot) \<and> loaded disk lba args tot m'"
  using assms(1,3)
proof (induction "tot - bx" arbitrary: bx m rule: less_induct)
  case less
  show ?case
  proof (cases "bx < tot")
    case True
    define c where "c = min 64 (tot - bx)"
    have c: "0 < c" "c \<le> 64" "bx + c \<le> tot" using True by (auto simp: c_def)
    then have d: "bx + c \<le> 1024" "(lba + bx + c) * 512 \<le> length disk" using assms(4,5) by auto
    obtain m1 m2 where s: "put_dap c bx m = Inr m1" "int13_read m1 disk 32256 = Inr (m2, c, 131072 + bx * 512)"
      "loaded disk lba args (bx + c) m2"
      using load_step [OF less.prems(1) assms(2) c(1,2) d assms(6)] by blast
    have "stage1_loop disk tot bx m = stage1_loop disk tot (bx + c) m2"
      using True s(1,2) c(3) assms(4)
      by (simp add: stage1_loop.simps [of disk tot bx] QIZO_values SECTOR_def BLOB_PHYS_def BLOB_MAX_def flip: c_def)
    then show ?thesis using less.hyps [OF _ s(3) c(3)] c by simp
  next
    case False
    then have "bx = tot" using less.prems(2) by simp
    then show ?thesis using less.prems(1) by (simp add: stage1_loop.simps [of disk tot tot])
  qed
qed

text \<open>The argument block as stage1 leaves it: the template's, with the boot drive in front.\<close>

definition arg_block :: "bytes \<Rightarrow> bytes" where
  "arg_block disk = 0x80 # bslice 465 484 disk"

lemma arg_block_fields:
  assumes "512 \<le> length disk"
  shows "unpack_le 4 disk 468 = Inr (le_nat (take 4 (drop 4 (arg_block disk))))"
    "unpack_le 2 disk 472 = Inr (le_nat (take 2 (drop 8 (arg_block disk))))"
    "unpack_le 4 disk 476 = Inr (le_nat (take 4 (drop 12 (arg_block disk))))"
  using assms by (simp_all add: arg_block_def unpack_le_def bslice_def drop_take drop_Cons')

lemma stage1_start:
  assumes "512 \<le> length disk" "unpack_le 4 disk 468 = Inr lba" "unpack_le 2 disk 472 = Inr tot"
  obtains m where "loaded disk lba (arg_block disk) 0 m" "lba = le_nat (take 4 (drop 4 (arg_block disk)))"
    "stage1 (new_mem 0x4000000) disk 0x80 = bindE (stage1_loop disk tot 0 m) (\<lambda>(m, bx). Inr (m, bx * 512))"
    "put_u8 (mem_write (new_mem 0x4000000) 0x7C00 (bslice 0 512 disk)) (QIZO ''QIZO_ARG_ADDR'' + QIZO ''QIZO_ARG_DRIVE'') 0x80 = Inr m"
proof -
  let ?s = "bslice 0 512 disk"
  have ls: "length ?s = 512" using assms(1) by simp
  define m0 where "m0 = mem_write (new_mem 0x4000000) 31744 ?s"
  have s0: "msize m0 = 67108864" unfolding m0_def using mm.sz_wr [of 31744 ?s "new_mem 0x4000000"] ls by (simp add: new_mem_def)
  have w: "mem_read m0 (31744 + k) n = bslice k (k + n) disk" if "k + n \<le> 512" for k n
    unfolding m0_def using that mm.rd_wr_window [of 31744 ?s "new_mem 0x4000000" k n] ls
    by (simp add: new_mem_def bslice_def drop_take)
  define m1 where "m1 = mem_write m0 32208 [0x80]"
  have s1: "msize m1 = 67108864" unfolding m1_def using mm.sz_wr [of 32208 "[0x80]" m0] s0 by simp
  have "mem_read m1 32208 20 = mem_read m1 32208 1 @ mem_read m1 32209 19" using mm.rd_append [of m1 32208 1 19] by simp
  also have "\<dots> = arg_block disk"
    unfolding m1_def using mm.rd_wr_same [of 32208 "[0x80]" m0] mm.rd_wr_disj [of 32208 "[0x80]" m0 32209 19] s0 w [of 465 19]
    by (simp add: arg_block_def)
  finally have ar: "mem_read m1 32208 20 = arg_block disk" .
  have lba: "lba = le_nat (take 4 (drop 4 (arg_block disk)))" and tot: "tot = le_nat (take 2 (drop 8 (arg_block disk)))"
    using arg_block_fields [OF assms(1)] assms(2,3) by simp_all
  have u: "u16 m1 32216 = Inr tot" using mm.rd_window [of 8 2 20 m1 32208] ar tot s1 by (simp add: mem_get)
  have p: "put_u8 m0 32208 128 = Inr m1" using s0 by (simp add: mem_put m1_def)
  have "loaded disk lba (arg_block disk) 0 m1" using s1 ar by (simp add: loaded_def mem_read_def)
  moreover have "stage1 (new_mem 0x4000000) disk 0x80 = bindE (stage1_loop disk tot 0 m1) (\<lambda>(m, bx). Inr (m, bx * 512))"
    using u p by (simp add: stage1_def QIZO_values Let_def SECTOR_def flip: m0_def)
  moreover have "put_u8 (mem_write (new_mem 0x4000000) 0x7C00 (bslice 0 512 disk)) (QIZO ''QIZO_ARG_ADDR'' + QIZO ''QIZO_ARG_DRIVE'') 0x80 = Inr m1"
    using p by (simp add: QIZO_values flip: m0_def)
  ultimately show thesis using lba that by blast
qed

lemma stage1_ok:
  assumes "512 \<le> length disk" "unpack_le 4 disk 468 = Inr lba" "unpack_le 2 disk 472 = Inr tot" "tot \<le> 256"
    and "(lba + tot) * 512 \<le> length disk" "lba < 2 ^ 31"
  shows "\<exists>m. stage1 (new_mem 0x4000000) disk 0x80 = Inr (m, tot * 512) \<and> loaded disk lba (arg_block disk) tot m"
proof -
  obtain m where m: "loaded disk lba (arg_block disk) 0 m" "lba = le_nat (take 4 (drop 4 (arg_block disk)))"
    "stage1 (new_mem 0x4000000) disk 0x80 = bindE (stage1_loop disk tot 0 m) (\<lambda>(m, bx). Inr (m, bx * 512))"
    using stage1_start [OF assms(1-3)] by blast
  show ?thesis using stage1_loop_ok [OF m(1,2) _ assms(4-6)] m(3) by auto
qed

section \<open>The loader as a machine\<close>

text \<open>
  One turn of the loop of stage1 as a step of a machine whose state is the number of sectors read and the memory. The loop
  runs the machine to a state with no step, \<open>stage1_loop_runs\<close>; on a disk that holds the span every reachable state is
  \<open>loaded\<close>, by rule induction on the steps.
\<close>

inductive dap_read :: "bytes \<Rightarrow> nat \<Rightarrow> nat \<times> Mem \<Rightarrow> nat \<times> Mem \<Rightarrow> bool" for disk tot where
  dap_read: "\<lbrakk>bx < tot; put_dap (min 64 (tot - bx)) bx m = Inr m1;
     int13_read m1 disk (QIZO ''QIZO_DAP_ADDR'') = Inr (m2, n, dest); dest + n * SECTOR \<le> BLOB_PHYS + BLOB_MAX\<rbrakk>
   \<Longrightarrow> dap_read disk tot (bx, m) (bx + n, m2)"

inductive_cases dap_readE: "dap_read disk tot (bx, m) s"

lemma dap_read_deterministic: "dap_read disk tot s a \<Longrightarrow> dap_read disk tot s b \<Longrightarrow> a = b"
  by (auto elim!: dap_read.cases)

lemma dap_read_loop: "dap_read disk tot (bx, m) (bx', m') \<Longrightarrow> stage1_loop disk tot bx m = stage1_loop disk tot bx' m'"
  by (auto elim!: dap_readE simp: stage1_loop.simps [of disk tot bx m])

lemma dap_reads_loop: "(dap_read disk tot)\<^sup>*\<^sup>* s t \<Longrightarrow> stage1_loop disk tot (fst s) (snd s) = stage1_loop disk tot (fst t) (snd t)"
  by (induction rule: rtranclp_induct) (auto dest: dap_read_loop)

lemma stage1_loop_runs:
  "stage1_loop disk tot bx m = Inr (m', bx') \<longleftrightarrow> (dap_read disk tot)\<^sup>*\<^sup>* (bx, m) (bx', m') \<and> tot \<le> bx'"
proof
  show "(dap_read disk tot)\<^sup>*\<^sup>* (bx, m) (bx', m') \<and> tot \<le> bx'" if "stage1_loop disk tot bx m = Inr (m', bx')"
    using that
  proof (induction disk tot bx m rule: stage1_loop.induct)
    case (1 disk tot bx m)
    show ?case
    proof (cases "bx < tot")
      case True
      then obtain m1 m2 n dest where s: "put_dap (min 64 (tot - bx)) bx m = Inr m1"
        "int13_read m1 disk (QIZO ''QIZO_DAP_ADDR'') = Inr (m2, n, dest)" "dest + n * SECTOR \<le> BLOB_PHYS + BLOB_MAX"
        "stage1_loop disk tot (bx + n) m2 = Inr (m', bx')"
        using 1(2) by (auto simp: stage1_loop.simps [of disk tot bx m] not_less)
      have "dap_read disk tot (bx, m) (bx + n, m2)" by (rule dap_read [OF True s(1-3)])
      moreover have "(dap_read disk tot)\<^sup>*\<^sup>* (bx + n, m2) (bx', m') \<and> tot \<le> bx'"
        using 1(1) [OF True s(1,2) refl refl _ s(4)] s(3) by simp
      ultimately show ?thesis by (meson converse_rtranclp_into_rtranclp)
    next
      case False
      then show ?thesis using 1(2) by (simp add: stage1_loop.simps [of disk tot bx m])
    qed
  qed
  show "stage1_loop disk tot bx m = Inr (m', bx')" if "(dap_read disk tot)\<^sup>*\<^sup>* (bx, m) (bx', m') \<and> tot \<le> bx'"
    using dap_reads_loop [of disk tot "(bx, m)" "(bx', m')"] that by (simp add: stage1_loop.simps [of disk tot bx'])
qed

lemma dap_read_progress:
  assumes "loaded disk lba args bx m" "lba = le_nat (take 4 (drop 4 args))" "bx < tot" "tot \<le> 256"
    and "(lba + tot) * 512 \<le> length disk" "lba < 2 ^ 31"
  shows "\<exists>m'. dap_read disk tot (bx, m) (bx + min 64 (tot - bx), m') \<and> loaded disk lba args (bx + min 64 (tot - bx)) m'"
proof -
  define c where "c = min 64 (tot - bx)"
  have c: "0 < c" "c \<le> 64" "bx + c \<le> 1024" "bx + c \<le> tot" "(lba + bx + c) * 512 \<le> length disk" using assms(3-5) by (auto simp: c_def)
  obtain m1 m2 where s: "put_dap c bx m = Inr m1" "int13_read m1 disk 32256 = Inr (m2, c, 131072 + bx * 512)"
    "loaded disk lba args (bx + c) m2"
    using load_step [OF assms(1,2) c(1-3,5) assms(6)] by blast
  have "131072 + bx * 512 + c * SECTOR \<le> BLOB_PHYS + BLOB_MAX"
    using c(4) assms(4) by (simp add: SECTOR_def BLOB_PHYS_def BLOB_MAX_def)
  then have "dap_read disk tot (bx, m) (bx + c, m2)"
    using s(1,2) assms(3) by (intro dap_read) (simp_all add: QIZO_values flip: c_def)
  then show ?thesis using s(3) unfolding c_def by blast
qed

definition reads_inv :: "bytes \<Rightarrow> nat \<Rightarrow> bytes \<Rightarrow> nat \<Rightarrow> nat \<times> Mem \<Rightarrow> bool" where
  "reads_inv disk lba args tot s \<longleftrightarrow> loaded disk lba args (fst s) (snd s) \<and> fst s \<le> tot \<and> (fst s < tot \<longrightarrow> 64 dvd fst s)"

lemma reads_inv_step:
  assumes "reads_inv disk lba args tot s" "dap_read disk tot s t"
    and "lba = le_nat (take 4 (drop 4 args))" "tot \<le> 256" "(lba + tot) * 512 \<le> length disk" "lba < 2 ^ 31"
  shows "reads_inv disk lba args tot t"
proof -
  obtain bx m where s: "s = (bx, m)" by fastforce
  have i: "loaded disk lba args bx m" "bx < tot" "64 dvd bx"
    using assms(1,2) unfolding s by (auto simp: reads_inv_def elim: dap_readE)
  obtain m' where m': "dap_read disk tot s (bx + min 64 (tot - bx), m')" "loaded disk lba args (bx + min 64 (tot - bx)) m'"
    using dap_read_progress [OF i(1) assms(3) i(2) assms(4-6)] s by blast
  have "t = (bx + min 64 (tot - bx), m')" by (rule dap_read_deterministic [OF assms(2) m'(1)])
  then show ?thesis using m'(2) i by (auto simp: reads_inv_def min_def)
qed

lemma reads_inv_reachable:
  assumes "(dap_read disk tot)\<^sup>*\<^sup>* s t" "reads_inv disk lba args tot s"
    and "lba = le_nat (take 4 (drop 4 args))" "tot \<le> 256" "(lba + tot) * 512 \<le> length disk" "lba < 2 ^ 31"
  shows "reads_inv disk lba args tot t"
  using assms(1) by (induction rule: rtranclp_induct) (use assms(2) reads_inv_step [OF _ _ assms(3-6)] in blast)+

lemma reads_count:
  assumes "reads_inv disk lba args tot (0, m)"
    and "lba = le_nat (take 4 (drop 4 args))" "tot \<le> 256" "(lba + tot) * 512 \<le> length disk" "lba < 2 ^ 31"
  shows "64 * k < tot + 64 \<Longrightarrow> \<exists>m'. (dap_read disk tot ^^ k) (0, m) (min tot (64 * k), m') \<and> reads_inv disk lba args tot (min tot (64 * k), m')"
proof (induction k)
  case (Suc k)
  then obtain m' where m': "(dap_read disk tot ^^ k) (0, m) (64 * k, m')" "reads_inv disk lba args tot (64 * k, m')" by auto
  have bx: "64 * k < tot" using Suc.prems by simp
  obtain m'' where "dap_read disk tot (64 * k, m') (64 * k + min 64 (tot - 64 * k), m'')"
    using dap_read_progress [of disk lba args "64 * k" m' tot] m'(2) bx assms(2-5) by (auto simp: reads_inv_def)
  moreover have "64 * k + min 64 (tot - 64 * k) = min tot (64 * Suc k)" using bx by simp
  ultimately have s: "dap_read disk tot (64 * k, m') (min tot (64 * Suc k), m'')" by simp
  have "reads_inv disk lba args tot (min tot (64 * Suc k), m'')" by (rule reads_inv_step [OF m'(2) s assms(2-5)])
  then show ?case using m'(1) s by (auto intro: relpowp_Suc_I)
qed (use assms(1) in auto)

section \<open>Stage2 records the boot and copies the kernel\<close>

definition info_writes :: "nat \<Rightarrow> nat \<Rightarrow> nat \<Rightarrow> (nat \<times> bytes) list" where
  "info_writes lba tot crc =
     [(65536, le_bytes 4 0x00010001), (65540, le_bytes 1 0x80), (65541, le_bytes 1 1), (65544, le_bytes 4 lba),
      (65548, le_bytes 2 tot), (65560, le_bytes 4 (tot * 512 - 4096)), (65556, le_bytes 4 135168), (65552, le_bytes 4 crc),
      (65564, le_bytes 4 1572864), (65584, le_bytes 4 1048576), (65604, le_bytes 4 256), (65625, le_bytes 1 1), (65624, le_bytes 1 1)]"

lemma stage2_real_ok:
  assumes "msize m = 67108864" "le_nat (mem_read m 32208 (Suc 0)) = 128" "le_nat (mem_read m 32212 4) = lba"
    "le_nat (mem_read m 32216 2) = tot" "le_nat (mem_read m 32220 4) = crc"
    "lba < 2 ^ 32" "8 \<le> tot" "tot \<le> 256" "crc < 2 ^ 32"
  shows "stage2_real m = Inr (mm.wr_list (info_writes lba tot crc) m)"
proof -
  have n: "nat (int tot * 512 - 4096) = tot * 512 - 4096" by simp
  show ?thesis
    using assms
    by (simp add: stage2_real_def info_writes_def Let_def QIZO_values SECTOR_def STAGE2_BYTES_def BLOB_PHYS_def SCRATCH_def KTEXT_def
          n mem_simps del: le_bytes.simps)
qed


lemma info_state:
  assumes "msize m = 67108864" "lba < 2 ^ 32" "8 \<le> tot" "tot \<le> 256" "crc < 2 ^ 32"
  defines "m' \<equiv> mm.wr_list (info_writes lba tot crc) m"
  shows "msize m' = 67108864" "u32 m' 65560 = Inr (tot * 512 - 4096)" "u32 m' 65552 = Inr crc"
    "u32 m' 65536 = Inr 0x00010001" "u8 m' 65540 = Inr 0x80" "u32 m' 65556 = Inr 135168" "u32 m' 65584 = Inr 1048576"
    "\<And>x n. x + n \<le> 65536 \<or> 65626 \<le> x \<Longrightarrow> mem_read m' x n = mem_read m x n"
proof -
  show s: "msize m' = 67108864"
    unfolding m'_def by (subst mm.sz_wr_list) (simp_all add: assms(1) info_writes_def)
  have r: "mem_read m' 65560 4 = le_bytes 4 (tot * 512 - 4096)" "mem_read m' 65552 4 = le_bytes 4 crc"
    "mem_read m' 65536 4 = le_bytes 4 0x00010001" "mem_read m' 65540 (Suc 0) = le_bytes (Suc 0) 0x80"
    "mem_read m' 65556 4 = le_bytes 4 135168" "mem_read m' 65584 4 = le_bytes 4 1048576"
    unfolding m'_def using assms(1) by (simp_all add: info_writes_def mem_simps del: le_bytes.simps)
  show "u32 m' 65560 = Inr (tot * 512 - 4096)" "u32 m' 65552 = Inr crc"
    "u32 m' 65536 = Inr 0x00010001" "u8 m' 65540 = Inr 0x80" "u32 m' 65556 = Inr 135168" "u32 m' 65584 = Inr 1048576"
    using assms(2-5) by (simp_all add: mem_get s r le_nat_le_bytes del: le_bytes.simps)
  show "mem_read m' x n = mem_read m x n" if "x + n \<le> 65536 \<or> 65626 \<le> x" for x n
    unfolding m'_def using that by (intro mm.rd_wr_list_frame) (auto simp: info_writes_def assms(1))
qed

lemma unpack_le_take: "k + 4 \<le> n \<Longrightarrow> n \<le> length xs \<Longrightarrow> unpack_le 4 (take n xs) k = unpack_le 4 xs k"
  by (simp add: unpack_le_def bslice_def drop_take)

lemma mem_read_int_pos: "0 \<le> i \<Longrightarrow> mem_read_int m i n = mem_read m (nat i) n"
  by (simp add: mem_read_int_def mem_read_def slice_bound_def nat_add_distrib)

lemma stage2_pm32_ok:
  assumes m: "msize m = 67108864" "u32 m 65560 = Inr (length blob)" "u32 m 65552 = Inr (checksum blob)"
      "mem_read m 135168 (length blob) = blob"
    and out: "decompress blob = Inr out" "length out = kl + 64" "unpack_le 4 out 0 = Inr QIZOK_MAGIC" "unpack_le 4 out 4 = Inr kl"
      "unpack_le 4 out 8 = Inr entry" "unpack_le 4 out 12 = Inr tot" "kl \<le> 524288" "tot \<le> 524288" "entry < kl"
    and ofs: "copy_offset ev src = Inr 64"
  shows "\<exists>m'. stage2_pm32 ev src m = Inr (m', kl, entry, tot) \<and> msize m' = 67108864 \<and>
    mem_read m' 1048576 kl = drop 64 out \<and> mem_read m' (1048576 + kl) (tot - kl) = zeros (tot - kl) \<and>
    (\<forall>x n. x + n \<le> 1048576 \<longrightarrow> mem_read m' x n = mem_read m x n)"
proof -
  define m1 where "m1 = mem_write m 1572864 out"
  have a1: "1572864 + length out \<le> msize m" using m(1) out(2,7) by simp
  have s1: "msize m1 = 67108864" unfolding m1_def using mm.sz_wr [OF a1] m(1) by simp
  have h: "mem_read m1 1572864 16 = take 16 out" unfolding m1_def using mm.rd_prefix [OF a1, of 16] out(2) by simp
  have i: "mem_read_int m1 (1572864 + 64) kl = drop 64 out"
    unfolding m1_def using mm.rd_wr_window [OF a1, of 64 kl] out(2) by (simp add: mem_read_int_pos)
  define m2 where "m2 = mem_write m1 1048576 (drop 64 out)"
  have a2: "1048576 + length (drop 64 out) \<le> msize m1" using s1 out(2,7) by simp
  have s2: "msize m2 = 67108864" unfolding m2_def using mm.sz_wr [OF a2] s1 by simp
  have k2: "mem_read m2 1048576 kl = drop 64 out" unfolding m2_def using mm.rd_wr_same [OF a2] out(2) by simp
  define m3 where "m3 = mem_write m2 (1048576 + kl) (zeros (tot - kl))"
  have a3: "1048576 + kl + length (zeros (tot - kl)) \<le> msize m2" using s2 out(7,8) by simp
  have s3: "msize m3 = 67108864" unfolding m3_def using mm.sz_wr [OF a3] s2 by simp
  have k3: "mem_read m3 1048576 kl = drop 64 out"
    unfolding m3_def using mm.rd_wr_disj [OF a3, of 1048576 kl] k2 by simp
  have z3: "mem_read m3 (1048576 + kl) (tot - kl) = zeros (tot - kl)"
    unfolding m3_def using mm.rd_wr_same [OF a3] by simp
  have f: "mem_read m3 x n = mem_read m x n" if "x + n \<le> 1048576" for x n
    unfolding m3_def m2_def m1_def
    using mm.rd_wr_disj [OF a3 [unfolded m2_def m1_def], of x n] mm.rd_wr_disj [OF a2 [unfolded m1_def], of x n] mm.rd_wr_disj [OF a1, of x n] that
    by simp
  have l16: "16 \<le> length out" using out(2) by simp
  have "stage2_pm32 ev src m = Inr (m3, kl, entry, tot)"
    using m(2-4) out(1,3-6) out(2) [symmetric] out(7-9) ofs h i l16
    by (simp add: stage2_pm32_def QIZO_values BLOB_PHYS_def SCRATCH_def KERNEL_MAX_def QIZOK_HDR_def KTEXT_def Let_def
          unpack_le_take m3_def m2_def flip: m1_def)
  then show ?thesis using s3 k3 z3 f by blast
qed

text \<open>A bootable disk: the stage1 arguments, the blob and the module in it.\<close>

definition bootable :: "bytes \<Rightarrow> nat \<Rightarrow> bytes \<Rightarrow> nat \<Rightarrow> nat \<Rightarrow> bool" where
  "bootable disk n out entry tot \<longleftrightarrow>
     unpack_le 4 disk 468 = Inr 16 \<and> unpack_le 2 disk 472 = Inr (8 + n) \<and> 0 < n \<and> n \<le> 248 \<and> (24 + n) * 512 \<le> length disk \<and>
     unpack_le 4 disk 476 = Inr (checksum (bslice 12288 (12288 + n * 512) disk)) \<and>
     decompress (bslice 12288 (12288 + n * 512) disk) = Inr out \<and> 64 \<le> length out \<and> unpack_le 4 out 0 = Inr QIZOK_MAGIC \<and>
     unpack_le 4 out 4 = Inr (length out - 64) \<and> unpack_le 4 out 8 = Inr entry \<and> unpack_le 4 out 12 = Inr tot \<and>
     length out - 64 \<le> 524288 \<and> tot \<le> 524288 \<and> entry < length out - 64"

lemma boot_ok:
  assumes b: "bootable disk n out entry tot" and ofs: "copy_offset ev src = Inr 64"
  shows "\<exists>m. boot ev src disk = Inr (m, length out - 64, entry, tot) \<and> msize m = 67108864 \<and>
    mem_read m 1048576 (length out - 64) = drop 64 out \<and>
    mem_read m (1048576 + (length out - 64)) (tot - (length out - 64)) = zeros (tot - (length out - 64)) \<and>
    mem_read m 131072 4096 = bslice 8192 12288 disk \<and>
    u32 m 65560 = Inr (n * 512) \<and> u32 m 65536 = Inr 0x00010001 \<and> u8 m 65540 = Inr 0x80"
proof -
  let ?blob = "bslice 12288 (12288 + n * 512) disk" let ?t = "8 + n"
  have d: "unpack_le 4 disk 468 = Inr 16" "unpack_le 2 disk 472 = Inr ?t" "0 < n" "n \<le> 248" "(24 + n) * 512 \<le> length disk"
    "unpack_le 4 disk 476 = Inr (checksum ?blob)" "decompress ?blob = Inr out" "64 \<le> length out"
    "unpack_le 4 out 0 = Inr QIZOK_MAGIC" "unpack_le 4 out 4 = Inr (length out - 64)" "unpack_le 4 out 8 = Inr entry"
    "unpack_le 4 out 12 = Inr tot" "length out - 64 \<le> 524288" "tot \<le> 524288" "entry < length out - 64"
    using b unfolding bootable_def by blast+
  have big: "512 \<le> length disk" using d(5) by simp
  have lb: "length ?blob = n * 512" using d(5) by simp
  obtain m1 where m1: "stage1 (new_mem 0x4000000) disk 0x80 = Inr (m1, ?t * 512)" and l: "loaded disk 16 (arg_block disk) ?t m1"
    using stage1_ok [OF big d(1,2)] d(4,5) by auto
  have s1: "msize m1 = 67108864" and ar: "mem_read m1 32208 20 = arg_block disk"
    and ld: "mem_read m1 131072 (?t * 512) = bslice 8192 ((16 + ?t) * 512) disk"
    using l by (simp_all add: loaded_def)
  note w = mm.rd_window [of _ _ 20 m1 32208, unfolded ar] and fld = arg_block_fields [OF big]
  have a: "le_nat (mem_read m1 32208 (Suc 0)) = 128" "le_nat (mem_read m1 32212 4) = 16" "le_nat (mem_read m1 32216 2) = ?t"
    "le_nat (mem_read m1 32220 4) = checksum ?blob"
    using w [of 0 "Suc 0"] w [of 4 4] w [of 8 2] w [of 12 4] fld d(1,2,6) by (simp_all add: arg_block_def)
  have t: "8 \<le> ?t" "?t \<le> 256" "16 < (2 :: nat) ^ 32" using d(4) by simp_all
  let ?m2 = "mm.wr_list (info_writes 16 ?t (checksum ?blob)) m1"
  have m2: "stage2_real m1 = Inr ?m2" using stage2_real_ok [OF s1 a t(3,1,2) checksum_less] .
  note i = info_state [OF s1 t(3,1,2) checksum_less [of ?blob]]
  have "mem_read ?m2 135168 (n * 512) = mem_read m1 135168 (n * 512)" by (rule i(8)) simp
  also have "\<dots> = ?blob"
    using mm.rd_window [of 4096 "n * 512" "?t * 512" m1 131072] ld
    by (simp add: bslice_def drop_take add_mult_distrib)
  finally have blob: "mem_read ?m2 135168 (length ?blob) = ?blob" using lb by simp
  have st2: "mem_read ?m2 131072 4096 = bslice 8192 12288 disk"
    using i(8) [of 131072 4096] mm.rd_window [of 0 4096 "?t * 512" m1 131072] ld
    by (simp add: bslice_def drop_take add_mult_distrib)
  have n2: "u32 ?m2 65560 = Inr (length ?blob)" using i(2) lb by (simp add: add_mult_distrib)
  have lo: "length out = length out - 64 + 64" using d(8) by simp
  obtain m3 where m3: "stage2_pm32 ev src ?m2 = Inr (m3, length out - 64, entry, tot)" "msize m3 = 67108864"
    "mem_read m3 1048576 (length out - 64) = drop 64 out"
    "mem_read m3 (1048576 + (length out - 64)) (tot - (length out - 64)) = zeros (tot - (length out - 64))"
    and f: "\<And>x n. x + n \<le> 1048576 \<Longrightarrow> mem_read m3 x n = mem_read ?m2 x n"
    using stage2_pm32_ok [OF i(1) n2 i(3) blob d(7) lo d(9-15) ofs] by blast
  have g1: "u32 m3 65560 = u32 ?m2 65560" "u32 m3 65536 = u32 ?m2 65536" "u8 m3 65540 = u8 ?m2 65540"
    by (simp_all add: mem_get m3(2) i(1) f)
  have "boot ev src disk = Inr (m3, length out - 64, entry, tot)"
    using m1 m2 m3(1) d(3) by (simp add: boot_def STAGE2_BYTES_def)
  then show ?thesis using m3(2-4) g1 n2 lb i(4,5) f [of 131072 4096] st2 by simp
qed


section \<open>The final checks pass\<close>

lemma regions_disjoint:
  assumes "kl \<le> 524288" "tot \<le> 524288"
  shows "check_regions (sort_key (\<lambda>r. fst (snd r)) (regions kl tot)) = Inr ()"
  using assms by (simp add: regions_def QIZO_values layout_defs)

lemma bootmodel_ok:
  assumes b: "bootable disk n out entry tot" and ofs: "copy_offset ev src = Inr 64"
  shows "bootmodel ev src disk (drop 64 out) = Inr ()"
proof -
  have d: "length out - 64 \<le> 524288" "tot \<le> 524288" "entry < length out - 64" using b unfolding bootable_def by blast+
  let ?kl = "length out - 64"
  obtain m where m: "boot ev src disk = Inr (m, ?kl, entry, tot)" "msize m = 67108864" "mem_read m 1048576 ?kl = drop 64 out"
    using boot_ok [OF assms] by blast
  have "mem_read m 1048576 (Suc 0) = take (Suc 0) (drop 64 out)"
    using mm.rd_window [of 0 "Suc 0" ?kl m 1048576] m(3) d(3) by simp
  then have u: "u8 m 1048576 = Inr (unat (drop 64 out ! 0))" using d(3) m(2) by (simp add: mem_get take_Suc_conv_app_nth)
  show ?thesis
    using m(1,3) u regions_disjoint [OF d(1,2)] d(3) by (simp add: bootmodel_def KTEXT_def bidx_def)
qed

text \<open>A checked image boots when its blob is compressed and within the loader's span.\<close>

lemma checked_bootable:
  assumes "check args = Inr Pass" "unpack_le 4 (c_image args) (BLOB_LBA * SECTOR) = Inr LY_LZSS_MAGIC"
    and "unpack_le 2 (c_image args) (STAGE1_ARGS_OFF + 8) = Inr t" "t \<le> STAGE2_SECTORS + 248"
  obtains n out entry tot where "bootable (c_image args) n out entry tot" "check_fs (c_image args) (drop 64 out) = Inr Pass"
proof -
  let ?img = "c_image args"
  obtain n crc out entry tot where p: "unpack_le 4 ?img (STAGE1_ARGS_OFF + 4) = Inr PART_LBA"
    "unpack_le 2 ?img (STAGE1_ARGS_OFF + 8) = Inr (STAGE2_SECTORS + n)" "0 < n"
    "unpack_le 4 ?img (STAGE1_ARGS_OFF + 12) = Inr crc"
    and b: "length (bslice (BLOB_LBA * SECTOR) (BLOB_LBA * SECTOR + n * SECTOR) ?img) = n * SECTOR"
    "checksum (bslice (BLOB_LBA * SECTOR) (BLOB_LBA * SECTOR + n * SECTOR) ?img) = crc"
    "unpack_module (bslice (BLOB_LBA * SECTOR) (BLOB_LBA * SECTOR + n * SECTOR) ?img) = Inr out"
    and o: "unpack_le 4 out 0 = Inr QIZOK_MAGIC" "unpack_le 4 out 4 = Inr (length (drop 64 out))"
    "unpack_le 4 out 8 = Inr entry" "entry < length (drop 64 out)"
    "unpack_le 4 out 12 = Inr tot" "length (drop 64 out) + 64 \<le> tot" "KTEXT + tot \<le> SCRATCH"
    and fs: "check_fs ?img (drop 64 out) = Inr Pass"
    using check_pass [OF assms(1)] by metis
  let ?b = "bslice (BLOB_LBA * SECTOR) (BLOB_LBA * SECTOR + n * SECTOR) ?img"
  have "unpack_le 4 ?b 0 = Inr LY_LZSS_MAGIC"
    using assms(2) b(1) p(3) by (simp add: unpack_le_def bslice_bslice SECTOR_def split: if_splits)
  then have d: "decompress ?b = Inr out" using b(3) by (simp add: unpack_module_def)
  have n: "n \<le> 248" using assms(3,4) p(2) by simp
  have l: "(24 + n) * 512 \<le> length ?img" using b(1) p(3) by (simp add: BLOB_LBA_def SECTOR_def)
  have "64 \<le> length out" "length out - 64 \<le> 524288" using o(4,6,7) by (simp_all add: KTEXT_def SCRATCH_def)
  then have "bootable ?img n out entry tot"
    unfolding bootable_def
    using p b(2) d o n l
    by (simp add: STAGE1_ARGS_OFF_def PART_LBA_def STAGE2_SECTORS_def BLOB_LBA_def SECTOR_def KTEXT_def SCRATCH_def)
  then show thesis using fs by (rule that)
qed


lemma mkqizoimg_bootable:
  assumes "prepare_stage1 (m_stage1 args) = Inr s1" "length (m_stage1 args) \<le> 512"
    and "length (m_stage2 args) \<le> STAGE2_BYTES"
    and mi: "module_info_of args = Inr mi" "header_fits mi" "entry_off mi < klen mi"
    and bl: "\<not> m_raw args" "make_blob False (header_bytes mi @ m_kernel args) = Inr blob"
    and lay: "choose_layout (m_image_sectors args) (length blob div SECTOR) = Inr (tot, lay)" "bits lay = 16" "tot < 65552"
    and lb: "ascii (m_label args)"
  obtains img where "mkqizoimg args = Inr img"
    "bootable img (length blob div SECTOR) (header_bytes mi @ m_kernel args) (nat (entry_off mi)) (nat (img_total mi))"
    "bslice 8192 12288 img = ljust STAGE2_BYTES 0 (m_stage2 args)"
proof -
  let ?pay = "header_bytes mi @ m_kernel args" let ?s = "length blob div SECTOR"
  have hd: "module_header mi = Inr (header_bytes mi)" using mi(2) by (simp add: module_header_eq)
  have bl': "make_blob (m_raw args) ?pay = Inr blob" using bl by simp
  obtain img fat cl rt where img: "mkqizoimg args = Inr img"
    and v: "volume_at img tot lay (files_of args mi lay blob ?pay) (m_label args) fat cl rt"
    and r: "bslice (PART_LBA * SECTOR) (PART_LBA * SECTOR + STAGE2_BYTES) img = ljust STAGE2_BYTES 0 (m_stage2 args)"
    "bslice (BLOB_LBA * SECTOR) (BLOB_LBA * SECTOR + length blob) img = blob"
    "bslice 510 512 img = [0x55, 0xAA]" "unpack_le 4 img 0x1C6 = Inr (part_lba lay)"
    "unpack_le 4 img (STAGE1_ARGS_OFF + 4) = Inr PART_LBA"
    "unpack_le 2 img (STAGE1_ARGS_OFF + 8) = Inr (STAGE2_SECTORS + ?s)"
    "unpack_le 4 img (STAGE1_ARGS_OFF + 12) = Inr (checksum blob)"
    using mkqizoimg_ok [OF assms(1-3) mi(1) hd bl' lay lb] by blast
  note p = choose_layout_plan16 [OF lay] and b = make_blob_facts [OF bl(2)] and m = module_info_facts [OF mi(1) hd]
  have lp: "length ?pay = length (m_kernel args) + 64" using header_fields(5) [OF mi(2)] by simp
  then have l32: "length ?pay < 2 ^ 32" using m(1,2) by simp
  have "int (part_lba lay) \<le> tot" "part_lba lay = BLOB_LBA + ?s" using p unfolding plan16_def bs_fits_def by blast+
  then have "24 + ?s \<le> nat tot" by (simp add: BLOB_LBA_def)
  moreover have "length img = nat tot * SECTOR" using v unfolding volume_at_def by blast
  ultimately have len: "(24 + ?s) * 512 \<le> length img" unfolding SECTOR_def by (metis mult_le_mono1)
  have blob: "bslice 12288 (12288 + ?s * 512) img = blob" using r(2) b(1) by (simp add: BLOB_LBA_def SECTOR_def)
  have k: "nat (entry_off mi) < length (m_kernel args)" "nat (img_total mi) \<le> 524288" "length (m_kernel args) \<le> 524288"
    "nat (klen mi) = length (m_kernel args)"
    using m mi(3) by simp_all
  have "bootable img ?s ?pay (nat (entry_off mi)) (nat (img_total mi))"
    unfolding bootable_def blob
    using r(5-7) b(3,4) len header_fields(1-4) [OF mi(2), of "m_kernel args"] blob_reads(3) [OF bl(2) l32] k lp
    by (simp add: STAGE1_ARGS_OFF_def PART_LBA_def STAGE2_SECTORS_def)
  then show thesis using that [OF img] r(1) by (simp add: PART_LBA_def SECTOR_def STAGE2_BYTES_def)
qed

text \<open>Beyond 256 sectors the loader stops at the first read past the blob area.\<close>

lemma stage1_chunks:
  assumes "loaded disk lba args 0 m" "lba = le_nat (take 4 (drop 4 args))" "256 \<le> tot" "(lba + tot) * 512 \<le> length disk" "lba < 2 ^ 31"
  shows "k \<le> 4 \<Longrightarrow> \<exists>m'. stage1_loop disk tot 0 m = stage1_loop disk tot (64 * k) m' \<and> loaded disk lba args (64 * k) m'"
proof (induction k)
  case 0
  then show ?case using assms(1) by auto
next
  case (Suc k)
  then obtain m' where m': "stage1_loop disk tot 0 m = stage1_loop disk tot (64 * k) m'" "loaded disk lba args (64 * k) m'" by auto
  have k: "64 * k + 64 \<le> 256" "64 * k + 64 \<le> 1024" using Suc.prems by simp_all
  have d: "(lba + 64 * k + 64) * 512 \<le> length disk" using k(1) assms(3,4) by (simp add: add_mult_distrib)
  obtain m1 m2 where s: "put_dap 64 (64 * k) m' = Inr m1" "int13_read m1 disk 32256 = Inr (m2, 64, 131072 + 64 * k * 512)"
    "loaded disk lba args (64 * k + 64) m2"
    using load_step [OF m'(2) assms(2) _ _ k(2) d assms(5)] by auto
  have "64 * k < tot" "min 64 (tot - 64 * k) = 64" using k(1) assms(3) by simp_all
  then have "stage1_loop disk tot (64 * k) m' = stage1_loop disk tot (64 * k + 64) m2"
    using s(1,2) k(1)
    by (simp add: stage1_loop.simps [of disk tot "64 * k"] QIZO_values SECTOR_def BLOB_PHYS_def BLOB_MAX_def)
  then show ?case using m'(1) s(3) by (auto simp: add.commute)
qed

lemma stage1_overrun:
  assumes "loaded disk lba args 0 m" "lba = le_nat (take 4 (drop 4 args))" "256 < tot" "(lba + tot) * 512 \<le> length disk" "lba < 2 ^ 31"
  shows "stage1_loop disk tot 0 m = Inl (SystemExit ''model: read overruns the blob region'' [])"
proof -
  obtain m' where m': "stage1_loop disk tot 0 m = stage1_loop disk tot 256 m'" "loaded disk lba args 256 m'"
    using stage1_chunks [OF assms(1,2) _ assms(4,5), of 4] assms(3) by auto
  define c where "c = min 64 (tot - 256)"
  have c: "0 < c" "c \<le> 64" "256 + c \<le> 1024" "(lba + 256 + c) * 512 \<le> length disk"
    using assms(3,4) by (auto simp: c_def min_def)
  obtain m1 m2 where "put_dap c 256 m' = Inr m1" "int13_read m1 disk 32256 = Inr (m2, c, 131072 + 256 * 512)"
    using load_step [OF m'(2) assms(2) c assms(5)] by blast
  then show ?thesis
    using assms(3) c(1) unfolding m'(1)
    by (simp add: stage1_loop.simps [of disk tot 256] QIZO_values SECTOR_def BLOB_PHYS_def BLOB_MAX_def flip: c_def)
qed

section \<open>Properties\<close>

lemma tiny_header: "header_fits tiny_info" "entry_off tiny_info < klen tiny_info"
  using tiny_ok(5) by (simp_all add: module_fits_def)

lemma tiny_bootable: "\<exists>img n out entry tot. mkqizoimg tiny_args = Inr img \<and> bootable img n out entry tot"
proof -
  obtain blob tot lay where l: "make_blob False (header_bytes tiny_info @ m_kernel tiny_args) = Inr blob"
    "choose_layout (m_image_sectors tiny_args) (length blob div SECTOR) = Inr (tot, lay)" "bits lay = 16" "tot < 65552"
    using tiny_layout by blast
  from mkqizoimg_bootable [OF tiny_ok(1-4) tiny_header tiny_ok(6) l tiny_ok(8)] show ?thesis by metis
qed

text \<open>The boot of a built image and of an accepted one, for any text of stage2 in which the copy offset is found.\<close>

lemma mkqizoimg_boots_at:
  assumes "prepare_stage1 (m_stage1 args) = Inr s1" "length (m_stage1 args) \<le> 512"
    and "length (m_stage2 args) \<le> STAGE2_BYTES"
    and "module_info_of args = Inr mi" "header_fits mi" "entry_off mi < klen mi"
    and "\<not> m_raw args" "make_blob False (header_bytes mi @ m_kernel args) = Inr blob"
    and "choose_layout (m_image_sectors args) (length blob div SECTOR) = Inr (tot, lay)" "bits lay = 16" "tot < 65552"
    and "ascii (m_label args)" "copy_offset ev src = Inr 64"
  shows "\<exists>img m. mkqizoimg args = Inr img \<and> bootmodel ev src img (m_kernel args) = Inr () \<and>
    boot ev src img = Inr (m, length (m_kernel args), nat (entry_off mi), nat (img_total mi)) \<and>
    mem_read m KTEXT (length (m_kernel args)) = m_kernel args \<and>
    mem_read m (KTEXT + length (m_kernel args)) (nat (img_total mi) - length (m_kernel args)) =
      zeros (nat (img_total mi) - length (m_kernel args)) \<and>
    mem_read m STAGE2 STAGE2_BYTES = ljust STAGE2_BYTES 0 (m_stage2 args)"
proof -
  let ?pay = "header_bytes mi @ m_kernel args"
  obtain img where i: "mkqizoimg args = Inr img"
    "bootable img (length blob div SECTOR) ?pay (nat (entry_off mi)) (nat (img_total mi))"
    "bslice 8192 12288 img = ljust STAGE2_BYTES 0 (m_stage2 args)"
    using mkqizoimg_bootable [OF assms(1-12)] by metis
  have h: "drop 64 ?pay = m_kernel args" "length ?pay - 64 = length (m_kernel args)"
    using header_fields(5) [OF assms(5)] by simp_all
  obtain m where "boot ev src img = Inr (m, length ?pay - 64, nat (entry_off mi), nat (img_total mi))"
    "mem_read m 1048576 (length ?pay - 64) = drop 64 ?pay"
    "mem_read m (1048576 + (length ?pay - 64)) (nat (img_total mi) - (length ?pay - 64)) = zeros (nat (img_total mi) - (length ?pay - 64))"
    "mem_read m 131072 4096 = bslice 8192 12288 img"
    using boot_ok [OF i(2) assms(13)] by blast
  then show ?thesis
    using i(1,3) bootmodel_ok [OF i(2) assms(13)] unfolding h KTEXT_def STAGE2_def STAGE2_BYTES_def by auto
qed

lemma checked_image_boots_at:
  assumes "check args = Inr Pass" "unpack_le 4 (c_image args) (BLOB_LBA * SECTOR) = Inr LY_LZSS_MAGIC"
    and "unpack_le 2 (c_image args) (STAGE1_ARGS_OFF + 8) = Inr t" "t \<le> STAGE2_SECTORS + 248"
    and "copy_offset ev src = Inr 64"
  shows "\<exists>kern. check_fs (c_image args) kern = Inr Pass \<and> bootmodel ev src (c_image args) kern = Inr ()"
proof -
  obtain n out entry tot where "bootable (c_image args) n out entry tot" "check_fs (c_image args) (drop 64 out) = Inr Pass"
    using checked_bootable [OF assms(1-4)] by blast
  then show ?thesis using bootmodel_ok assms(5) by blast
qed

lemma decompress_magic: "decompress b = Inr out \<Longrightarrow> unpack_le 4 b 0 = Inr LY_LZSS_MAGIC"
  by (auto simp: decompress_def LY_LZSS_MAGIC_def LZSS_MAGIC_def unpack_le_def Let_def split: if_splits)

text \<open>C16: stage1 loads a span of at most 256 sectors completely, in chunks of at most 64, and copies it
  to consecutive memory from the stage2 address; a longer span that the disk does hold is
  refused at the first sector behind the blob area.\<close>

theorem stage1_span:
  assumes "512 \<le> length disk" "unpack_le 4 disk (STAGE1_ARGS_OFF + 4) = Inr lba" "unpack_le 2 disk (STAGE1_ARGS_OFF + 8) = Inr tot"
    and "(lba + tot) * SECTOR \<le> length disk" "lba < 2 ^ 31"
  shows "if tot \<le> 256
    then \<exists>m. stage1 (new_mem 0x4000000) disk 0x80 = Inr (m, tot * SECTOR) \<and>
           mem_read m STAGE2 (tot * SECTOR) = bslice (lba * SECTOR) ((lba + tot) * SECTOR) disk
    else stage1 (new_mem 0x4000000) disk 0x80 = Inl (SystemExit ''model: read overruns the blob region'' [])"
proof (cases "tot \<le> 256")
  case True
  then show ?thesis
    using stage1_ok [of disk lba tot] assms by (auto simp: STAGE1_ARGS_OFF_def SECTOR_def STAGE2_def loaded_def)
next
  case False
  obtain m where m: "loaded disk lba (arg_block disk) 0 m" "lba = le_nat (take 4 (drop 4 (arg_block disk)))"
    "stage1 (new_mem 0x4000000) disk 0x80 = bindE (stage1_loop disk tot 0 m) (\<lambda>(m, bx). Inr (m, bx * 512))"
    using stage1_start [of disk lba tot] assms by (auto simp: STAGE1_ARGS_OFF_def)
  have "256 < tot" using False by simp
  then show ?thesis using stage1_overrun [OF m(1,2) _ assms(4) [unfolded SECTOR_def] assms(5)] m(3) False by simp
qed

theorem stage1_span_witness:
  "\<exists>m. stage1 (new_mem 0x4000000) (blit 472 [1] (zeros 512)) 0x80 = Inr (m, 512) \<and>
     mem_read m STAGE2 512 = blit 472 [1] (zeros 512)"
proof -
  let ?d = "blit 472 [1] (zeros 512)"
  have d: "?d = zeros 472 @ 1 # zeros 39" by (simp add: blit_def bslice_set_def zeros_def)
  have "unpack_le 4 ?d 468 = Inr 0" "unpack_le 2 ?d 472 = Inr 1"
    unfolding d by (simp_all add: unpack_le_def bslice_def zeros_def numeral_eq_Suc)
  then show ?thesis
    using stage1_span [of ?d 0 1] by (simp add: STAGE1_ARGS_OFF_def SECTOR_def)
qed

text \<open>C15: the loader as a machine, one step per disk read, started from the memory with the boot sector in it, for a span of at most
  256 sectors that lies on the disk and starts below sector 2^31: every reachable
  state has read some number of sectors of the span, in order, into consecutive memory from the stage2 address and has kept the
  argument block; no state short of the whole span is stuck, and the loop ends there after exactly one read per 64 sectors begun.\<close>

theorem stage1_reads:
  assumes "512 \<le> length disk" "unpack_le 4 disk (STAGE1_ARGS_OFF + 4) = Inr lba" "unpack_le 2 disk (STAGE1_ARGS_OFF + 8) = Inr tot"
    and "(lba + tot) * SECTOR \<le> length disk" "lba < 2 ^ 31" "tot \<le> 256"
    and "put_u8 (mem_write (new_mem 0x4000000) 0x7C00 (bslice 0 512 disk)) (QIZO ''QIZO_ARG_ADDR'' + QIZO ''QIZO_ARG_DRIVE'') 0x80 = Inr m0"
    and "(dap_read disk tot)\<^sup>*\<^sup>* (0, m0) (bx, m)"
  shows "bx \<le> tot \<and> mem_read m STAGE2 (bx * SECTOR) = bslice (lba * SECTOR) ((lba + bx) * SECTOR) disk \<and>
    mem_read m (QIZO ''QIZO_ARG_ADDR'') 20 = arg_block disk \<and>
    (bx < tot \<longrightarrow> (\<exists>s. dap_read disk tot (bx, m) s)) \<and>
    (\<exists>m'. (dap_read disk tot ^^ ((tot + 63) div 64)) (0, m0) (tot, m') \<and> stage1_loop disk tot 0 m0 = Inr (m', tot))"
proof -
  have l0: "loaded disk lba (arg_block disk) 0 m0" and lba: "lba = le_nat (take 4 (drop 4 (arg_block disk)))"
    using stage1_start [of disk lba tot] assms(1-3,7) by (auto simp: STAGE1_ARGS_OFF_def)
  have d: "(lba + tot) * 512 \<le> length disk" using assms(4) by (simp add: SECTOR_def)
  have i0: "reads_inv disk lba (arg_block disk) tot (0, m0)" using l0 by (simp add: reads_inv_def)
  have i: "reads_inv disk lba (arg_block disk) tot (bx, m)"
    by (rule reads_inv_reachable [OF assms(8) i0 lba assms(6) d assms(5)])
  then have l: "loaded disk lba (arg_block disk) bx m" "bx \<le> tot" by (simp_all add: reads_inv_def)
  have k: "64 * ((tot + 63) div 64) < tot + 64" using times_div_less_eq_dividend [of 64 "tot + 63"] by linarith
  obtain m' where "(dap_read disk tot ^^ ((tot + 63) div 64)) (0, m0) (min tot (64 * ((tot + 63) div 64)), m')"
    using reads_count [OF i0 lba assms(6) d assms(5) k] by blast
  then have r: "(dap_read disk tot ^^ ((tot + 63) div 64)) (0, m0) (tot, m')" by (simp add: min_def split: if_splits)
  then have "stage1_loop disk tot 0 m0 = Inr (m', tot)" by (simp add: stage1_loop_runs relpowp_imp_rtranclp)
  moreover have "\<exists>s. dap_read disk tot (bx, m) s" if "bx < tot"
    using dap_read_progress [OF l(1) lba that assms(6) d assms(5)] by blast
  ultimately show ?thesis using l r by (auto simp: loaded_def QIZO_values STAGE2_def SECTOR_def)
qed

theorem stage1_reads_witness:
  "\<exists>m0 m'. put_u8 (mem_write (new_mem 0x4000000) 0x7C00 (bslice 0 512 (blit 472 [1] (zeros 512))))
       (QIZO ''QIZO_ARG_ADDR'' + QIZO ''QIZO_ARG_DRIVE'') 0x80 = Inr m0 \<and>
     dap_read (blit 472 [1] (zeros 512)) 1 (0, m0) (1, m')"
proof -
  let ?d = "blit 472 [1] (zeros 512)"
  have u: "unpack_le 4 ?d 468 = Inr 0" "unpack_le 2 ?d 472 = Inr 1"
    unfolding blit_def bslice_set_def by (simp_all add: unpack_le_def bslice_def zeros_def numeral_eq_Suc)
  obtain m0 where m: "put_u8 (mem_write (new_mem 0x4000000) 0x7C00 (bslice 0 512 ?d)) (QIZO ''QIZO_ARG_ADDR'' + QIZO ''QIZO_ARG_DRIVE'') 0x80 = Inr m0"
    using stage1_start [of ?d 0 1] u by auto
  show ?thesis using stage1_reads [of ?d 0 1 m0 0 m0] u m by (auto simp: STAGE1_ARGS_OFF_def SECTOR_def)
qed

end
