(* ===== verification/Qizo_Asmrun.thy ===== *)
theory Qizo_Asmrun
  imports Qizo_Bootmodel
begin

text \<open>
  The boot assembly test, \<^verbatim>\<open>src/tools/qizoasm/qizoasmrun.py\<close>: it cuts routines out of the assembly
  sources, wraps them into host programs, runs them and checks the bytes they leave: the page
  tables, the kernel's interrupt gates, the boot fault gates and report, and the decompressed
  module. Assembling, linking and running a program is done by the host tools: \<open>run32\<close> and
  \<open>run64\<close> give, for the name and the text of a program, the bytes of its dump file (for \<open>run64\<close>
  with the output of \<open>nm\<close>), \<open>Unsupported\<close>, or the exception that is raised when \<open>nm\<close> fails or the
  program left no dump file; for \<open>run64\<close> the dump is read after the symbols are parsed, so it is
  an outcome of its own.
\<close>

unbundle bit_operations_syntax

section \<open>Definitions\<close>

subsection \<open>Cutting and wrapping assembly text\<close>

definition PRESENT :: nat where "PRESENT = 0x01"
definition PS :: nat where "PS = 0x80"

text \<open>\<open>HostUnsupported\<close> is the outcome of a failed host command.\<close>

datatype 'a run = Unsupported | Ran 'a

definition bindR :: "'a run res \<Rightarrow> ('a \<Rightarrow> 'b run res) \<Rightarrow> 'b run res" where
  "bindR m f = bindE m (\<lambda>r. case r of Unsupported \<Rightarrow> Inr Unsupported | Ran x \<Rightarrow> f x)"

definition liftR :: "'a res \<Rightarrow> 'a run res" where
  "liftR m = bindE m (\<lambda>x. Inr (Ran x))"

type_synonym msg = "string \<times> farg list"

text \<open>\<open>text.split(chr(10))\<close> and its inverse \<open>chr(10).join(lines)\<close>.\<close>

fun split_nl :: "string \<Rightarrow> string list" where
  "split_nl [] = [[]]"
| "split_nl (c # s) = (if c = CHR 0x0A then [] # split_nl s else case split_nl s of l # ls \<Rightarrow> (c # l) # ls | [] \<Rightarrow> [[c]])"

fun join_nl :: "string list \<Rightarrow> string" where
  "join_nl [] = []"
| "join_nl [l] = l"
| "join_nl (l # ls) = l @ nl @ join_nl ls"

definition tab :: "string \<Rightarrow> string" where
  "tab s = CHR 0x09 # s"

text \<open>\<open>next(i for i, l in enumerate(lines) if l.strip() == want)\<close>.\<close>

definition line_index :: "string \<Rightarrow> string list \<Rightarrow> nat res" where
  "line_index want lines =
     (case find (\<lambda>i. strip_ws (lines ! i) = want) [0..<length lines] of Some i \<Rightarrow> Inr i | None \<Rightarrow> Inl StopIteration)"

function ret_end :: "string list \<Rightarrow> nat \<Rightarrow> nat" where
  "ret_end lines i = (if i < length lines \<and> strip_ws (lines ! i) \<noteq> ''ret'' then ret_end lines (i + 1) else i)"
  by pat_completeness auto
termination by (relation "measure (\<lambda>(lines, i). length lines - i)") auto

declare ret_end.simps [simp del]

definition extract_text :: "string \<Rightarrow> string \<Rightarrow> string \<Rightarrow> bool \<Rightarrow> string res" where
  "extract_text txt start_at stop_at to_ret =
     (let lines = split_nl txt in
      bindE (line_index start_at lines) (\<lambda>start.
      bindE (line_index stop_at lines) (\<lambda>stop.
      let fin = (if to_ret then ret_end lines stop + 1 else stop) in
      Inr (join_nl (bslice start fin lines) @ nl))))"

definition span :: "string \<Rightarrow> string \<Rightarrow> string option \<Rightarrow> string res" where
  "span txt stop_at start_at =
     (let lines = split_nl txt in
      bindE (case start_at of None \<Rightarrow> Inr 0 | Some s \<Rightarrow> line_index s lines) (\<lambda>start.
      bindE (line_index stop_at lines) (\<lambda>stop.
      Inr (join_nl (bslice start stop lines) @ nl))))"

definition spill :: "string \<Rightarrow> string \<Rightarrow> string \<Rightarrow> string list" where
  "spill fd_slot buf_name edx_line =
     [tab ''movl $5, %eax'', tab ''movl $apath, %ebx'', tab ''movl $0x141, %ecx'', tab ''movl $0644, %edx'', tab ''int $0x80'',
      tab ''movl %eax, '' @ fd_slot, tab ''movl $4, %eax'', tab ''movl '' @ fd_slot @ '', %ebx'',
      tab ''movl $'' @ buf_name @ '', %ecx'', tab edx_line, tab ''int $0x80'',
      tab ''movl $6, %eax'', tab ''movl '' @ fd_slot @ '', %ebx'', tab ''int $0x80'']"

definition epilogue :: "string list" where
  "epilogue = [tab ''movl $1, %eax'', tab ''xorl %ebx, %ebx'', tab ''int $0x80'']"

definition spill64 :: "string \<Rightarrow> string \<Rightarrow> nat \<Rightarrow> string list" where
  "spill64 fd_slot buf_name n =
     [tab ''leaq apath(%rip), %rdi'', tab ''movl $2, %eax'', tab ''movl $0x142, %esi'', tab ''movl $0644, %edx'', tab ''syscall'',
      tab ''movq %rax, '' @ fd_slot, tab ''movl $1, %eax'', tab ''movq '' @ fd_slot @ '', %rdi'',
      tab ''leaq '' @ buf_name @ ''(%rip), %rsi'', tab ''movl $'' @ dec n @ '', %edx'', tab ''syscall'',
      tab ''movl $3, %eax'', tab ''movq '' @ fd_slot @ '', %rdi'', tab ''syscall'']"

text \<open>The name of a dump file inside a double-quoted assembler string.\<close>

definition quoted :: "string \<Rightarrow> string" where
  "quoted path = CHR 0x22 # replace_str [CHR 0x5C] [CHR 0x5C, CHR 0x5C] path @ [CHR 0x22]"

text \<open>\<open>text.rstrip(chr(10))\<close> and \<open>text.index(sub)\<close>.\<close>

definition rstrip_nl :: "string \<Rightarrow> string" where
  "rstrip_nl s = rev (dropWhile (\<lambda>c. c = CHR 0x0A) (rev s))"

fun str_find :: "string \<Rightarrow> string \<Rightarrow> nat option" where
  "str_find sub [] = (if sub = [] then Some 0 else None)"
| "str_find sub (c # s) = (if take (length sub) (c # s) = sub then Some 0 else map_option Suc (str_find sub s))"

definition str_index :: "string \<Rightarrow> string \<Rightarrow> nat \<Rightarrow> nat res" where
  "str_index sub s from =
     (case (if from \<le> length s then str_find sub (drop from s) else None) of
        Some i \<Rightarrow> Inr (from + i) | None \<Rightarrow> Inl (ValueError ''substring not found''))"

subsection \<open>The page tables\<close>

definition ent :: "bytes \<Rightarrow> nat \<Rightarrow> nat \<Rightarrow> (nat \<times> nat) res" where
  "ent tables page idx =
     (let off = page * 0x1000 + idx * 8 in
      bindE (unpack_le 4 tables off) (\<lambda>lo. bindE (unpack_le 4 tables (off + 4)) (\<lambda>hi. Inr (lo, hi))))"

text \<open>\<open>lo & ~0xFFF\<close>.\<close>

definition page_base :: "nat \<Rightarrow> nat" where
  "page_base lo = lo div 0x1000 * 0x1000"

definition check_dir :: "bytes \<Rightarrow> int \<Rightarrow> string \<Rightarrow> nat \<Rightarrow> nat \<Rightarrow> int \<Rightarrow> msg list \<Rightarrow> msg list res" where
  "check_dir tables base loc page idx want bad =
     bindE (ent tables page idx) (\<lambda>(lo, hi).
     Inr (bad @ (if lo AND PRESENT = 0 then [(''%s not present'', [FS loc])] else [])
       @ (if lo AND PS \<noteq> 0 then [(''%s sets the page size bit in a non leaf entry'', [FS loc])] else [])
       @ (if lo AND 0x300 \<noteq> 0 then [(''%s sets reserved flag bits in a non leaf entry'', [FS loc])] else [])
       @ (if hi \<noteq> 0 then [(''%s points above 4 GiB'', [FS loc])] else [])
       @ (if int (page_base lo) - base \<noteq> want
          then [(''%s points at offset 0x%x in the table block, expected 0x%x'', [FS loc, FI (int (page_base lo) - base), FI want])]
          else [])))"

text \<open>The loops that stop at the first entry in use.\<close>

fun first_set :: "bytes \<Rightarrow> nat \<Rightarrow> nat list \<Rightarrow> nat option res" where
  "first_set tables page [] = Inr None"
| "first_set tables page (idx # is) =
     bindE (ent tables page idx) (\<lambda>(lo, hi). if lo \<noteq> 0 \<or> hi \<noteq> 0 then Inr (Some idx) else first_set tables page is)"

fun check_pdt :: "bytes \<Rightarrow> nat list \<Rightarrow> msg list res" where
  "check_pdt tables [] = Inr []"
| "check_pdt tables (slot # ss) =
     bindE (ent tables (2 + (slot * 8) div 0x1000) (slot * 8 mod 0x1000 div 8)) (\<lambda>(lo, hi).
     let want = slot * 0x200000 OR PT_PAGE in
     if lo \<noteq> want \<or> hi \<noteq> 0
     then Inr [(''PDT entry %d is %08x %08x, expected identity map at %08x %08x'',
                [FI (int slot), FI (int lo), FI (int hi), FI (int (want AND 0xFFFFFFFF)), FI (int (drop_bit 32 want))])]
     else check_pdt tables ss)"

definition probes :: "nat list" where
  "probes = [0x4000, 0x10000, 0x44000, 0x100000, 0x126000, 0x180000, 0x300000, 0x305FF8, 0xFFE00000]"

definition check_probe :: "bytes \<Rightarrow> nat \<Rightarrow> msg list \<Rightarrow> msg list res" where
  "check_probe tables la bad =
     (let slot = (drop_bit 21 la AND 0x1FF) OR push_bit 9 (drop_bit 30 la AND 3) in
      bindE (ent tables (2 + slot div 512) (slot mod 512)) (\<lambda>(lo, hi).
      Inr (bad @ (if lo AND PRESENT = 0 \<or> page_base lo \<noteq> la div 0x200000 * 0x200000
                  then [(''linear 0x%x has no identity mapping'', [FI (int la)])] else []))))"

definition check_tables :: "bytes \<Rightarrow> msg list res" where
  "check_tables tables =
     bindE (ent tables 0 0) (\<lambda>(lo0, hi0).
     let base = int (page_base lo0) - 0x1000 in
     bindE (check_dir tables base ''PML4[0]'' 0 0 0x1000 []) (\<lambda>bad.
     bindE (first_set tables 0 [1..<512]) (\<lambda>r4.
     let bad = bad @ (case r4 of Some i \<Rightarrow> [(''PML4[%d] is set but nothing maps that range'', [FI (int i)])] | None \<Rightarrow> []) in
     bindE (foldE (\<lambda>idx. check_dir tables base (''PDPT['' @ dec idx @ '']'') 1 idx (0x2000 + int idx * 0x1000)) [0..<4] bad) (\<lambda>bad.
     bindE (first_set tables 1 [4..<512]) (\<lambda>r3.
     let bad = bad @ (case r3 of Some i \<Rightarrow> [(''PDPT[%d] maps past 4 GiB without a table'', [FI (int i)])] | None \<Rightarrow> []) in
     bindE (check_pdt tables [0..<2048]) (\<lambda>pdt.
     foldE (check_probe tables) probes (bad @ pdt)))))))"

text \<open>The dump the page table program leaves, and what is said of it.\<close>

definition pages_asm :: "string \<Rightarrow> string \<Rightarrow> string res" where
  "pages_asm src dump =
     bindE (extract_text src ''qizo_zero:'' ''fail_c1:'' False) (\<lambda>body0.
     let body = replace_str ''qizo_build_pages:'' ''body:'' body0 in
     Inr (join_nl ([tab ''.code32''] @
       map (\<lambda>x. tab ''.set '' @ x)
         [''QIZO_PAGE_PML4, tables'', ''QIZO_PAGE_PDPT, tables + 0x1000'', ''QIZO_PAGE_PDT, tables + 0x2000'',
          ''QIZO_PT_PAGE, '' @ dec PT_PAGE, ''QIZO_PT_DIR, '' @ dec PT_DIR] @
       [tab ''.text'', tab ''.globl _start'', ''_start:'', tab ''call body''] @
       spill ''fdslot'' ''tables'' ''movl $0x6000, %edx'' @ epilogue @
       [rstrip_nl body, tab ''.data'', ''apath:'', tab ''.asciz '' @ quoted dump, tab ''.align 4'', ''fdslot:'', tab ''.long 0'',
        tab ''.bss'', tab ''.align 4096'', ''tables:'', tab ''.zero 0x6000'', []])))"

definition pages_case :: "(string \<Rightarrow> string \<Rightarrow> bytes run res) \<Rightarrow> string \<Rightarrow> string \<Rightarrow> msg list run res" where
  "pages_case run32 src tmp =
     bindE (pages_asm src (tmp @ ''/tables.bin'')) (\<lambda>asm.
     bindR (run32 ''pages'' asm) (\<lambda>tables.
     if length tables < 0x6000
     then Inr (Ran [(''page table dump truncated at %d bytes'', [FI (int (length tables))])])
     else liftR (check_tables tables)))"

subsection \<open>The interrupt gates of the kernel\<close>

text \<open>The symbols of the program, from the output of \<open>nm\<close>: lines of exactly three words.\<close>

definition sym_line :: "string \<Rightarrow> (string \<rightharpoonup> int) \<Rightarrow> (string \<rightharpoonup> int) res" where
  "sym_line line syms =
     (case split_ws line of
        [v, k, name] \<Rightarrow>
          (case py_int16 v of
             Some x \<Rightarrow> Inr (syms(name \<mapsto> x))
           | None \<Rightarrow> Inl (ValueError ''invalid literal for int() with base 16''))
      | _ \<Rightarrow> Inr syms)"

definition sym_table :: "string \<Rightarrow> (string \<rightharpoonup> int) res" where
  "sym_table out = foldE sym_line (split_nl out) Map.empty"

definition idt_asm :: "string \<Rightarrow> string \<Rightarrow> string res" where
  "idt_asm txt dump =
     bindE (span txt ''qizo_isr_common:'' None) (\<lambda>stubs.
     bindE (span txt ''.size qizo_idt_install, . - qizo_idt_install'' (Some ''qizo_idt_install:'')) (\<lambda>install0.
     let install = replace_str ''lidt (%rax)'' ''nop'' install0 in
     Inr (join_nl ([tab ''.code64'', tab ''.text'', tab ''.globl _start'', ''_start:'', tab ''call body''] @
       spill64 ''fdslot'' ''qizo_idt'' (256 * 16) @
       [tab ''movl $60, %eax'', tab ''xorl %edi, %edi'', tab ''syscall'', rstrip_nl stubs, ''qizo_isr_common:'', tab ''ret'',
        replace_str ''qizo_idt_install:'' ''body:'' (rstrip_nl install), tab ''.data'', ''apath:'', tab ''.asciz '' @ quoted dump,
        tab ''.align 8'', ''fdslot:'', tab ''.quad 0'', ''qizo_idt_ptr:'', tab ''.word 256 * 16 - 1'', tab ''.quad qizo_idt'',
        tab ''.bss'', tab ''.balign 16'', ''qizo_idt:'', tab ''.skip 4096'', []]))))"

definition stub_name :: "nat \<Rightarrow> string" where
  "stub_name vec = (if vec < 32 then ''qizo_stub_'' @ dec vec else ''qizo_irq_'' @ dec vec)"

record gate =
  g_off :: nat
  g_sel :: nat
  g_attr :: nat
  g_ist :: nat
  g_rsv :: nat

definition unpack_gate :: "bytes \<Rightarrow> gate res" where
  "unpack_gate b =
     bindE (unpack_le 2 b 0) (\<lambda>off_lo. bindE (unpack_le 2 b 2) (\<lambda>sel. bindE (unpack_le 2 b 4) (\<lambda>attr_w.
     bindE (unpack_le 2 b 6) (\<lambda>off_mid. bindE (unpack_le 4 b 8) (\<lambda>off_hi. bindE (unpack_le 4 b 12) (\<lambda>rsv.
     Inr \<lparr>g_off = off_lo OR push_bit 16 off_mid OR push_bit 32 off_hi, g_sel = sel, g_attr = drop_bit 8 attr_w AND 0xFF,
          g_ist = attr_w AND 0x0F, g_rsv = rsv\<rparr>))))))"

definition gate_msg :: "(string \<rightharpoonup> int) \<Rightarrow> nat \<Rightarrow> gate \<Rightarrow> msg option" where
  "gate_msg syms vec gt =
     (case syms (stub_name vec) of
        None \<Rightarrow> Some (''gate %d: no stub symbol %s'', [FI (int vec), FS (stub_name vec)])
      | Some want \<Rightarrow>
          if int (g_off gt) \<noteq> want
          then Some (''gate %d points at 0x%x, its stub is at 0x%x'', [FI (int vec), FI (int (g_off gt)), FI want])
          else if g_sel gt \<noteq> 0x08
          then Some (''gate %d loads selector 0x%x instead of the 64 bit code segment'', [FI (int vec), FI (int (g_sel gt))])
          else if g_attr gt \<noteq> 0x8E \<or> g_ist gt \<noteq> 0
          then Some (''gate %d has attributes %02x ist %d, expected 8e ist 0'', [FI (int vec), FI (int (g_attr gt)), FI (int (g_ist gt))])
          else if g_rsv gt \<noteq> 0 then Some (''gate %d has a non zero reserved word'', [FI (int vec)])
          else None)"

fun check_gates :: "(string \<rightharpoonup> int) \<Rightarrow> bytes \<Rightarrow> nat list \<Rightarrow> msg list res" where
  "check_gates syms data [] = Inr []"
| "check_gates syms data (vec # vs) =
     bindE (unpack_gate (bslice (vec * 16) (vec * 16 + 16) data)) (\<lambda>gt.
     case gate_msg syms vec gt of Some m \<Rightarrow> Inr [m] | None \<Rightarrow> check_gates syms data vs)"

definition check_idt :: "(string \<rightharpoonup> int) \<Rightarrow> bytes \<Rightarrow> msg list res" where
  "check_idt syms data =
     (if length data < 4096 then Inr [(''idt dump truncated at %d bytes'', [FI (int (length data))])]
      else check_gates syms data [0..<256])"

definition idt_case :: "(string \<Rightarrow> string \<Rightarrow> (string \<times> bytes res) run res) \<Rightarrow> string \<Rightarrow> string \<Rightarrow> msg list run res" where
  "idt_case run64 txt tmp =
     bindE (idt_asm txt (tmp @ ''/idt.bin'')) (\<lambda>asm.
     bindR (run64 ''idt'' asm) (\<lambda>(nm_out, dump).
     bindE (sym_table nm_out) (\<lambda>syms.
     bindE dump (\<lambda>data.
     liftR (check_idt syms data)))))"

subsection \<open>The boot fault handler\<close>

definition report_body :: "string \<Rightarrow> string res" where
  "report_body src =
     bindE (str_index ''.section .qizo_fault'' src 0) (\<lambda>pos.
     let body = replace_str (''.section .qizo_fault,'' @ [CHR 0x22] @ ''ax'' @ [CHR 0x22]) [] (drop pos src);
         body = replace_str (tab ''inb %dx, %al'') (tab ''movl $0x60, %eax'') body;
         body = replace_str (tab ''outb %al, %dx'') (tab ''movb %al, (%rbx)'' @ nl @ tab ''incq %rbx'') body;
         body = replace_str (tab ''movq %cr2, %r9'') (tab ''movq $0xdeadbeef, %r9'') body;
         body = replace_str (tab ''cli'' @ nl) (tab ''nop'' @ nl) body;
         body = replace_str (tab ''movq %cr2, %rdx'') (tab ''movq $0xdeadbeef, %rdx'') body in
     bindE (str_index (nl @ ''25:'' @ nl) body 0) (\<lambda>at25.
     let tail = at25 + 1 in
     bindE (str_index (nl @ nl) body tail) (\<lambda>nxt.
     Inr (take tail body @ tab ''jmp done'' @ drop nxt body))))"

definition report_asm :: "string \<Rightarrow> string \<Rightarrow> string res" where
  "report_asm src dump =
     bindE (report_body src) (\<lambda>body.
     Inr (join_nl ([tab ''.code64'', tab ''.text'', tab ''.globl _start'', ''_start:'', tab ''.set QIZO_IDT_BOOT, 0x307000'',
        tab ''movabsq $outbuf, %rbx'', tab ''pushq $done'', tab ''pushq $0x2'', tab ''pushq $0x10'', tab ''pushq $0x100040'',
        tab ''pushq $0'', tab ''pushq $13'', tab ''jmp qizo_fault_common'', ''done:'', tab ''leaq outbuf(%rip), %rsi''] @
       spill64 ''fdslot'' ''outbuf'' 128 @
       [tab ''movl $60, %eax'', tab ''xorl %edi, %edi'', tab ''syscall'', body, tab ''.data'', ''apath:'', tab ''.asciz '' @ quoted dump,
        tab ''.align 8'', ''fdslot:'', tab ''.quad 0'', tab ''.bss'', tab ''.balign 16'', ''outbuf:'', tab ''.zero 512'', []])))"

text \<open>\<open>%016X\<close>.\<close>

definition hex16 :: "nat \<Rightarrow> string" where
  "hex16 n = (let h = map upper_char (hex n) in replicate (16 - length h) (CHR ''0'') @ h)"

definition report_want :: bytes where
  "report_want = encode (''F'' @ hex16 13 @ hex16 0 @ hex16 0x100040 @ hex16 0xDEADBEEF)"

definition text_of :: "bytes \<Rightarrow> string" where
  "text_of b = map (\<lambda>x. char_of (unat x)) b"

definition check_report :: "bytes \<Rightarrow> msg list" where
  "check_report got =
     (if take (length report_want) got = report_want then []
      else [(''report printed %r, expected %r...'', [FS (text_of (take (length report_want) got)), FS (text_of report_want)])])"

definition fault_report_case :: "(string \<Rightarrow> string \<Rightarrow> (string \<times> bytes res) run res) \<Rightarrow> string \<Rightarrow> string \<Rightarrow> msg list run res" where
  "fault_report_case run64 src tmp =
     bindE (report_asm src (tmp @ ''/report.txt'')) (\<lambda>asm.
     bindR (run64 ''report'' asm) (\<lambda>(nm_out, dump).
     bindE (sym_table nm_out) (\<lambda>_.
     bindE dump (\<lambda>got.
     Inr (Ran (check_report got))))))"

definition fault_stubs :: "string list" where
  "fault_stubs = map (\<lambda>i. tab (tab ''.long 0x20000 + '' @ dec (i * 16))) [0..<32]"

definition fault_gates_asm :: "string \<Rightarrow> string \<Rightarrow> string res" where
  "fault_gates_asm src dump =
     bindE (str_index (tab ''movl $qizo_fstub_table, %esi'') src 0) (\<lambda>a.
     bindE (str_index (tab ''lidt qizo_fidt_ptr'') src 0) (\<lambda>b.
     let body = bslice a b src in
     Inr (join_nl ([tab ''.code32'', tab ''.set QIZO_IDT_BOOT, idtblob'', tab ''.text'', tab ''.globl _start'', ''_start:'', tab ''nop'',
        replace_str ''lidt qizo_fidt_ptr'' ''nop'' body] @
       spill ''fdslot'' ''idtblob'' ''movl $512, %edx'' @
       [tab ''movl $1, %eax'', tab ''xorl %ebx, %ebx'', tab ''int $0x80'', tab ''.data'', ''apath:'', tab ''.asciz '' @ quoted dump,
        tab ''.align 4'', ''fdslot:'', tab ''.long 0'', ''qizo_fstub_table:'',
        join_nl fault_stubs,
        ''qizo_fidt_ptr:'', tab ''.word 32 * 16 - 1'', tab ''.long QIZO_IDT_BOOT'', tab ''.bss'', tab ''.balign 16'', ''idtblob:'',
        tab ''.zero 512'', []]))))"

definition fault_gate_msg :: "nat \<Rightarrow> nat \<Rightarrow> nat \<Rightarrow> msg option" where
  "fault_gate_msg vec lo mid =
     (let want_off = 0x20000 + vec * 16 in
      if lo AND 0xFFFF \<noteq> want_off AND 0xFFFF \<or> drop_bit 16 lo \<noteq> 0x0028
      then Some (''gate %d first word %08x, expected offset %04x with selector 0x0028'', [FI (int vec), FI (int lo), FI (int (want_off AND 0xFFFF))])
      else if drop_bit 16 mid \<noteq> drop_bit 16 want_off \<or> mid AND 0xFFFF \<noteq> 0x8E00
      then Some (''gate %d second word %08x, expected offset %04x with attributes 8e00'', [FI (int vec), FI (int mid), FI (int (drop_bit 16 want_off))])
      else None)"

fun check_fault_gates :: "bytes \<Rightarrow> nat list \<Rightarrow> msg list res" where
  "check_fault_gates data [] = Inr []"
| "check_fault_gates data (vec # vs) =
     bindE (unpack_le 4 data (vec * 16)) (\<lambda>lo. bindE (unpack_le 4 data (vec * 16 + 4)) (\<lambda>mid.
     case fault_gate_msg vec lo mid of
       Some m \<Rightarrow> Inr [m]
     | None \<Rightarrow>
         bindE (unpack_le 4 data (vec * 16 + 8)) (\<lambda>h0. bindE (unpack_le 4 data (vec * 16 + 12)) (\<lambda>h1.
         if (h0, h1) \<noteq> (0, 0) then Inr [(''gate %d has a non zero high half'', [FI (int vec)])]
         else check_fault_gates data vs))))"

definition fault_gates_case :: "(string \<Rightarrow> string \<Rightarrow> bytes run res) \<Rightarrow> string \<Rightarrow> string \<Rightarrow> msg list run res" where
  "fault_gates_case run32 src tmp =
     bindE (fault_gates_asm src (tmp @ ''/fidt.bin'')) (\<lambda>asm.
     bindR (run32 ''fidt'' asm) (\<lambda>data.
     if length data < 512 then Inr (Ran [(''idt dump truncated at %d bytes'', [FI (int (length data))])])
     else liftR (check_fault_gates data [0..<32])))"

subsection \<open>The decompressor and the command\<close>

function trim_end :: "bytes \<Rightarrow> nat \<Rightarrow> nat \<Rightarrow> nat" where
  "trim_end img off e = (if e > off \<and> img ! (e - 1) = 0 then trim_end img off (e - 1) else e)"
  by pat_completeness auto
termination by (relation "measure (\<lambda>(img, off, e). e)") auto

declare trim_end.simps [simp del]

definition blob_of :: "bytes \<Rightarrow> bytes" where
  "blob_of img =
     (let off = BLOB_LBA * SECTOR; e = min (off + BLOB_MAX) (length img) in
      bslice off (trim_end img off e) img)"

definition decompress_asm :: "string \<Rightarrow> string \<Rightarrow> string \<Rightarrow> string res" where
  "decompress_asm src outpath inpath =
     bindE (extract_text src ''qizo_decompress:'' ''decomp_ret:'' True) (\<lambda>body.
     Inr (join_nl ([tab ''.code32'', tab ''.set QIZO_LZSS_MAGIC, '' @ dec LY_LZSS_MAGIC, tab ''.set QIZO_BOOTINFO, bootinfo'',
        tab ''.set QIZO_BI_ERR, 0'', tab ''.text'', tab ''.globl _start'', ''_start:'', tab ''movl $outbuf, %edi'',
        tab ''movl $indata, %esi'', tab ''movl $inlen, %ecx'', tab ''call body'', tab ''movl indata + 4, %eax'', tab ''movl %eax, outlen''] @
       spill ''outfd'' ''outbuf'' ''movl outlen, %edx'' @ epilogue @
       [replace_str ''qizo_decompress:'' ''body:'' (rstrip_nl body), tab ''.data'', ''apath:'', tab ''.asciz '' @ quoted outpath,
        tab ''.align 4'', ''outfd:'', tab ''.long 0'', ''outlen:'', tab ''.long 0'', ''indata:'', tab ''.incbin '' @ quoted inpath,
        ''inend:'', tab ''.set inlen, inend - indata'', tab ''.bss'', tab ''.align 16'', ''bootinfo:'', tab ''.zero 16'',
        ''outbuf:'', tab ''.zero 1048576'', []])))"

definition entry_marker :: bytes where
  "entry_marker = [0xB0, 0x45, 0xBA, 0xF8, 0x03, 0x00, 0x00, 0xEE]"

text \<open>\<open>main\<close>: the exit status; \<open>run_decomp\<close> is given the input file of the program as well.\<close>

definition asmrun ::
    "(string \<Rightarrow> bytes \<Rightarrow> bytes run res) \<Rightarrow> (string \<Rightarrow> string \<Rightarrow> bytes run res) \<Rightarrow>
     (string \<Rightarrow> string \<Rightarrow> (string \<times> bytes res) run res) \<Rightarrow>
     string \<Rightarrow> string \<Rightarrow> string \<Rightarrow> bytes \<Rightarrow> nat res" where
  "asmrun run_decomp run32 run64 src idt_src tmp img =
     (let blob = blob_of img in
      case decompress blob of
        Inl e \<Rightarrow> Inr 1
      | Inr ref \<Rightarrow>
          bindE (bindE (decompress_asm src (tmp @ ''/out.bin'') (tmp @ ''/in.bin'')) (\<lambda>asm.
                 bindR (run_decomp asm blob) (\<lambda>got.
                 if got \<noteq> ref then Inr (Ran (1 :: nat))
                 else bindR (pages_case run32 src tmp) (\<lambda>problems.
                   if problems \<noteq> [] then Inr (Ran 1)
                   else if bslice QIZOK_HDR (QIZOK_HDR + 8) ref \<noteq> entry_marker then Inr (Ran 1)
                   else Inr (Ran 0))))) (\<lambda>r.
          case r of
            Unsupported \<Rightarrow> Inr 0
          | Ran 0 \<Rightarrow>
              bindE (bindR (idt_case run64 idt_src tmp) (\<lambda>problems.
                     if problems \<noteq> [] then Inr (Ran 1)
                     else bindR (fault_report_case run64 src tmp) (\<lambda>problems.
                       if problems \<noteq> [] then Inr (Ran 1)
                       else bindR (fault_gates_case run32 src tmp) (\<lambda>problems.
                         if problems \<noteq> [] then Inr (Ran 1) else Inr (Ran 0))))) (\<lambda>r2.
              case r2 of Unsupported \<Rightarrow> Inr 0 | Ran v \<Rightarrow> Inr v)
          | Ran v \<Rightarrow> Inr v))"

section \<open>The tables map every address below 4 GiB to itself\<close>

text \<open>
  The four-level walk of the processor over tables that lie at the physical address \<open>p\<close>: an
  entry outside them, or one without its present bit, gives no translation.
\<close>

definition entry64 :: "bytes \<Rightarrow> nat \<Rightarrow> nat \<Rightarrow> nat option" where
  "entry64 t p phys =
     (if p \<le> phys \<and> phys + 8 \<le> p + length t then Some (le_nat (bslice (phys - p) (phys - p + 8) t)) else None)"

definition frame :: "nat \<Rightarrow> nat" where
  "frame e = e div 2 ^ 12 mod 2 ^ 40 * 2 ^ 12"

definition big :: "nat \<Rightarrow> bool" where
  "big e \<longleftrightarrow> odd (e div 2 ^ 7)"

definition walk :: "bytes \<Rightarrow> nat \<Rightarrow> nat \<Rightarrow> nat option" where
  "walk t p la =
     (case entry64 t p (p + 8 * (la div 2 ^ 39 mod 512)) of None \<Rightarrow> None | Some e4 \<Rightarrow>
      if even e4 then None else
      case entry64 t p (frame e4 + 8 * (la div 2 ^ 30 mod 512)) of None \<Rightarrow> None | Some e3 \<Rightarrow>
      if even e3 then None else if big e3 then Some (e3 div 2 ^ 30 mod 2 ^ 22 * 2 ^ 30 + la mod 2 ^ 30) else
      case entry64 t p (frame e3 + 8 * (la div 2 ^ 21 mod 512)) of None \<Rightarrow> None | Some e2 \<Rightarrow>
      if even e2 then None else if big e2 then Some (e2 div 2 ^ 21 mod 2 ^ 31 * 2 ^ 21 + la mod 2 ^ 21) else
      case entry64 t p (frame e2 + 8 * (la div 2 ^ 12 mod 512)) of None \<Rightarrow> None | Some e1 \<Rightarrow>
      if even e1 then None else Some (frame e1 + la mod 2 ^ 12))"

lemma ent_entry64:
  assumes "ent t page idx = Inr (lo, hi)"
  shows "entry64 t p (p + page * 4096 + 8 * idx) = Some (lo + 2 ^ 32 * hi)" "lo < 2 ^ 32"
proof -
  let ?o = "page * 4096 + idx * 8"
  have u: "unpack_le 4 t ?o = Inr lo" "unpack_le 4 t (?o + 4) = Inr hi" using assms by (auto simp: ent_def Let_def)
  then have l: "?o + 8 \<le> length t" and lo: "lo = le_nat (bslice ?o (?o + 4) t)" and hi: "hi = le_nat (bslice (?o + 4) (?o + 8) t)"
    by (simp_all add: unpack_le_eq_Inr add.commute add.left_commute)
  have "bslice ?o (?o + 8) t = bslice ?o (?o + 4) t @ bslice (?o + 4) (?o + 8) t" by (rule bslice_split) simp_all
  then have "le_nat (bslice ?o (?o + 8) t) = lo + 2 ^ 32 * hi" using l by (simp add: le_nat_append lo hi del: add.commute)
  then show "entry64 t p (p + page * 4096 + 8 * idx) = Some (lo + 2 ^ 32 * hi)"
    using l by (simp add: entry64_def mult.commute add.assoc)
  show "lo < 2 ^ 32" using unpack_le_less [OF u(1)] by simp
qed

definition dir_ok :: "bytes \<Rightarrow> int \<Rightarrow> nat \<Rightarrow> nat \<Rightarrow> int \<Rightarrow> bool" where
  "dir_ok t base page idx want \<longleftrightarrow>
     (\<exists>lo. ent t page idx = Inr (lo, 0) \<and> odd lo \<and> \<not> big lo \<and> int (page_base lo) - base = want)"

lemma check_dir_nil: "check_dir t base loc page idx want bad = Inr [] \<Longrightarrow> bad = [] \<and> dir_ok t base page idx want"
proof -
  assume a: "check_dir t base loc page idx want bad = Inr []"
  then obtain lo hi where e: "ent t page idx = Inr (lo, hi)" and b: "bad = []" "lo AND PRESENT \<noteq> 0" "lo AND PS = 0" "hi = 0"
    "int (page_base lo) - base = want"
    by (auto simp: check_dir_def split: if_splits)
  have "odd lo" using b(2) by (simp add: PRESENT_def and_one_eq odd_iff_mod_2_eq_one)
  moreover have "\<not> big lo"
    using b(3) and_exp_eq_0_iff_not_bit [of lo 7] by (simp add: PS_def big_def bit_iff_odd)
  ultimately show ?thesis using e b(1,4,5) unfolding dir_ok_def by blast
qed

lemma first_set_None: "first_set t page is = Inr None \<Longrightarrow> \<forall>i \<in> set is. ent t page i = Inr (0, 0)"
  by (induction "is") (auto split: if_splits)

lemma check_pdt_nil:
  "check_pdt t ss = Inr [] \<Longrightarrow> \<forall>s \<in> set ss. ent t (2 + s div 512) (s mod 512) = Inr (s * 0x200000 OR PT_PAGE, 0)"
proof (induction ss)
  case (Cons s ss)
  have i: "s * 8 div 4096 = s div 512" "s * 8 mod 4096 div 8 = s mod 512"
    using div_mult_mult2 [of 8 s 512] mult_mod_left [of s 512 8] by simp_all
  obtain lo hi where e: "ent t (2 + s div 512) (s mod 512) = Inr (lo, hi)" using Cons.prems by (auto simp: i)
  then have "lo = (s * 0x200000 OR PT_PAGE) \<and> hi = 0 \<and> check_pdt t ss = Inr []"
    using Cons.prems by (simp add: i Let_def split: if_splits)
  then show ?case using Cons.IH e by simp
qed simp

lemma pdt_word: "s * 0x200000 OR PT_PAGE = s * 2 ^ 21 + 131"
  using push_bit_or_add [of 131 21 s] by (simp add: PT_PAGE_def push_bit_eq_mult)

lemma check_tables_nil:
  assumes "check_tables t = Inr []" "ent t 0 0 = Inr (lo0, hi0)"
  defines "base \<equiv> int (page_base lo0) - 0x1000"
  shows "dir_ok t base 0 0 0x1000" "\<And>i. 1 \<le> i \<Longrightarrow> i < 512 \<Longrightarrow> ent t 0 i = Inr (0, 0)"
    "\<And>i. i < 4 \<Longrightarrow> dir_ok t base 1 i (0x2000 + int i * 0x1000)" "\<And>i. 4 \<le> i \<Longrightarrow> i < 512 \<Longrightarrow> ent t 1 i = Inr (0, 0)"
    "\<And>s. s < 2048 \<Longrightarrow> ent t (2 + s div 512) (s mod 512) = Inr (s * 2 ^ 21 + 131, 0)"
proof -
  let ?m4 = "\<lambda>r. case r of Some i \<Rightarrow> [(''PML4[%d] is set but nothing maps that range'', [FI (int i)])] | None \<Rightarrow> []"
  let ?m3 = "\<lambda>r. case r of Some i \<Rightarrow> [(''PDPT[%d] maps past 4 GiB without a table'', [FI (int i)])] | None \<Rightarrow> []"
  obtain b1 r4 b2 r3 pdt where c: "check_dir t base ''PML4[0]'' 0 0 0x1000 [] = Inr b1" "first_set t 0 [1..<512] = Inr r4"
    "foldE (\<lambda>idx. check_dir t base (''PDPT['' @ dec idx @ '']'') 1 idx (0x2000 + int idx * 0x1000)) [0..<4] (b1 @ ?m4 r4) = Inr b2"
    "first_set t 1 [4..<512] = Inr r3" "check_pdt t [0..<2048] = Inr pdt"
    "foldE (check_probe t) probes ((b2 @ ?m3 r3) @ pdt) = Inr []"
    using assms(1) unfolding check_tables_def assms(2) bindE_simps prod.case Let_def base_def bindE_eq_Inr by blast
  have "check_probe t la s = Inr [] \<Longrightarrow> s = [] \<and> True" for la s
    by (auto simp: check_probe_def Let_def split: if_splits)
  from foldE_nil [OF this c(6)] have n: "b2 = []" "?m3 r3 = []" "pdt = []" by auto
  have "check_dir t base (''PDPT['' @ dec idx @ '']'') 1 idx (0x2000 + int idx * 0x1000) s = Inr [] \<Longrightarrow>
      s = [] \<and> dir_ok t base 1 idx (0x2000 + int idx * 0x1000)" for idx s by (rule check_dir_nil)
  then have f: "b1 = []" "?m4 r4 = []" "\<forall>i \<in> set [0..<4]. dir_ok t base 1 i (0x2000 + int i * 0x1000)"
    using foldE_nil [where P = "\<lambda>i. dir_ok t base 1 i (0x2000 + int i * 0x1000)", OF _ c(3) [unfolded n(1)]]
    unfolding append_is_Nil_conv by blast+
  have r: "r4 = None" "r3 = None" using n(2) f(2) by (auto split: option.splits)
  show "dir_ok t base 0 0 0x1000" using check_dir_nil c(1) f(1) by blast
  show "ent t 0 i = Inr (0, 0)" if "1 \<le> i" "i < 512" for i
    using first_set_None [OF c(2) [unfolded r(1)]] that unfolding set_upt by simp
  show "dir_ok t base 1 i (0x2000 + int i * 0x1000)" if "i < 4" for i
    using f(3) that unfolding set_upt by simp
  show "ent t 1 i = Inr (0, 0)" if "4 \<le> i" "i < 512" for i
    using first_set_None [OF c(4) [unfolded r(2)]] that unfolding set_upt by simp
  show "ent t (2 + s div 512) (s mod 512) = Inr (s * 2 ^ 21 + 131, 0)" if "s < 2048" for s
    using check_pdt_nil [OF c(5) [unfolded n(3)]] that unfolding set_upt pdt_word by simp
qed

lemma frame_page_base: "lo < 2 ^ 32 \<Longrightarrow> frame lo = page_base lo"
proof -
  assume "lo < 2 ^ 32"
  then have "lo div 2 ^ 12 < 2 ^ 40" by (simp add: less_mult_imp_div_less)
  then show ?thesis by (simp add: frame_def page_base_def)
qed

lemma dir_ok_entry:
  assumes "dir_ok t (int p) page idx (int w)"
  obtains lo where "entry64 t p (p + page * 4096 + 8 * idx) = Some lo" "odd lo" "\<not> big lo" "frame lo = p + w"
proof -
  obtain lo where lo: "ent t page idx = Inr (lo, 0)" "odd lo" "\<not> big lo" "int (page_base lo) - int p = int w"
    using assms unfolding dir_ok_def by blast
  note e = ent_entry64 [OF lo(1)]
  have "frame lo = p + w" using lo(4) frame_page_base [OF e(2)] by linarith
  then show thesis using that e(1) [of p] lo(2,3) by simp
qed

lemma walk_identity:
  assumes c: "check_tables t = Inr []" and e0: "ent t 0 0 = Inr (lo0, hi0)" and p: "page_base lo0 = p + 0x1000" and la: "la < 2 ^ 32"
  shows "walk t p la = Some la"
proof -
  have base: "int (page_base lo0) - 0x1000 = int p" using p by simp
  note k = check_tables_nil [OF c e0, unfolded base]
  define s where "s = la div 2 ^ 21"
  have sd: "la div 2097152 = s" by (simp add: s_def)
  have s: "s < 2048" "la div 2 ^ 30 = s div 512" "la = s * 2 ^ 21 + la mod 2 ^ 21"
    using la by (simp_all add: s_def less_mult_imp_div_less div_mult2_eq [symmetric] flip: div_mult2_eq)
  have i4: "la div 2 ^ 39 mod 512 = 0" and i3: "la div 2 ^ 30 mod 512 = s div 512" "s div 512 < 4"
    using la s(1,2) by (simp_all add: less_mult_imp_div_less)
  obtain e4 where e4: "entry64 t p (p + 0 * 4096 + 8 * 0) = Some e4" "odd e4" "frame e4 = p + 4096"
    using dir_ok_entry [of t p 0 0 4096] k(1) by auto
  obtain e3 where e3: "entry64 t p (p + 1 * 4096 + 8 * (s div 512)) = Some e3" "odd e3" "\<not> big e3"
    "frame e3 = p + (8192 + s div 512 * 4096)"
    using dir_ok_entry [of t p 1 "s div 512" "8192 + s div 512 * 4096"] k(3) [OF i3(2)] by auto
  let ?e2 = "s * 2 ^ 21 + 131"
  have "entry64 t p (p + (2 + s div 512) * 4096 + 8 * (s mod 512)) = Some ?e2"
    using ent_entry64(1) [OF k(5) [OF s(1)], of p] by simp
  moreover have "odd ?e2" by simp
  moreover have "(s * 2097152 + 131) div 128 = s * 16384 + 1" "(s * 2097152 + 131) div 2097152 = s" by presburger+
  then have "big ?e2" "?e2 div 2 ^ 21 mod 2 ^ 31 = s" using s(1) by (simp_all add: big_def)
  ultimately have "walk t p la = Some (s * 2 ^ 21 + la mod 2 ^ 21)"
    using e4 e3 i4 i3(1) sd unfolding walk_def by (simp add: add.assoc add_mult_distrib)
  then show ?thesis using s(3) by simp
qed

lemma walk_unmapped:
  assumes c: "check_tables t = Inr []" and e0: "ent t 0 0 = Inr (lo0, hi0)" and p: "page_base lo0 = p + 0x1000"
    and la: "2 ^ 32 \<le> la" "la < 2 ^ 48"
  shows "walk t p la = None"
proof (cases "la div 2 ^ 39 = 0")
  case True
  have base: "int (page_base lo0) - 0x1000 = int p" using p by simp
  note k = check_tables_nil [OF c e0, unfolded base]
  obtain e4 where e4: "entry64 t p (p + 0 * 4096 + 8 * 0) = Some e4" "odd e4" "frame e4 = p + 4096"
    using dir_ok_entry [of t p 0 0 4096] k(1) by auto
  have "la < 2 ^ 39" using True by (simp add: div_eq_0_iff)
  then have i3: "4 \<le> la div 2 ^ 30" "la div 2 ^ 30 < 512" using la(1) by (simp_all add: less_mult_imp_div_less less_eq_div_iff_mult_less_eq)
  have "entry64 t p (p + 1 * 4096 + 8 * (la div 2 ^ 30)) = Some 0"
    using ent_entry64(1) [OF k(4) [OF i3], of p] by simp
  then show ?thesis using e4 True i3(2) unfolding walk_def by simp
next
  case False
  have i: "1 \<le> la div 2 ^ 39" "la div 2 ^ 39 < 512" using False la(2) by (simp_all add: less_mult_imp_div_less)
  have "entry64 t p (p + 0 * 4096 + 8 * (la div 2 ^ 39)) = Some 0"
    using ent_entry64(1) [OF check_tables_nil(2) [OF c e0 i], of p] by simp
  then show ?thesis using i(2) unfolding walk_def by simp
qed

text \<open>The tables stage2 is meant to build: six pages at \<open>p\<close>.\<close>

definition table_words :: "nat \<Rightarrow> nat list" where
  "table_words p =
     [p + 0x1000 + PT_DIR] @ replicate 511 0 @
     map (\<lambda>i. p + 0x2000 + i * 0x1000 + PT_DIR) [0..<4] @ replicate 508 0 @
     map (\<lambda>s. s * 0x200000 + PT_PAGE) [0..<2048]"

definition identity_tables :: "nat \<Rightarrow> bytes" where
  "identity_tables p = concat (map (le_bytes 8) (table_words p))"

lemma length_concat_words: "length (concat (map (le_bytes 8) ws)) = 8 * length ws"
  by (induction ws) simp_all

lemma bslice_words:
  "k < length ws \<Longrightarrow> a + b \<le> 8 \<Longrightarrow> bslice (8 * k + a) (8 * k + a + b) (concat (map (le_bytes 8) ws)) = take b (drop a (le_bytes 8 (ws ! k)))"
proof (induction ws arbitrary: k)
  case (Cons w ws)
  show ?case
  proof (cases k)
    case 0
    then show ?thesis using Cons.prems by (simp add: bslice_def del: le_bytes.simps)
  next
    case (Suc j)
    have "bslice (8 * k + a) (8 * k + a + b) (le_bytes 8 w @ concat (map (le_bytes 8) ws)) =
        bslice (8 * j + a) (8 * j + a + b) (concat (map (le_bytes 8) ws))"
      using Suc bslice_append_right [of "le_bytes 8 w" "8 * k + a"] by (simp add: add.assoc del: le_bytes.simps)
    then show ?thesis using Cons.IH [of j] Cons.prems Suc by simp
  qed
qed simp

lemma ent_words:
  assumes "page * 512 + idx < length ws" "ws ! (page * 512 + idx) < 2 ^ 32"
  shows "ent (concat (map (le_bytes 8) ws)) page idx = Inr (ws ! (page * 512 + idx), 0)"
proof -
  let ?k = "page * 512 + idx" and ?t = "concat (map (le_bytes 8) ws)"
  have o: "page * 4096 + idx * 8 = 8 * ?k" by simp
  have l: "8 * ?k + 8 \<le> length ?t" using assms(1) by (simp add: length_concat_words)
  have "bslice (8 * ?k) (8 * ?k + 4) ?t = le_bytes 4 (ws ! ?k)" "bslice (8 * ?k + 4) (8 * ?k + 4 + 4) ?t = le_bytes 4 (ws ! ?k div 2 ^ 32)"
    using bslice_words [OF assms(1), of 0 4] bslice_words [OF assms(1), of 4 4] by (simp_all add: le_bytes_8 del: le_bytes.simps)
  then show ?thesis
    using l assms(2) unfolding ent_def o Let_def by (simp add: unpack_le_def le_nat_le_bytes del: le_bytes.simps)
qed

lemma words_nth:
  "table_words p ! 0 = p + 0x1003" "1 \<le> i \<Longrightarrow> i < 512 \<Longrightarrow> table_words p ! i = 0"
  "i < 4 \<Longrightarrow> table_words p ! (512 + i) = p + 0x2003 + i * 0x1000" "4 \<le> i \<Longrightarrow> i < 512 \<Longrightarrow> table_words p ! (512 + i) = 0"
  "s < 2048 \<Longrightarrow> table_words p ! (1024 + s) = s * 0x200000 + 131" "length (table_words p) = 3072"
  by (auto simp: table_words_def nth_append nth_Cons' PT_DIR_def PT_PAGE_def simp del: upt_Suc)

lemma and_low12: "m < 4096 \<Longrightarrow> x AND m = (x mod 4096) AND m" for x m :: nat
proof -
  assume "m < 4096"
  then have m: "take_bit 12 m = m" by (simp add: take_bit_nat_eq_self)
  have "x AND take_bit 12 m = take_bit 12 x AND take_bit 12 m" by (rule bit_eqI) (auto simp: bit_simps)
  then show ?thesis unfolding m by (simp add: take_bit_eq_mod)
qed

lemma dir_word:
  assumes "q mod 4096 = 0"
  shows "(q + 3) AND PRESENT \<noteq> 0" "(q + 3) AND PS = 0" "(q + 3) AND 0x300 = 0" "page_base (q + 3) = q"
proof -
  obtain k where q: "q = 4096 * k" using assms by (metis mod_0_imp_dvd dvdE)
  have m: "(q + 3) mod 4096 = 3" "(q + 3) div 4096 = k" unfolding q by simp_all
  show "(q + 3) AND PRESENT \<noteq> 0" "(q + 3) AND PS = 0" "(q + 3) AND 0x300 = 0"
    using and_low12 [of PRESENT "q + 3"] and_low12 [of PS "q + 3"] and_low12 [of "0x300" "q + 3"] unfolding m by (simp_all add: PRESENT_def PS_def)
  show "page_base (q + 3) = q" by (simp add: page_base_def m(2) q)
qed

lemma check_dir_ok:
  assumes "ent t page idx = Inr (q + 3, 0)" "q mod 4096 = 0" "int q - base = want"
  shows "check_dir t base loc page idx want bad = Inr bad"
  using assms dir_word [OF assms(2)] by (simp add: check_dir_def)

lemma first_set_ok: "\<forall>i \<in> set is. ent t page i = Inr (0, 0) \<Longrightarrow> first_set t page is = Inr None"
  by (induction "is") auto

lemma check_pdt_ok:
  "\<forall>s \<in> set ss. ent t (2 + s div 512) (s mod 512) = Inr (s * 2 ^ 21 + 131, 0) \<Longrightarrow> check_pdt t ss = Inr []"
proof (induction ss)
  case (Cons s ss)
  have i: "s * 8 div 4096 = s div 512" "s * 8 mod 4096 div 8 = s mod 512"
    using div_mult_mult2 [of 8 s 512] mult_mod_left [of s 512 8] by simp_all
  show ?case using Cons pdt_word [of s] by (simp add: i Let_def)
qed simp

lemma check_probe_ok:
  assumes "\<And>s. s < 2048 \<Longrightarrow> ent t (2 + s div 512) (s mod 512) = Inr (s * 2 ^ 21 + 131, 0)" "la \<in> set probes"
  shows "check_probe t la bad = Inr bad"
proof -
  have "\<exists>s < 2048. (drop_bit 21 la AND 0x1FF) OR push_bit 9 (drop_bit 30 la AND 3) = s \<and> la div 0x200000 = s"
    using assms(2) by (auto simp: probes_def drop_bit_eq_div push_bit_eq_mult)
  then obtain s where s: "s < 2048" "(drop_bit 21 la AND 0x1FF) OR push_bit 9 (drop_bit 30 la AND 3) = s" "la div 0x200000 = s" by blast
  have p: "page_base (s * 2 ^ 21 + 131) = s * 0x200000"
  proof -
    have "(s * 2097152 + 131) div 4096 = s * 512" by presburger
    then show ?thesis by (simp add: page_base_def)
  qed
  have "odd (s * 2 ^ 21 + 131)" by simp
  then have "(s * 2 ^ 21 + 131) AND PRESENT \<noteq> 0" unfolding PRESENT_def and_one_eq odd_iff_mod_2_eq_one by simp
  then show ?thesis using assms(1) [OF s(1)] p unfolding check_probe_def Let_def s(2,3) by simp
qed

lemma check_tables_ok:
  assumes p: "p mod 4096 = 0" "p + 0x6000 \<le> 2 ^ 32"
  shows "check_tables (identity_tables p) = Inr []" "ent (identity_tables p) 0 0 = Inr (p + 0x1003, 0)"
proof -
  let ?t = "identity_tables p" let ?base = "int p"
  have w: "ent ?t page idx = Inr (table_words p ! (page * 512 + idx), 0)"
    if "page * 512 + idx < 3072" "table_words p ! (page * 512 + idx) < 2 ^ 32" for page idx
    unfolding identity_tables_def using that by (intro ent_words) (simp_all add: words_nth(6))
  show e0: "ent ?t 0 0 = Inr (p + 0x1003, 0)" using w [of 0 0] p by (simp add: words_nth(1))
  have z4: "ent ?t 0 i = Inr (0, 0)" if "1 \<le> i" "i < 512" for i using w [of 0 i] that by (simp add: words_nth(2))
  have d3: "ent ?t 1 i = Inr (p + 0x2000 + i * 0x1000 + 3, 0)" if "i < 4" for i
    using w [of 1 i] that p by (simp add: words_nth(3))
  have z3: "ent ?t 1 i = Inr (0, 0)" if "4 \<le> i" "i < 512" for i using w [of 1 i] that by (simp add: words_nth(4))
  have pd: "ent ?t (2 + s div 512) (s mod 512) = Inr (s * 2 ^ 21 + 131, 0)" if "s < 2048" for s
  proof -
    have i: "(2 + s div 512) * 512 + s mod 512 = 1024 + s" by simp
    show ?thesis using w [of "2 + s div 512" "s mod 512", unfolded i words_nth(5) [OF that]] that by simp
  qed
  obtain k where k: "p = 4096 * k" using p(1) by (metis mod_0_imp_dvd dvdE)
  have "p + 0x2000 + i * 0x1000 = 4096 * (k + 2 + i)" for i unfolding k by simp
  then have m: "(p + 4096) mod 4096 = 0" "(p + 0x2000 + i * 0x1000) mod 4096 = 0" for i using p(1) by simp_all
  have b: "int (page_base (p + 0x1003)) - 0x1000 = ?base" using dir_word(4) [OF m(1)] by (simp add: add.commute)
  have c4: "check_dir ?t ?base ''PML4[0]'' 0 0 0x1000 bad = Inr bad" for bad
    using e0 m(1) by (intro check_dir_ok [of _ _ _ "p + 4096"]) (simp_all add: add.assoc)
  have c3: "check_dir ?t ?base (''PDPT['' @ dec i @ '']'') 1 i (0x2000 + int i * 0x1000) bad = Inr bad" if "i < 4" for i bad
    using check_dir_ok [OF d3 [OF that] m(2)] by simp
  have f3: "foldE (\<lambda>i. check_dir ?t ?base (''PDPT['' @ dec i @ '']'') 1 i (0x2000 + int i * 0x1000)) [0..<4] bad = Inr bad" for bad
    by (rule foldE_id) (use c3 in \<open>simp only: set_upt atLeastLessThan_iff\<close>)
  have pr: "foldE (check_probe ?t) probes bad = Inr bad" for bad
    by (rule foldE_id) (rule check_probe_ok [OF pd])
  have n: "first_set ?t 0 [1..<512] = Inr None" "first_set ?t 1 [4..<512] = Inr None" "check_pdt ?t [0..<2048] = Inr []"
    using z4 z3 pd by (auto intro!: first_set_ok check_pdt_ok simp del: upt_Suc)
  show "check_tables ?t = Inr []"
    unfolding check_tables_def e0 bindE_simps prod.case Let_def b c4 n f3 option.case by (simp add: pr)
qed

section \<open>The interrupt gates\<close>

lemma check_gates_nil:
  "check_gates syms data vs = Inr [] \<Longrightarrow>
   \<forall>v \<in> set vs. \<exists>gt. unpack_gate (bslice (v * 16) (v * 16 + 16) data) = Inr gt \<and> gate_msg syms v gt = None"
proof (induction vs)
  case (Cons v vs)
  obtain gt where gt: "unpack_gate (bslice (v * 16) (v * 16 + 16) data) = Inr gt" using Cons.prems by auto
  then have "gate_msg syms v gt = None \<and> check_gates syms data vs = Inr []" using Cons.prems by (cases "gate_msg syms v gt") auto
  then show ?case using Cons.IH gt by auto
qed simp

lemma gate_fields:
  assumes u: "unpack_gate (bslice a (a + 16) data) = Inr gt"
  shows "a + 16 \<le> length data" "g_off gt = le_nat (bslice a (a + 2) data @ bslice (a + 6) (a + 12) data)"
    "g_sel gt = le_nat (bslice (a + 2) (a + 4) data)" "g_attr gt = unat (data ! (a + 5))" "g_ist gt = unat (data ! (a + 4)) mod 16"
    "g_rsv gt = le_nat (bslice (a + 12) (a + 16) data)"
proof -
  let ?b = "bslice a (a + 16) data"
  obtain lo sel aw mid hi rsv where f: "unpack_le 2 ?b 0 = Inr lo" "unpack_le 2 ?b 2 = Inr sel" "unpack_le 2 ?b 4 = Inr aw"
    "unpack_le 2 ?b 6 = Inr mid" "unpack_le 4 ?b 8 = Inr hi" "unpack_le 4 ?b 12 = Inr rsv"
    and gt: "gt = \<lparr>g_off = lo OR push_bit 16 mid OR push_bit 32 hi, g_sel = sel, g_attr = drop_bit 8 aw AND 0xFF,
          g_ist = aw AND 0x0F, g_rsv = rsv\<rparr>"
    using u by (auto simp: unpack_gate_def)
  have "16 \<le> length data - a" using f(6) by (simp add: unpack_le_eq_Inr)
  then show l: "a + 16 \<le> length data" by linarith
  have s: "unpack_le w ?b k = Inr (le_nat (bslice (a + k) (a + (k + w)) data))" if "k + w \<le> 16" for w k
    using that l by (simp add: unpack_le_def bslice_bslice add.assoc)
  have v: "lo = le_nat (bslice a (a + 2) data)" "sel = le_nat (bslice (a + 2) (a + 4) data)" "aw = le_nat (bslice (a + 4) (a + 6) data)"
    "mid = le_nat (bslice (a + 6) (a + 8) data)" "hi = le_nat (bslice (a + 8) (a + 12) data)" "rsv = le_nat (bslice (a + 12) (a + 16) data)"
    using f s [of 0 2] s [of 2 2] s [of 4 2] s [of 6 2] s [of 8 4] s [of 12 4] by (simp_all add: numeral_eq_Suc)
  have b: "lo < 2 ^ 16" "mid < 2 ^ 16"
    using f(1,4) unpack_le_less [of 2 ?b 0] unpack_le_less [of 2 ?b 6] by simp_all
  have "lo OR push_bit 16 mid OR push_bit 32 hi = lo + 2 ^ 16 * (mid + 2 ^ 16 * hi)"
  proof -
    have "lo OR push_bit 16 mid OR push_bit 32 hi = push_bit 16 (push_bit 16 hi OR mid) OR lo"
      by (simp add: push_bit_or or.commute or.assoc or.left_commute)
    also have "\<dots> = push_bit 16 (push_bit 16 hi + mid) + lo" by (simp only: push_bit_or_add [OF b(1)] push_bit_or_add [OF b(2)])
    finally show ?thesis by (simp add: push_bit_eq_mult algebra_simps)
  qed
  moreover have "bslice (a + 6) (a + 12) data = bslice (a + 6) (a + 8) data @ bslice (a + 8) (a + 12) data"
    by (rule bslice_split) simp_all
  ultimately show "g_off gt = le_nat (bslice a (a + 2) data @ bslice (a + 6) (a + 12) data)"
    using l by (simp add: gt v le_nat_append)
  show "g_sel gt = le_nat (bslice (a + 2) (a + 4) data)" "g_rsv gt = le_nat (bslice (a + 12) (a + 16) data)" by (simp_all add: gt v)
  have "bslice (a + 4) (a + 6) data = [data ! (a + 4)] @ [data ! (a + 5)]"
    using l bslice_split [of "a + 4" "a + 5" "a + 6" data] bslice_one [of "a + 4" data] bslice_one [of "a + 5" data] by (simp add: add.commute)
  then have aw: "aw = unat (data ! (a + 4)) + 256 * unat (data ! (a + 5))" by (simp add: v(3))
  have "(x + 256 * y) div 256 = y" "(x + 256 * y) mod 16 = x mod 16" if "x < 256" for x y :: nat
    using that mod_mult_self2 [of x 16 "16 * y"] by simp_all
  then show "g_attr gt = unat (data ! (a + 5))" "g_ist gt = unat (data ! (a + 4)) mod 16"
    using unat_byte_less [of "data ! (a + 5)"] by (simp_all add: gt aw drop_bit_eq_div and_mask_mod)
qed

lemma half_words: "c < 65536 \<Longrightarrow> x mod 65536 = c \<and> x div 65536 = d \<longleftrightarrow> x = 65536 * d + c" for x c d :: nat
  using div_mult_mod_eq [of x 65536] by auto

lemma check_fault_gates_nil:
  assumes "512 \<le> length data" "\<forall>v \<in> set vs. v < 32"
  shows "check_fault_gates data vs = Inr [] \<longleftrightarrow>
    (\<forall>v \<in> set vs. bslice (v * 16) (v * 16 + 16) data = le_bytes 4 (0x280000 + v * 16) @ le_bytes 4 0x28E00 @ zeros 8)"
  using assms(2)
proof (induction vs)
  case (Cons v vs)
  let ?w = "\<lambda>k. bslice (v * 16 + k) (v * 16 + (k + 4)) data"
  have v: "v < 32" using Cons.prems by simp
  have l: "length (?w k) = 4" if "k \<le> 12" for k using assms(1) that v by simp
  have u: "unpack_le 4 data (v * 16 + k) = Inr (le_nat (?w k))" if "k \<le> 12" for k
    using assms(1) that v by (simp add: unpack_le_def add.assoc)
  have e: "le_nat (?w k) = x \<longleftrightarrow> ?w k = le_bytes 4 x" if "k \<le> 12" "x < 2 ^ 32" for k x
    using l [OF that(1)] that(2) le_bytes_le_nat [of "?w k"] le_nat_le_bytes [of 4 x] by auto
  have "bslice (v * 16) (v * 16 + 16) data = ?w 0 @ ?w 4 @ ?w 8 @ ?w 12"
    using bslice_split [of "v * 16" "v * 16 + 4" "v * 16 + 16" data] bslice_split [of "v * 16 + 4" "v * 16 + 8" "v * 16 + 16" data]
      bslice_split [of "v * 16 + 8" "v * 16 + 12" "v * 16 + 16" data] by simp
  then have "bslice (v * 16) (v * 16 + 16) data = le_bytes 4 (0x280000 + v * 16) @ le_bytes 4 0x28E00 @ zeros 8 \<longleftrightarrow>
      ?w 0 = le_bytes 4 (0x280000 + v * 16) \<and> ?w 4 = le_bytes 4 0x28E00 \<and> ?w 8 = le_bytes 4 0 \<and> ?w 12 = le_bytes 4 0"
    using l [of 0] l [of 4] l [of 8] l [of 12] zeros_add [of 4 4] by (simp add: append_eq_append_conv le_bytes_0 del: le_bytes.simps)
  also have "\<dots> \<longleftrightarrow> le_nat (?w 0) = 0x280000 + v * 16 \<and> le_nat (?w 4) = 0x28E00 \<and> le_nat (?w 8) = 0 \<and> le_nat (?w 12) = 0"
    using e [of 0 "0x280000 + v * 16"] e [of 4 "0x28E00"] e [of 8 0] e [of 12 0] v by (simp del: le_bytes.simps)
  also have "\<dots> \<longleftrightarrow> fault_gate_msg v (le_nat (?w 0)) (le_nat (?w 4)) = None \<and> le_nat (?w 8) = 0 \<and> le_nat (?w 12) = 0"
  proof -
    have "v * 16 < 65536" using v by simp
    then have "x mod 65536 = v * 16 \<and> x div 65536 = 0x28 \<longleftrightarrow> x = 0x280000 + v * 16" "x div 65536 = 2 \<and> x mod 65536 = 0x8E00 \<longleftrightarrow> x = 0x28E00" for x
      using half_words [of "v * 16" x "0x28"] half_words [of "0x8E00" x 2] by auto
    moreover have "(131072 + v * 16) mod 65536 = v * 16" "(131072 + v * 16) div 65536 = 2"
      using half_words [of "v * 16" "131072 + v * 16" 2] v by simp_all
    ultimately show ?thesis by (auto simp: fault_gate_msg_def Let_def and_mask_mod drop_bit_eq_div)
  qed
  finally show ?case
    using u [of 0] u [of 4] u [of 8] u [of 12] Cons by (auto split: option.splits)
qed simp

section \<open>The blob of an image\<close>

lemma trim_end_bounds: "off \<le> k \<Longrightarrow> k < e \<Longrightarrow> img ! k \<noteq> 0 \<Longrightarrow> k < trim_end img off e \<and> trim_end img off e \<le> e"
proof (induction img off e rule: trim_end.induct)
  case (1 img off e)
  show ?case
  proof (cases "img ! (e - 1) = 0")
    case True
    then have "k \<noteq> e - 1" using 1(4) by auto
    then have "k < e - 1" using 1(3) by linarith
    then show ?thesis using 1 True by (auto simp: trim_end.simps [of img off e])
  qed (use 1(3) in \<open>simp add: trim_end.simps [of img off e]\<close>)
qed

lemma blob_of_prefix:
  assumes "bslice (BLOB_LBA * SECTOR) (BLOB_LBA * SECTOR + n) img = blob" "length blob = n" "n < BLOB_MAX"
    "BLOB_LBA * SECTOR + n < length img" "img ! (BLOB_LBA * SECTOR + n) \<noteq> 0"
  shows "\<exists>rest. blob_of img = blob @ rest"
proof -
  let ?o = "BLOB_LBA * SECTOR" let ?e = "trim_end img ?o (min (?o + BLOB_MAX) (length img))"
  have "?o + n < ?e" using trim_end_bounds [of ?o "?o + n" "min (?o + BLOB_MAX) (length img)" img] assms(3-5) by simp
  then have "bslice ?o ?e img = bslice ?o (?o + n) img @ bslice (?o + n) ?e img" by (intro bslice_split) simp_all
  then show ?thesis using assms(1) by (simp add: blob_of_def Let_def)
qed

lemma boot_sector_first: "bs_fits tot lay \<Longrightarrow> wr_all (boot_sector_writes tot lay label) (zeros 512) ! 0 = 0xEB"
proof -
  assume f: "bs_fits tot lay"
  let ?b = "wr_all (boot_sector_writes tot lay label) (zeros 512)"
  have "bslice 0 1 ?b = wr_read 0 1 (rev (boot_sector_writes tot lay label)) (zeros 512)"
    by (rule bslice_wr_all [OF boot_sector_wr_ok [OF f]])
  also have "\<dots> = [0xEB]" by (simp add: boot_sector_writes_def) (simp add: bslice_def)
  finally show ?thesis using length_wr_all [OF boot_sector_wr_ok [OF f]] bslice_one [of 0 ?b] by simp
qed

lemma mkqizoimg_blob_of:
  assumes "prepare_stage1 (m_stage1 args) = Inr s1" "length (m_stage1 args) \<le> 512"
    and "length (m_stage2 args) \<le> STAGE2_BYTES"
    and mi: "module_info_of args = Inr mi" "header_fits mi"
    and bl: "\<not> m_raw args" "make_blob False (header_bytes mi @ m_kernel args) = Inr blob" "length blob div SECTOR < 248"
    and lay: "choose_layout (m_image_sectors args) (length blob div SECTOR) = Inr (tot, lay)" "bits lay = 16" "tot < 65552"
    and lb: "ascii (m_label args)"
  obtains img rest where "mkqizoimg args = Inr img" "blob_of img = blob @ rest" "decompress (blob_of img) = Inr (header_bytes mi @ m_kernel args)"
proof -
  let ?pay = "header_bytes mi @ m_kernel args" let ?s = "length blob div SECTOR"
  have hd: "module_header mi = Inr (header_bytes mi)" using mi(2) by (simp add: module_header_eq)
  have bl': "make_blob (m_raw args) ?pay = Inr blob" using bl by simp
  obtain img fat cl rt where img: "mkqizoimg args = Inr img"
    and v: "volume_at img tot lay (files_of args mi lay blob ?pay) (m_label args) fat cl rt"
    and r: "bslice (PART_LBA * SECTOR) (PART_LBA * SECTOR + STAGE2_BYTES) img = ljust STAGE2_BYTES 0 (m_stage2 args)"
    "bslice (BLOB_LBA * SECTOR) (BLOB_LBA * SECTOR + length blob) img = blob"
    "bslice 510 512 img = [0x55, 0xAA]" "unpack_le 4 img 0x1C6 = Inr (part_lba lay)"
    "unpack_le 4 img (STAGE1_ARGS_OFF + 4) = Inr PART_LBA"
    "unpack_le 2 img (STAGE1_ARGS_OFF + 8) = Inr (STAGE2_SECTORS + ?s)"
    "unpack_le 4 img (STAGE1_ARGS_OFF + 12) = Inr (checksum blob)"
    using mkqizoimg_ok [OF assms(1-3) mi(1) hd bl' lay lb] by blast
  note b = make_blob_facts [OF bl(2)] and m = module_info_facts [OF mi(1) hd]
  have p: "plan16 tot lay" "part_lba lay = BLOB_LBA + ?s" using choose_layout_plan16 [OF lay] by blast+
  have bs: "bslice (part_lba lay * SECTOR) (part_lba lay * SECTOR + 512) img = wr_all (boot_sector_writes tot lay (m_label args)) (zeros 512)"
    using v unfolding volume_at_def by blast
  have fits: "bs_fits tot lay" using p(1) unfolding plan16_def by blast
  have at: "BLOB_LBA * SECTOR + length blob = part_lba lay * SECTOR" using p(2) b(1) by (simp add: add_mult_distrib)
  have len: "part_lba lay * SECTOR + 512 \<le> length img"
  proof -
    have "length (bslice (part_lba lay * SECTOR) (part_lba lay * SECTOR + 512) img) = 512"
      unfolding bs using length_wr_all [OF boot_sector_wr_ok [OF fits]] by simp
    then have "512 \<le> length img - part_lba lay * SECTOR" by simp
    then show ?thesis by linarith
  qed
  have "img ! (part_lba lay * SECTOR) = bslice (part_lba lay * SECTOR) (part_lba lay * SECTOR + 512) img ! 0"
    using len by (simp add: bslice_def)
  then have nz: "img ! (part_lba lay * SECTOR) \<noteq> 0" unfolding bs boot_sector_first [OF fits] by simp
  have small: "length blob < BLOB_MAX" using bl(3) b(1) by (simp add: SECTOR_def BLOB_MAX_def)
  obtain rest where rest: "blob_of img = blob @ rest"
    using blob_of_prefix [OF r(2) refl small] len nz unfolding at by auto
  obtain z pad where z: "compress ?pay = Inr z" "blob = z @ pad" using b(5) by auto
  have "decompress (blob_of img) = Inr ?pay" unfolding rest z(2) append_assoc by (rule lz.dec_enc [OF z(1)])
  then show thesis using that [OF img rest] by blast
qed

lemma tiny_blob_small:
  assumes "make_blob False (header_bytes tiny_info @ m_kernel tiny_args) = Inr blob"
  shows "length blob div SECTOR < 248"
proof -
  let ?p = "header_bytes tiny_info @ m_kernel tiny_args"
  have l: "length ?p = 67" by (rule tiny_ok)
  then have "length ?p < 2 ^ 32" by simp
  then obtain body where c: "compress ?p = Inr (le_bytes 4 LZSS_MAGIC @ le_bytes 4 (length ?p) @ body)"
    "length body \<le> length ?p + (length ?p + 7) div 8"
    using compress_container by metis
  then have "length blob = sectors_for (8 + length body) * SECTOR"
    using assms sectors_for_bounds(1) [of "8 + length body"] by (auto simp: make_blob_def)
  then show ?thesis using c(2) unfolding l by (simp add: SECTOR_def sectors_for_def)
qed

section \<open>Cutting text\<close>

lemma split_nl_not_Nil [simp]: "split_nl s \<noteq> []"
  by (induction s) (auto split: list.splits)

lemma join_split_nl: "join_nl (split_nl s) = s"
proof (induction s)
  case (Cons c s)
  obtain l ls where s: "split_nl s = l # ls" by (cases "split_nl s") simp_all
  then show ?case using Cons by (cases ls) (auto simp: nl_def)
qed simp

text \<open>The first line with the given text, and the first \<open>ret\<close> at or behind a line, or the end of the text.\<close>

definition first_line :: "string \<Rightarrow> string list \<Rightarrow> nat \<Rightarrow> bool" where
  "first_line want lines i \<longleftrightarrow> i < length lines \<and> strip_ws (lines ! i) = want \<and> (\<forall>j < i. strip_ws (lines ! j) \<noteq> want)"

definition ret_at :: "string list \<Rightarrow> nat \<Rightarrow> nat \<Rightarrow> bool" where
  "ret_at lines j e \<longleftrightarrow> j \<le> e \<and> e \<le> length lines \<and> (\<forall>k. j \<le> k \<and> k < e \<longrightarrow> strip_ws (lines ! k) \<noteq> ''ret'') \<and>
     (e < length lines \<longrightarrow> strip_ws (lines ! e) = ''ret'')"

lemma line_index_first: "line_index want lines = Inr i \<longleftrightarrow> first_line want lines i"
proof
  show "line_index want lines = Inr i \<Longrightarrow> first_line want lines i"
    by (auto simp: line_index_def first_line_def find_Some_iff split: option.splits)
  assume f: "first_line want lines i"
  then have "find (\<lambda>i. strip_ws (lines ! i) = want) [0..<length lines] = Some i"
    by (auto simp: find_Some_iff first_line_def intro!: exI [of _ i])
  then show "line_index want lines = Inr i" by (simp add: line_index_def)
qed

lemma ret_end_at: "i \<le> length lines \<Longrightarrow> ret_at lines i (ret_end lines i)"
proof (induction lines i rule: ret_end.induct)
  case (1 lines i)
  show ?case
  proof (cases "i < length lines \<and> strip_ws (lines ! i) \<noteq> ''ret''")
    case True
    then have "ret_at lines (i + 1) (ret_end lines (i + 1))" using 1 by simp
    moreover have "strip_ws (lines ! k) \<noteq> ''ret''" if "i \<le> k" "k < ret_end lines (i + 1)" for k
      using that True calculation by (cases "k = i") (auto simp: ret_at_def)
    moreover have "ret_end lines i = ret_end lines (i + 1)" using True by (simp add: ret_end.simps [of lines i])
    ultimately show ?thesis by (auto simp: ret_at_def)
  next
    case False
    then show ?thesis using 1(2) by (auto simp: ret_at_def ret_end.simps [of lines i])
  qed
qed

lemma ret_at_unique: "ret_at lines j e \<Longrightarrow> e = ret_end lines j"
proof -
  assume a: "ret_at lines j e"
  then have b: "ret_at lines j (ret_end lines j)" by (intro ret_end_at) (simp add: ret_at_def)
  show ?thesis using a b unfolding ret_at_def by (metis le_neq_implies_less linorder_less_linear order_less_le_trans)
qed

section \<open>The command\<close>

lemma bindR_eq_Ran: "bindR m f = Inr (Ran x) \<longleftrightarrow> (\<exists>y. m = Inr (Ran y) \<and> f y = Inr (Ran x))"
proof (cases m)
  case (Inr r)
  then show ?thesis by (cases r) (simp_all add: bindR_def)
qed (simp add: bindR_def)

lemma liftR_eq: "liftR m = Inr (Ran x) \<longleftrightarrow> m = Inr x" "liftR m \<noteq> Inr Unsupported"
  by (auto simp: liftR_def)

lemma bindR_supported: "m \<noteq> Inr Unsupported \<Longrightarrow> (\<And>x. f x \<noteq> Inr Unsupported) \<Longrightarrow> bindR m f \<noteq> Inr Unsupported"
  by (auto simp: bindR_def split: run.splits)

lemma pages_case_nil:
  assumes "pages_case run32 src tmp = Inr (Ran [])"
  obtains asm tables where "pages_asm src (tmp @ ''/tables.bin'') = Inr asm" "run32 ''pages'' asm = Inr (Ran tables)" "check_tables tables = Inr []"
proof -
  obtain asm tables where "pages_asm src (tmp @ ''/tables.bin'') = Inr asm" "run32 ''pages'' asm = Inr (Ran tables)"
    "(if length tables < 0x6000 then Inr (Ran [(''page table dump truncated at %d bytes'', [FI (int (length tables))])])
      else liftR (check_tables tables)) = Inr (Ran [])"
    using assms unfolding pages_case_def by (auto simp: bindR_eq_Ran)
  then show thesis using that by (auto simp: liftR_eq split: if_splits)
qed

lemma pages_case_supported: "(\<And>n a. run32 n a \<noteq> Inr Unsupported) \<Longrightarrow> pages_case run32 src tmp \<noteq> Inr Unsupported"
  unfolding pages_case_def by (auto intro!: bindR_supported simp: liftR_eq bindR_def liftR_def split: run.splits if_splits)

lemma asmrun_first:
  assumes "asmrun run_decomp run32 run64 src idt_src tmp img = Inr 0"
    and s: "\<And>a b. run_decomp a b \<noteq> Inr Unsupported" "\<And>n a. run32 n a \<noteq> Inr Unsupported"
  obtains ref asm where "decompress (blob_of img) = Inr ref" "decompress_asm src (tmp @ ''/out.bin'') (tmp @ ''/in.bin'') = Inr asm"
    "run_decomp asm (blob_of img) = Inr (Ran ref)" "pages_case run32 src tmp = Inr (Ran [])" "bslice QIZOK_HDR (QIZOK_HDR + 8) ref = entry_marker"
proof -
  obtain ref where r: "decompress (blob_of img) = Inr ref" using assms(1) by (cases "decompress (blob_of img)") (simp_all add: asmrun_def Let_def)
  let ?P = "\<lambda>problems :: msg list. if problems \<noteq> [] then Inr (Ran 1) :: nat run res
       else if bslice QIZOK_HDR (QIZOK_HDR + 8) ref \<noteq> entry_marker then Inr (Ran 1) else Inr (Ran (0 :: nat))"
  let ?D = "\<lambda>got. if got \<noteq> ref then Inr (Ran (1 :: nat)) else bindR (pages_case run32 src tmp) ?P"
  obtain v where b: "bindE (decompress_asm src (tmp @ ''/out.bin'') (tmp @ ''/in.bin'')) (\<lambda>asm.
      bindR (run_decomp asm (blob_of img)) ?D) = Inr v" and c: "v = Unsupported \<or> v = Ran 0"
  proof -
    from assms(1) obtain v where v: "bindE (decompress_asm src (tmp @ ''/out.bin'') (tmp @ ''/in.bin'')) (\<lambda>asm.
        bindR (run_decomp asm (blob_of img)) ?D) = Inr v"
      and k: "\<And>n. v = Ran (Suc n) \<Longrightarrow> False"
      unfolding asmrun_def r Let_def sum.case bindE_eq_Inr [of "bindE _ _"] by fastforce
    have "v = Unsupported \<or> v = Ran 0"
    proof (cases v)
      case (Ran n)
      then show ?thesis using k by (cases n) auto
    qed simp
    then show thesis using that v by blast
  qed
  obtain asm where a: "decompress_asm src (tmp @ ''/out.bin'') (tmp @ ''/in.bin'') = Inr asm"
    "bindR (run_decomp asm (blob_of img)) ?D = Inr v" using b unfolding bindE_eq_Inr by blast
  have "bindR (pages_case run32 src tmp) ?P \<noteq> Inr Unsupported" by (intro bindR_supported pages_case_supported s) auto
  then have "bindR (run_decomp asm (blob_of img)) ?D \<noteq> Inr Unsupported" by (intro bindR_supported) (use s in auto)
  then have v0: "v = Ran 0" using a(2) c by auto
  obtain got where g: "run_decomp asm (blob_of img) = Inr (Ran got)" "?D got = Inr (Ran 0)"
    using a(2) unfolding v0 bindR_eq_Ran by auto
  then have got: "got = ref" "bindR (pages_case run32 src tmp) ?P = Inr (Ran 0)" by (auto split: if_splits)
  obtain problems where "pages_case run32 src tmp = Inr (Ran problems)" "?P problems = Inr (Ran 0)"
    using got(2) [unfolded bindR_eq_Ran] by (elim exE conjE) (rule that)
  then have "pages_case run32 src tmp = Inr (Ran [])" "bslice QIZOK_HDR (QIZOK_HDR + 8) ref = entry_marker" by (auto split: if_splits)
  then show thesis using that r a(1) g(1) got(1) by blast
qed

section \<open>Properties\<close>

text \<open>C5: tables that pass the check, loaded at the address their first entry implies, translate every
  address below 4 GiB to itself in the processor's four-level walk, and translate nothing above.\<close>

theorem page_tables_identity:
  assumes "check_tables t = Inr []" "ent t 0 0 = Inr (lo, hi)" "page_base lo = p + 0x1000"
  shows "\<forall>la < 2 ^ 48. walk t p la = (if la < 2 ^ 32 then Some la else None)"
  using walk_identity [OF assms] walk_unmapped [OF assms] by auto

theorem page_tables_identity_witness:
  "check_tables (identity_tables PAGE_PML4) = Inr [] \<and> walk (identity_tables PAGE_PML4) PAGE_PML4 0x123456 = Some 0x123456"
proof -
  have p: "PAGE_PML4 mod 4096 = 0" "PAGE_PML4 + 0x6000 \<le> 2 ^ 32" by (simp_all add: PAGE_PML4_def)
  have b: "page_base (PAGE_PML4 + 0x1003) = PAGE_PML4 + 0x1000" by (simp add: page_base_def PAGE_PML4_def)
  have "\<forall>la < 2 ^ 48. walk (identity_tables PAGE_PML4) PAGE_PML4 la = (if la < 2 ^ 32 then Some la else None)"
    by (rule page_tables_identity [OF check_tables_ok [OF p] b])
  then have "walk (identity_tables PAGE_PML4) PAGE_PML4 0x123456 = Some 0x123456" by simp
  then show ?thesis using check_tables_ok(1) [OF p] by blast
qed

text \<open>C36: the check accepts the six pages stage2 is meant to build, at any page-aligned address that keeps
  them below 4 GiB.\<close>

theorem identity_tables_accepted:
  assumes "p mod 4096 = 0" "p + 0x6000 \<le> 2 ^ 32"
  shows "check_tables (identity_tables p) = Inr []"
  using check_tables_ok(1) [OF assms] .

theorem identity_tables_accepted_witness: "check_tables (identity_tables PAGE_PML4) = Inr []"
  using identity_tables_accepted [of PAGE_PML4] by (simp add: PAGE_PML4_def)

text \<open>C20: an interrupt table that passes the check has 256 present 64-bit interrupt gates for the code
  selector 8, each with the address of its own stub in the processor's split offset field, no
  interrupt stack and a clear reserved word.\<close>

theorem idt_gates_sound:
  assumes "check_idt syms data = Inr []" "v < 256"
  shows "syms (stub_name v) = Some (int (le_nat (bslice (v * 16) (v * 16 + 2) data @ bslice (v * 16 + 6) (v * 16 + 12) data))) \<and>
    le_nat (bslice (v * 16 + 2) (v * 16 + 4) data) = 8 \<and> data ! (v * 16 + 5) = 0x8E \<and> unat (data ! (v * 16 + 4)) mod 16 = 0 \<and>
    bslice (v * 16 + 12) (v * 16 + 16) data = zeros 4"
proof -
  have "check_gates syms data [0..<256] = Inr []" using assms(1) by (simp add: check_idt_def split: if_splits)
  note nil = check_gates_nil [OF this, unfolded set_upt]
  obtain gt where g: "unpack_gate (bslice (v * 16) (v * 16 + 16) data) = Inr gt" "gate_msg syms v gt = None"
    using bspec [OF nil, of v] assms(2) by auto
  note f = gate_fields [OF g(1)]
  have m: "syms (stub_name v) = Some (int (g_off gt))" "g_sel gt = 8" "g_attr gt = 0x8E" "g_ist gt = 0" "g_rsv gt = 0"
    using g(2) by (auto simp: gate_msg_def split: option.splits if_splits)
  have "data ! (v * 16 + 5) = 0x8E" using m(3) f(4) by (simp add: word_unat_eq_iff)
  moreover have "bslice (v * 16 + 12) (v * 16 + 16) data = zeros 4"
    using m(5) f(1,6) le_bytes_le_nat [of "bslice (v * 16 + 12) (v * 16 + 16) data"] by (simp add: le_bytes_0 del: le_bytes.simps)
  ultimately show ?thesis using m f by simp
qed

definition null_gate :: bytes where
  "null_gate = [0, 0, 8, 0, 0, 0x8E, 0, 0, 0, 0, 0, 0, 0, 0, 0, 0]"

lemma null_gates_ok:
  assumes "\<And>v. v < 256 \<Longrightarrow> syms (stub_name v) = Some 0"
  shows "check_idt syms (concat (map (\<lambda>_. null_gate) [0..<256])) = Inr []"
proof -
  let ?d = "concat (map (\<lambda>_ :: nat. null_gate) [0..<256])"
  have b: "bslice (v * 16) (v * 16 + 16) ?d = null_gate" if "v < 256" for v
    using that by (intro bslice_concat [of "\<lambda>_. null_gate"]) (simp_all add: null_gate_def del: upt_Suc)
  have u: "unpack_gate null_gate = Inr \<lparr>g_off = 0, g_sel = 8, g_attr = 0x8E, g_ist = 0, g_rsv = 0\<rparr>"
    by (simp add: unpack_gate_def null_gate_def unpack_le_def bslice_def drop_bit_eq_div and_mask_mod)
  have "check_gates syms ?d vs = Inr []" if "\<forall>v \<in> set vs. v < 256" for vs
    using that by (induction vs) (simp_all add: b u gate_msg_def assms)
  then show ?thesis by (simp add: check_idt_def length_concat null_gate_def o_def sum_list_triv del: upt_Suc)
qed

theorem idt_gates_sound_witness:
  "le_nat (bslice (7 * 16 + 2) (7 * 16 + 4) (concat (map (\<lambda>_. null_gate) [0..<256]))) = 8"
  using idt_gates_sound [OF null_gates_ok [of "\<lambda>_. Some 0"], of 7] by (simp del: upt_Suc)

definition fault_gate :: "nat \<Rightarrow> bytes" where
  "fault_gate v = le_bytes 4 (0x280000 + v * 16) @ le_bytes 4 0x28E00 @ zeros 8"

lemma fault_gates_length: "length (concat (map fault_gate [0..<32])) = 512"
  by (simp add: fault_gate_def length_concat o_def sum_list_triv del: upt_Suc)

lemma fault_gates_slice: "v < 32 \<Longrightarrow> bslice (v * 16) (v * 16 + 16) (concat (map fault_gate [0..<32])) = fault_gate v"
  using bslice_concat [of fault_gate 16 v "[0..<32]"] by (simp add: fault_gate_def del: upt_Suc)

lemma fault_gates_ok: "check_fault_gates (concat (map fault_gate [0..<32])) [0..<32] = Inr []"
  using check_fault_gates_nil [of "concat (map fault_gate [0..<32])" "[0..<32]"] fault_gates_slice fault_gates_length
  unfolding fault_gate_def [of "v :: nat" for v] by (simp add: atLeast0LessThan lessThan_def Ball_def del: upt_Suc le_bytes.simps)

text \<open>C21: the boot fault table passes the check exactly when its 32 gates are the present 64-bit gates for
  selector 0x28 that point 16 bytes apart into the stage2 area.\<close>

theorem fault_gates_exact:
  assumes "512 \<le> length data"
  shows "check_fault_gates data [0..<32] = Inr [] \<longleftrightarrow>
    (\<forall>v < 32. bslice (v * 16) (v * 16 + 16) data = le_bytes 4 (0x280000 + v * 16) @ le_bytes 4 0x28E00 @ zeros 8)"
  using check_fault_gates_nil [OF assms, of "[0..<32]"] by (simp add: atLeast0LessThan lessThan_def Ball_def del: upt_Suc le_bytes.simps)

theorem fault_gates_exact_witness: "check_fault_gates (concat (map fault_gate [0..<32])) [0..<32] = Inr []"
  using fault_gates_exact [of "concat (map fault_gate [0..<32])"] fault_gates_slice fault_gates_length
  by (simp add: fault_gate_def del: upt_Suc le_bytes.simps)

text \<open>C22: on every image the builder makes whose blob leaves the area unfilled, cutting the blob out with
  the trailing zeros removed still gives the reference decompressor the whole module.\<close>

theorem blob_of_reference:
  assumes "prepare_stage1 (m_stage1 args) = Inr s1" "length (m_stage1 args) \<le> 512"
    and "length (m_stage2 args) \<le> STAGE2_BYTES" "module_info_of args = Inr mi" "header_fits mi"
    and "\<not> m_raw args" "make_blob False (header_bytes mi @ m_kernel args) = Inr blob" "length blob div SECTOR < 248"
    and "choose_layout (m_image_sectors args) (length blob div SECTOR) = Inr (tot, lay)" "bits lay = 16" "tot < 65552"
    and "ascii (m_label args)"
  shows "\<exists>img rest. mkqizoimg args = Inr img \<and> blob_of img = blob @ rest \<and> decompress (blob_of img) = Inr (header_bytes mi @ m_kernel args)"
  using mkqizoimg_blob_of [OF assms] by metis

theorem blob_of_reference_witness:
  "\<exists>img. mkqizoimg tiny_args = Inr img \<and> decompress (blob_of img) = Inr (header_bytes tiny_info @ [0xF4, 0xEB, 0xFD])"
proof -
  obtain blob tot lay where l: "make_blob False (header_bytes tiny_info @ m_kernel tiny_args) = Inr blob"
    "choose_layout (m_image_sectors tiny_args) (length blob div SECTOR) = Inr (tot, lay)" "bits lay = 16" "tot < 65552"
    using tiny_layout by blast
  have s: "length blob div SECTOR < 248" using tiny_blob_small [OF l(1)] .
  have k: "m_kernel tiny_args = [0xF4, 0xEB, 0xFD]" by (simp add: tiny_args_def)
  from blob_of_reference [OF tiny_ok(1-4) tiny_header(1) tiny_ok(6) l(1) s l(2-4) tiny_ok(8)]
  show ?thesis unfolding k by blast
qed

text \<open>C34: a routine is cut out exactly from the first line that is its start label to the stop label:
  the cut succeeds precisely when both labels are lines of the text, and it is then the lines from
  the first start label up to the first stop label, without it, or, when the cut runs to the end of
  the routine, up to and with the first \<open>ret\<close> at or behind the stop label (up to the end of the text
  when there is none).\<close>

theorem extract_text_block:
  "extract_text txt start_at stop_at to_ret = Inr body \<longleftrightarrow>
     (\<exists>i j e. first_line start_at (split_nl txt) i \<and> first_line stop_at (split_nl txt) j \<and>
        j \<le> e \<and> e \<le> length (split_nl txt) \<and> (\<forall>k. j \<le> k \<and> k < e \<longrightarrow> strip_ws (split_nl txt ! k) \<noteq> ''ret'') \<and>
        (e < length (split_nl txt) \<longrightarrow> strip_ws (split_nl txt ! e) = ''ret'') \<and>
        body = join_nl (bslice i (if to_ret then e + 1 else j) (split_nl txt)) @ nl)"
  (is "?x \<longleftrightarrow> (\<exists>i j e. ?P i j e)")
proof
  assume ?x
  then obtain i j where l: "line_index start_at (split_nl txt) = Inr i" "line_index stop_at (split_nl txt) = Inr j"
    and "body = join_nl (bslice i (if to_ret then ret_end (split_nl txt) j + 1 else j) (split_nl txt)) @ nl"
    by (auto simp: extract_text_def Let_def)
  moreover have "ret_at (split_nl txt) j (ret_end (split_nl txt) j)" using l(2) by (auto simp: line_index_first first_line_def intro: ret_end_at)
  ultimately have "?P i j (ret_end (split_nl txt) j)" by (simp add: line_index_first ret_at_def)
  then show "\<exists>i j e. ?P i j e" by blast
next
  assume "\<exists>i j e. ?P i j e"
  then obtain i j e where p: "?P i j e" by blast
  then have "ret_at (split_nl txt) j e" by (simp add: ret_at_def)
  then have e: "e = ret_end (split_nl txt) j" by (rule ret_at_unique)
  have "line_index start_at (split_nl txt) = Inr i" "line_index stop_at (split_nl txt) = Inr j" using p by (simp_all add: line_index_first)
  then show ?x using p e by (simp add: extract_text_def Let_def)
qed

theorem extract_text_block_witness:
  "extract_text (join_nl [''x'', ''a:'', ''b:'', '' ret'', ''y'']) ''a:'' ''b:'' True = Inr (join_nl [''a:'', ''b:'', '' ret''] @ nl)"
proof -
  have s: "split_nl (join_nl [''x'', ''a:'', ''b:'', '' ret'', ''y'']) = [''x'', ''a:'', ''b:'', '' ret'', ''y'']" by code_simp
  have f: "first_line ''a:'' [''x'', ''a:'', ''b:'', '' ret'', ''y''] 1" "first_line ''b:'' [''x'', ''a:'', ''b:'', '' ret'', ''y''] 2"
    by code_simp+
  have "\<forall>k. (2 :: nat) \<le> k \<and> k < 3 \<longrightarrow> strip_ws ([''x'', ''a:'', ''b:'', '' ret'', ''y''] ! k) \<noteq> ''ret''"
  proof (intro allI impI)
    fix k :: nat
    assume "2 \<le> k \<and> k < 3"
    then have k: "k = 2" by simp
    show "strip_ws ([''x'', ''a:'', ''b:'', '' ret'', ''y''] ! k) \<noteq> ''ret''" unfolding k by code_simp
  qed
  moreover have "strip_ws ([''x'', ''a:'', ''b:'', '' ret'', ''y''] ! 3) = ''ret''"
    "bslice 1 (3 + 1) [''x'', ''a:'', ''b:'', '' ret'', ''y''] = [''a:'', ''b:'', '' ret'']" by code_simp+
  ultimately show ?thesis
    unfolding extract_text_block s using f by (intro exI [of _ 1] exI [of _ 2] exI [of _ 3]) simp
qed

text \<open>C12: when the host runs the programs and the command reports success, the assembled decompressor
  reproduced the reference output on the blob of the image, the page tables it built translate
  the low 4 GiB to themselves, and the kernel starts with its serial marker.\<close>

theorem asmrun_sound:
  assumes "asmrun run_decomp run32 run64 src idt_src tmp img = Inr 0"
    and "\<forall>a b. run_decomp a b \<noteq> Inr Unsupported" "\<forall>n a. run32 n a \<noteq> Inr Unsupported"
  shows "\<exists>ref asm asm2 tables. decompress (blob_of img) = Inr ref \<and>
    decompress_asm src (tmp @ ''/out.bin'') (tmp @ ''/in.bin'') = Inr asm \<and> run_decomp asm (blob_of img) = Inr (Ran ref) \<and>
    pages_asm src (tmp @ ''/tables.bin'') = Inr asm2 \<and> run32 ''pages'' asm2 = Inr (Ran tables) \<and>
    (\<forall>lo hi p la. ent tables 0 0 = Inr (lo, hi) \<and> page_base lo = p + 0x1000 \<and> la < 2 ^ 32 \<longrightarrow> walk tables p la = Some la) \<and>
    bslice QIZOK_HDR (QIZOK_HDR + 8) ref = entry_marker"
proof -
  obtain ref asm where r: "decompress (blob_of img) = Inr ref" "decompress_asm src (tmp @ ''/out.bin'') (tmp @ ''/in.bin'') = Inr asm"
    "run_decomp asm (blob_of img) = Inr (Ran ref)" "pages_case run32 src tmp = Inr (Ran [])" "bslice QIZOK_HDR (QIZOK_HDR + 8) ref = entry_marker"
    using asmrun_first [OF assms(1)] assms(2,3) by metis
  obtain asm2 tables where "pages_asm src (tmp @ ''/tables.bin'') = Inr asm2" "run32 ''pages'' asm2 = Inr (Ran tables)" "check_tables tables = Inr []"
    using pages_case_nil [OF r(4)] by blast
  then show ?thesis using r(1-3,5) walk_identity by metis
qed

text \<open>A host that runs the three 32-bit programs as intended, on the shortest sources with their labels.\<close>

definition demo_src :: string where
  "demo_src = join_nl [''qizo_decompress:'', ''decomp_ret:'', ''ret'', ''qizo_zero:'', ''fail_c1:'']"

definition demo_idt :: string where
  "demo_idt = join_nl [''qizo_isr_common:'', ''qizo_idt_install:'', ''.size qizo_idt_install, . - qizo_idt_install'']"

definition demo_decomp :: "string \<Rightarrow> bytes \<Rightarrow> bytes run res" where
  "demo_decomp asm blob = Inr (Ran (case decompress blob of Inr r \<Rightarrow> r | Inl e \<Rightarrow> []))"

lemma demo_cuts:
  "extract_text demo_src ''qizo_decompress:'' ''decomp_ret:'' True = Inr (join_nl [''qizo_decompress:'', ''decomp_ret:'', ''ret''] @ nl)"
  "extract_text demo_src ''qizo_zero:'' ''fail_c1:'' False = Inr (''qizo_zero:'' @ nl)"
  "span demo_idt ''qizo_isr_common:'' None = Inr nl"
  "span demo_idt ''.size qizo_idt_install, . - qizo_idt_install'' (Some ''qizo_idt_install:'') = Inr (''qizo_idt_install:'' @ nl)"
  by code_simp+

text \<open>An image whose blob holds a module that starts with the serial marker.\<close>

lemma demo_image: "\<exists>img ref. decompress (blob_of img) = Inr ref \<and> bslice QIZOK_HDR (QIZOK_HDR + 8) ref = entry_marker"
proof -
  let ?ref = "zeros 64 @ entry_marker"
  have l: "length ?ref = 72" by (simp add: entry_marker_def)
  then have "length ?ref < 2 ^ 32" by simp
  then obtain body where z: "compress ?ref = Inr (le_bytes 4 LZSS_MAGIC @ le_bytes 4 (length ?ref) @ body)"
    "length body \<le> length ?ref + (length ?ref + 7) div 8"
    using compress_container by metis
  let ?z = "le_bytes 4 LZSS_MAGIC @ le_bytes 4 (length ?ref) @ body"
  let ?img = "zeros 12288 @ ?z @ [1]"
  have lz: "length ?z < BLOB_MAX" using z(2) unfolding l by (simp add: BLOB_MAX_def)
  have o: "BLOB_LBA * SECTOR = 12288" by (simp add: BLOB_LBA_def SECTOR_def)
  have "bslice 12288 (12288 + length ?z) ?img = ?z" by (simp add: bslice_def del: le_bytes.simps)
  moreover have "?img ! (12288 + length ?z) = 1" by (simp add: nth_append del: le_bytes.simps)
  ultimately obtain rest where "blob_of ?img = ?z @ rest"
    using blob_of_prefix [of "length ?z" ?img ?z, unfolded o] lz by (auto simp del: le_bytes.simps)
  then have d: "decompress (blob_of ?img) = Inr ?ref" using lz.dec_enc [OF z(1)] by simp
  moreover have "bslice QIZOK_HDR (QIZOK_HDR + 8) ?ref = entry_marker" by (simp add: QIZOK_HDR_def bslice_append_right entry_marker_def)
  ultimately show ?thesis by blast
qed

lemma demo_run:
  "\<exists>img. asmrun demo_decomp (\<lambda>n a. Inr (Ran (identity_tables PAGE_PML4))) (\<lambda>n a. Inr Unsupported) demo_src demo_idt ''/tmp'' img = Inr 0"
proof -
  obtain img ref where d: "decompress (blob_of img) = Inr ref" and e: "bslice QIZOK_HDR (QIZOK_HDR + 8) ref = entry_marker"
    using demo_image by blast
  have p: "PAGE_PML4 mod 4096 = 0" "PAGE_PML4 + 0x6000 \<le> 2 ^ 32" by (simp_all add: PAGE_PML4_def)
  have "length (identity_tables PAGE_PML4) = 24576" by (simp add: identity_tables_def length_concat_words words_nth(6))
  then have pc: "pages_case (\<lambda>n a. Inr (Ran (identity_tables PAGE_PML4))) demo_src ''/tmp'' = Inr (Ran [])"
    using demo_cuts(2) check_tables_ok(1) [OF p] by (auto simp: pages_case_def pages_asm_def bindR_def liftR_def Let_def)
  have "asmrun demo_decomp (\<lambda>n a. Inr (Ran (identity_tables PAGE_PML4))) (\<lambda>n a. Inr Unsupported) demo_src demo_idt ''/tmp'' img = Inr 0"
    using d e pc demo_cuts by (simp add: asmrun_def Let_def decompress_asm_def demo_decomp_def bindR_def idt_case_def idt_asm_def)
  then show ?thesis by blast
qed

theorem asmrun_sound_witness:
  "\<exists>img ref asm. decompress (blob_of img) = Inr ref \<and> demo_decomp asm (blob_of img) = Inr (Ran ref)"
proof -
  obtain img where i: "asmrun demo_decomp (\<lambda>n a. Inr (Ran (identity_tables PAGE_PML4))) (\<lambda>n a. Inr Unsupported) demo_src demo_idt ''/tmp'' img = Inr 0"
    using demo_run by blast
  have "\<forall>a b. demo_decomp a b \<noteq> Inr Unsupported" by (simp add: demo_decomp_def)
  from asmrun_sound [OF i this] show ?thesis by blast
qed

end
