(* ===== verification/Qizo_Font.thy ===== *)
theory Qizo_Font
  imports Qizo_Check
begin

text \<open>
  The console font: the glyph table and its bitmaps (\<^verbatim>\<open>src/tools/common/qizofont.py\<close>) and the generator
  of the kernel's font header and of the PSF file (\<^verbatim>\<open>src/tools/qizoartifacts/qizofontgen.py\<close>). Writing the
  files is left out: the definitions give their contents.
\<close>

unbundle bit_operations_syntax

section \<open>Definitions\<close>

subsection \<open>Glyphs and bitmaps\<close>

definition W :: nat where "W = 5"
definition H :: nat where "H = 7"
definition FIRST :: nat where "FIRST = 32"
definition LAST :: nat where "LAST = 126"

definition GLYPHS :: "(nat \<times> nat list) list" where
  "GLYPHS =
     [(32, [0x00, 0x00, 0x00, 0x00, 0x00]),
      (33, [0x00, 0x58, 0x00, 0x00, 0x00]),
      (34, [0x06, 0x09, 0x06, 0x00, 0x00]),
      (35, [0x14, 0x7F, 0x14, 0x7F, 0x14]),
      (36, [0x22, 0x7F, 0x25, 0x29, 0x12]),
      (37, [0x63, 0x14, 0x08, 0x14, 0x62]),
      (38, [0x36, 0x49, 0x56, 0x20, 0x50]),
      (39, [0x02, 0x02, 0x04, 0x00, 0x00]),
      (40, [0x08, 0x10, 0x20, 0x20, 0x20]),
      (41, [0x20, 0x10, 0x08, 0x08, 0x08]),
      (42, [0x08, 0x08, 0x2A, 0x1C, 0x08]),
      (43, [0x08, 0x08, 0x1C, 0x08, 0x08]),
      (44, [0x00, 0x70, 0x20, 0x00, 0x00]),
      (45, [0x08, 0x08, 0x08, 0x08, 0x00]),
      (46, [0x00, 0x60, 0x60, 0x00, 0x00]),
      (47, [0x60, 0x10, 0x08, 0x04, 0x03]),
      (48, [0x3C, 0x42, 0x42, 0x42, 0x3C]),
      (49, [0x00, 0x44, 0x7E, 0x40, 0x00]),
      (50, [0x46, 0x62, 0x52, 0x4A, 0x46]),
      (51, [0x21, 0x41, 0x45, 0x4A, 0x34]),
      (52, [0x10, 0x18, 0x14, 0x7F, 0x10]),
      (53, [0x27, 0x45, 0x45, 0x45, 0x39]),
      (54, [0x3C, 0x4A, 0x49, 0x49, 0x30]),
      (55, [0x03, 0x01, 0x79, 0x05, 0x03]),
      (56, [0x36, 0x49, 0x49, 0x49, 0x36]),
      (57, [0x06, 0x49, 0x49, 0x29, 0x1E]),
      (58, [0x00, 0x18, 0x18, 0x00, 0x00]),
      (59, [0x00, 0x19, 0x18, 0x00, 0x00]),
      (60, [0x10, 0x20, 0x40, 0x20, 0x10]),
      (61, [0x14, 0x14, 0x14, 0x14, 0x14]),
      (62, [0x04, 0x02, 0x01, 0x02, 0x04]),
      (63, [0x02, 0x01, 0x51, 0x09, 0x06]),
      (64, [0x1E, 0x21, 0x4D, 0x4B, 0x34]),
      (65, [0x7E, 0x11, 0x11, 0x11, 0x7E]),
      (66, [0x7F, 0x09, 0x09, 0x09, 0x06]),
      (67, [0x3E, 0x41, 0x41, 0x41, 0x22]),
      (68, [0x7F, 0x41, 0x41, 0x22, 0x1C]),
      (69, [0x7F, 0x49, 0x49, 0x49, 0x41]),
      (70, [0x7F, 0x09, 0x09, 0x01, 0x01]),
      (71, [0x3E, 0x41, 0x49, 0x45, 0x3C]),
      (72, [0x7F, 0x08, 0x08, 0x08, 0x7F]),
      (73, [0x00, 0x41, 0x7F, 0x41, 0x00]),
      (74, [0x20, 0x40, 0x41, 0x3F, 0x01]),
      (75, [0x7F, 0x08, 0x14, 0x22, 0x41]),
      (76, [0x7F, 0x40, 0x40, 0x40, 0x40]),
      (77, [0x7F, 0x01, 0x06, 0x01, 0x7F]),
      (78, [0x7F, 0x01, 0x06, 0x38, 0x7F]),
      (79, [0x3E, 0x41, 0x41, 0x41, 0x3E]),
      (80, [0x7F, 0x09, 0x09, 0x09, 0x06]),
      (81, [0x3E, 0x41, 0x41, 0x45, 0x3A]),
      (82, [0x7F, 0x09, 0x19, 0x29, 0x46]),
      (83, [0x46, 0x49, 0x49, 0x49, 0x31]),
      (84, [0x01, 0x01, 0x7F, 0x01, 0x01]),
      (85, [0x3F, 0x40, 0x40, 0x40, 0x3F]),
      (86, [0x1F, 0x20, 0x40, 0x20, 0x1F]),
      (87, [0x7F, 0x20, 0x18, 0x20, 0x7F]),
      (88, [0x63, 0x14, 0x08, 0x14, 0x63]),
      (89, [0x03, 0x04, 0x78, 0x04, 0x03]),
      (90, [0x61, 0x51, 0x49, 0x45, 0x43]),
      (91, [0x0E, 0x10, 0x10, 0x10, 0x10]),
      (92, [0x03, 0x04, 0x08, 0x10, 0x20]),
      (93, [0x10, 0x10, 0x10, 0x10, 0x0E]),
      (94, [0x04, 0x02, 0x01, 0x00, 0x00]),
      (95, [0x80, 0x80, 0x80, 0x80, 0x80]),
      (96, [0x02, 0x04, 0x00, 0x00, 0x00]),
      (97, [0x26, 0x49, 0x49, 0x49, 0x3E]),
      (98, [0x7F, 0x11, 0x21, 0x21, 0x1E]),
      (99, [0x1E, 0x21, 0x41, 0x41, 0x22]),
      (100, [0x3E, 0x41, 0x11, 0x11, 0x7F]),
      (101, [0x1E, 0x21, 0x31, 0x21, 0x12]),
      (102, [0x06, 0x79, 0x01, 0x01, 0x02]),
      (103, [0x36, 0x49, 0x49, 0x49, 0x3E]),
      (104, [0x7F, 0x08, 0x14, 0x24, 0x44]),
      (105, [0x00, 0x4D, 0x7F, 0x40, 0x00]),
      (106, [0x30, 0x40, 0x4D, 0x7F, 0x40]),
      (107, [0x7F, 0x10, 0x28, 0x48, 0x30]),
      (108, [0x00, 0x7F, 0x40, 0x00, 0x00]),
      (109, [0x7E, 0x01, 0x06, 0x01, 0x7E]),
      (110, [0x7E, 0x08, 0x14, 0x24, 0x44]),
      (111, [0x1C, 0x22, 0x41, 0x22, 0x1C]),
      (112, [0x7F, 0x11, 0x21, 0x21, 0x1E]),
      (113, [0x3E, 0x41, 0x11, 0x11, 0x7F]),
      (114, [0x7E, 0x09, 0x01, 0x01, 0x02]),
      (115, [0x47, 0x44, 0x54, 0x28, 0x18]),
      (116, [0x04, 0x7E, 0x44, 0x40, 0x00]),
      (117, [0x3C, 0x40, 0x40, 0x20, 0x7C]),
      (118, [0x1C, 0x20, 0x40, 0x20, 0x1C]),
      (119, [0x3F, 0x40, 0x30, 0x40, 0x3F]),
      (120, [0x44, 0x28, 0x10, 0x28, 0x44]),
      (121, [0x4C, 0x50, 0x50, 0x50, 0x3E]),
      (122, [0x62, 0x52, 0x49, 0x25, 0x23]),
      (123, [0x10, 0x20, 0x4C, 0x20, 0x10]),
      (124, [0x00, 0x00, 0x7F, 0x00, 0x00]),
      (125, [0x10, 0x20, 0x4C, 0x20, 0x10]),
      (126, [0x08, 0x14, 0x22, 0x00, 0x00])]"

text \<open>The columns of a character, those of the question mark when it has none.\<close>

definition cols_of :: "nat \<Rightarrow> nat list res" where
  "cols_of ch =
     (case map_of GLYPHS ch of
        Some cols \<Rightarrow> Inr cols
      | None \<Rightarrow> (case map_of GLYPHS 63 of Some cols \<Rightarrow> Inr cols | None \<Rightarrow> Inl (KeyError ''63'')))"

definition pixel :: "nat \<Rightarrow> nat \<Rightarrow> nat \<Rightarrow> bool res" where
  "pixel ch x y = bindE (cols_of ch) (\<lambda>cols. bindE (bidx cols x) (\<lambda>c. Inr (c AND push_bit y 1 \<noteq> 0)))"

definition bitmap_row :: "nat \<Rightarrow> nat \<Rightarrow> nat res" where
  "bitmap_row ch y =
     foldE (\<lambda>x v. bindE (pixel ch x y) (\<lambda>on. Inr (if on then v OR push_bit (7 - x) 1 else v))) [0..<W] 0"

definition bitmap :: "nat \<Rightarrow> nat list res" where
  "bitmap ch = foldE (\<lambda>y rows. bindE (bitmap_row ch y) (\<lambda>v. Inr (rows @ [v]))) [0..<H] []"

text \<open>\<open>psf1\<close>: subscripting \<open>None\<close> raises \<open>TypeError\<close>.\<close>

definition psf1_char :: "nat \<Rightarrow> bytes \<Rightarrow> bytes res" where
  "psf1_char ch data =
     bindE (if ch < LAST - FIRST + 1 then bindE (bitmap (ch + FIRST)) (\<lambda>rows. Inr (Some rows)) else Inr None) (\<lambda>src.
     bindE (foldE (\<lambda>y data.
              case src of
                None \<Rightarrow> Inl TypeError
              | Some rows \<Rightarrow> bindE (bidx rows y) (\<lambda>v. append_byte v data)) [0..<H] data) (\<lambda>data.
     foldE (\<lambda>y data. append_byte 0 data) [H..<16] data))"

definition psf1 :: "bytes res" where
  "psf1 = foldE psf1_char [0..<256] ([0x72, 0xB5, 0x4A, 0x86] @ [0, of_nat W, of_nat H, 0])"

text \<open>The picture \<^verbatim>\<open>qizofont.py\<close> prints when it is run: the characters in groups of 96, a line of text for each row of pixels and an
  empty one behind each group.\<close>

definition preview_cell :: "nat \<Rightarrow> nat \<Rightarrow> string \<Rightarrow> string res" where
  "preview_cell y ch line =
     bindE (bitmap ch) (\<lambda>rows.
     bindE (bidx rows y) (\<lambda>b.
     Inr (line @ map (\<lambda>x. if b AND push_bit (7 - x) 1 \<noteq> 0 then CHR ''#'' else CHR ''.'') [0..<W] @ ''.'')))"

definition preview_group :: "nat list \<Rightarrow> string list \<Rightarrow> string list res" where
  "preview_group chunk rows =
     bindE (foldE (\<lambda>y rows. bindE (foldE (preview_cell y) chunk []) (\<lambda>line. Inr (rows @ [line]))) [0..<H] rows) (\<lambda>rows.
     Inr (rows @ [[]]))"

definition preview :: "string list res" where
  "preview =
     (let text = [FIRST..<LAST + 1] in
      bindE (foldE (\<lambda>k rows. preview_group (bslice (96 * k) (96 * k + 96) text) rows) [0..<(length text + 95) div 96] []) (\<lambda>rows.
      Inr (map (map (\<lambda>c. if c = CHR ''.'' then CHR '' '' else c)) rows)))"

subsection \<open>The generator\<close>

definition glyph_row :: "nat \<Rightarrow> nat \<Rightarrow> nat res" where
  "glyph_row ch row =
     (let gy = int (row div 2) - 2 in
      if 0 \<le> gy \<and> gy < int H then
        foldE (\<lambda>col v.
          let gx = int col - 1 in
          bindE (if 0 \<le> gx \<and> gx < int W then pixel ch (nat gx) (nat gy) else Inr False) (\<lambda>on.
          Inr (if on then v OR push_bit (7 - col) 1 else v))) [0..<8] 0
      else Inr 0)"

definition glyph_rows :: "nat \<Rightarrow> nat list res" where
  "glyph_rows ch = foldE (\<lambda>row out. bindE (glyph_row ch row) (\<lambda>v. Inr (out @ [v]))) [0..<16] []"

definition slot_rows :: "nat \<Rightarrow> nat list res" where
  "slot_rows ch =
     (let src = ch + FIRST in
      if FIRST \<le> src \<and> src \<le> LAST then glyph_rows src else Inr (replicate 16 0))"

definition font_rows :: "nat list res" where
  "font_rows = foldE (\<lambda>ch rows. bindE (slot_rows ch) (\<lambda>data. Inr (rows @ data))) [0..<256] []"

text \<open>The text of the header file, sixteen values to a line in the format \<^verbatim>\<open>0x%02x\<close>.\<close>

definition hex2 :: "nat \<Rightarrow> string" where
  "hex2 v = ''0x'' @ (if v < 16 then ''0'' else []) @ hex v"

fun commas :: "string list \<Rightarrow> string" where
  "commas [] = []"
| "commas [s] = s"
| "commas (s # ss) = s @ '','' @ commas ss"

definition font_line :: "nat list \<Rightarrow> nat \<Rightarrow> string" where
  "font_line rows i = [CHR 0x09] @ commas (map hex2 (bslice i (i + 16) rows)) @ '','' @ nl"

definition emit_array :: "(string \<times> nat) res" where
  "emit_array =
     bindE font_rows (\<lambda>rows.
     Inr (''#pragma once'' @ nl @ ''static const unsigned char qizo_font_data[256 * 16] = {'' @ nl
            @ concat (map (\<lambda>k. font_line rows (16 * k)) [0..<(length rows + 15) div 16]) @ ''};'' @ nl, length rows))"

definition emit_psf1 :: "bytes res" where
  "emit_psf1 =
     foldE (\<lambda>ch data. bindE (slot_rows ch) (\<lambda>rows.
       bindE (guardE (\<exists>v \<in> set rows. 256 \<le> v) (ValueError ''bytes must be in range(0, 256)'')) (\<lambda>_.
       Inr (data @ map of_nat rows)))) [0..<256] [0x72, 0xB5, 0x4A, 0x86, 0x00, 0x08, 0x10, 0x00]"

section \<open>Bitmaps\<close>

definition glyph :: "nat \<Rightarrow> nat list" where
  "glyph ch = (case map_of GLYPHS ch of Some cols \<Rightarrow> cols | None \<Rightarrow> [0x02, 0x01, 0x51, 0x09, 0x06])"

lemma glyphs_ok: "\<forall>(k, cols) \<in> set GLYPHS. length cols = 5" "map_of GLYPHS 63 = Some [0x02, 0x01, 0x51, 0x09, 0x06]"
  by (simp_all add: GLYPHS_def)

lemma length_glyph: "length (glyph ch) = 5"
proof (cases "map_of GLYPHS ch")
  case (Some cols)
  then have "(ch, cols) \<in> set GLYPHS" by (rule map_of_SomeD)
  then show ?thesis using Some glyphs_ok(1) by (auto simp: glyph_def)
qed (simp add: glyph_def)

lemma pixel_ok: "x < 5 \<Longrightarrow> pixel ch x y = Inr (bit (glyph ch ! x) y)"
proof -
  assume "x < 5"
  moreover have "cols_of ch = Inr (glyph ch)" by (simp add: cols_of_def glyph_def glyphs_ok(2) split: option.split)
  moreover have "c AND push_bit y 1 \<noteq> 0 \<longleftrightarrow> bit c y" for c :: nat
    using and_exp_eq_0_iff_not_bit [of c y] by (simp add: push_bit_eq_mult)
  ultimately show ?thesis using length_glyph [of ch] by (simp add: pixel_def bidx_def)
qed

text \<open>A row as the number its five pixels make.\<close>

definition row_val :: "(nat \<Rightarrow> bool) \<Rightarrow> nat" where
  "row_val f = 128 * of_bool (f 0) + 64 * of_bool (f 1) + 32 * of_bool (f 2) + 16 * of_bool (f 3) + 8 * of_bool (f 4)"

lemma row_val_less: "row_val f < 256"
  by (cases "f 0"; cases "f 1"; cases "f 2"; cases "f 3"; cases "f 4") (simp_all add: row_val_def)

lemma bitmap_row_ok: "bitmap_row ch y = Inr (row_val (\<lambda>x. bit (glyph ch ! x) y))"
proof -
  have u: "[0..<5] = [0, 1, 2, 3, 4 :: nat]" by (simp add: upt_rec)
  show ?thesis
    unfolding bitmap_row_def W_def u
    by (cases "bit (glyph ch ! 0) y"; cases "bit (glyph ch ! 1) y"; cases "bit (glyph ch ! 2) y"; cases "bit (glyph ch ! 3) y";
        cases "bit (glyph ch ! 4) y") (simp_all add: pixel_ok row_val_def)
qed

lemma glyph_row_ok:
  "row < 16 \<Longrightarrow> glyph_row ch row = Inr (if 4 \<le> row then row_val (\<lambda>x. bit (glyph ch ! x) (row div 2 - 2)) div 2 else 0)"
proof -
  assume r: "row < 16"
  have u: "[0..<8] = [0, 1, 2, 3, 4, 5, 6, 7 :: nat]" by (simp add: upt_rec)
  show ?thesis
  proof (cases "4 \<le> row")
    case True
    let ?y = "row div 2 - 2"
    have y: "nat (int (row div 2) - 2) = ?y" "0 \<le> int (row div 2) - 2" "int (row div 2) - 2 < 7" using True r by linarith+
    show ?thesis
      unfolding glyph_row_def Let_def u y(1) H_def W_def using y(2,3) True
      by (cases "bit (glyph ch ! 0) ?y"; cases "bit (glyph ch ! 1) ?y"; cases "bit (glyph ch ! 2) ?y"; cases "bit (glyph ch ! 3) ?y";
          cases "bit (glyph ch ! 4) ?y") (simp_all add: pixel_ok row_val_def)
  next
    case False
    then have "\<not> 0 \<le> int (row div 2) - 2" by linarith
    then show ?thesis using False by (simp add: glyph_row_def)
  qed
qed

lemma foldE_rows:
  "(\<And>x. x \<in> set xs \<Longrightarrow> f x = Inr (h x)) \<Longrightarrow> foldE (\<lambda>x acc. bindE (f x) (\<lambda>v. Inr (acc @ [v]))) xs acc = Inr (acc @ map h xs)"
  by (induction xs arbitrary: acc) auto

lemma bitmap_ok: "bitmap ch = Inr (map (\<lambda>y. row_val (\<lambda>x. bit (glyph ch ! x) y)) [0..<7])"
  unfolding bitmap_def H_def by (subst foldE_rows [OF bitmap_row_ok]) simp_all

definition scaled_rows :: "nat \<Rightarrow> nat list" where
  "scaled_rows ch = map (\<lambda>row. if 4 \<le> row then row_val (\<lambda>x. bit (glyph ch ! x) (row div 2 - 2)) div 2 else 0) [0..<16]"

lemma glyph_rows_ok: "glyph_rows ch = Inr (scaled_rows ch)"
  unfolding glyph_rows_def scaled_rows_def by (subst foldE_rows [OF glyph_row_ok]) simp_all

definition slot :: "nat \<Rightarrow> nat list" where
  "slot ch = (if ch \<le> 94 then scaled_rows (ch + 32) else replicate 16 0)"

lemma slot_ok: "slot_rows ch = Inr (slot ch)" "length (slot ch) = 16" "\<forall>v \<in> set (slot ch). v < 256"
proof -
  show "slot_rows ch = Inr (slot ch)" by (simp add: slot_rows_def slot_def glyph_rows_ok FIRST_def LAST_def Let_def)
  show "length (slot ch) = 16" by (simp add: slot_def scaled_rows_def del: upt_Suc)
  have "row_val f div 2 < 256" for f using row_val_less [of f] by simp
  then show "\<forall>v \<in> set (slot ch). v < 256" by (auto simp: slot_def scaled_rows_def simp del: upt_Suc)
qed

lemma font_rows_ok: "font_rows = Inr (concat (map slot [0..<256]))"
  unfolding font_rows_def by (subst foldE_collect [OF slot_ok(1)]) simp_all

lemma emit_psf1_ok:
  "emit_psf1 = Inr ([0x72, 0xB5, 0x4A, 0x86, 0x00, 0x08, 0x10, 0x00] @ concat (map (\<lambda>ch. map of_nat (slot ch)) [0..<256]))"
proof -
  let ?f = "\<lambda>ch :: nat. (Inr (map of_nat (slot ch)) :: bytes res)"
  have step: "(\<lambda>ch data. bindE (slot_rows ch) (\<lambda>rows.
        bindE (guardE (\<exists>v \<in> set rows. 256 \<le> v) e) (\<lambda>_. Inr (data @ map of_nat rows)))) =
      (\<lambda>ch data. bindE (?f ch) (\<lambda>v. Inr (data @ v)))" for e
  proof (intro ext)
    fix ch and data :: bytes
    have "\<not> (\<exists>v \<in> set (slot ch). 256 \<le> v)" using slot_ok(3) [of ch] by (simp add: not_le)
    then show "bindE (slot_rows ch) (\<lambda>rows. bindE (guardE (\<exists>v \<in> set rows. 256 \<le> v) e) (\<lambda>_. Inr (data @ map of_nat rows))) =
        bindE (?f ch) (\<lambda>v. Inr (data @ v))"
      by (simp add: slot_ok(1) guardE_def)
  qed
  show ?thesis unfolding emit_psf1_def step by (rule foldE_collect) (rule refl)
qed

lemma foldE_cong_set: "(\<And>x s. x \<in> set xs \<Longrightarrow> f x s = f' x s) \<Longrightarrow> foldE f xs s = foldE f' xs s"
proof (induction xs arbitrary: s)
  case (Cons x xs)
  then have "foldE f xs = foldE f' xs" by (intro ext) simp
  then show ?case using Cons.prems [of x s] by simp
qed simp

lemma append_bytes:
  "\<forall>x \<in> set xs. f x < 256 \<Longrightarrow> foldE (\<lambda>x data. append_byte (f x) data) xs data = Inr (data @ map (\<lambda>x. of_nat (f x)) xs)"
  by (induction xs arbitrary: data) (simp_all add: append_byte_def)

lemma psf1_char_ok:
  assumes "ch < 95"
  shows "\<exists>rows. bitmap (ch + FIRST) = Inr rows \<and> length rows = 7 \<and> psf1_char ch data = Inr (data @ map of_nat rows @ zeros 9)"
proof -
  let ?r = "\<lambda>y. row_val (\<lambda>x. bit (glyph (ch + 32) ! x) y)"
  let ?rows = "map ?r [0..<7]"
  have "foldE (\<lambda>y data. bindE (bidx ?rows y) (\<lambda>v. append_byte v data)) [0..<7] data = foldE (\<lambda>y data. append_byte (?r y) data) [0..<7] data"
    by (rule foldE_cong_set) (simp add: bidx_def del: upt_Suc upt_rec_numeral)
  also have "\<dots> = Inr (data @ map (\<lambda>y. of_nat (?r y)) [0..<7])" by (rule append_bytes) (simp add: row_val_less)
  finally have a: "foldE (\<lambda>y data. bindE (bidx ?rows y) (\<lambda>v. append_byte v data)) [0..<7] data = Inr (data @ map of_nat ?rows)"
    by (simp add: comp_def del: upt_Suc upt_rec_numeral)
  have b: "foldE (\<lambda>y data. append_byte 0 data) [7..<16] t = Inr (t @ zeros 9)" for t
    using append_bytes [of "[7..<16]" "\<lambda>_. 0" t] by (simp add: zeros_def map_replicate_const del: upt_Suc upt_rec_numeral)
  have "psf1_char ch data = bindE (foldE (\<lambda>y data. bindE (bidx ?rows y) (\<lambda>v. append_byte v data)) [0..<7] data)
      (\<lambda>data. foldE (\<lambda>y data. append_byte 0 data) [7..<16] data)"
    using assms unfolding psf1_char_def bitmap_ok LAST_def FIRST_def H_def by (simp del: upt_Suc upt_rec_numeral)
  then have "psf1_char ch data = Inr (data @ map of_nat ?rows @ zeros 9)" unfolding a by (simp add: b del: upt_Suc upt_rec_numeral)
  moreover have "bitmap (ch + FIRST) = Inr ?rows" by (simp only: bitmap_ok FIRST_def)
  ultimately show ?thesis by (intro exI [of _ ?rows]) simp
qed

lemma psf1_char_none: "95 \<le> ch \<Longrightarrow> psf1_char ch data = Inl TypeError"
proof -
  assume "95 \<le> ch"
  moreover have "[0..<7] = 0 # [1..<7 :: nat]" by (simp add: upt_conv_Cons)
  ultimately show ?thesis by (simp add: psf1_char_def LAST_def FIRST_def H_def del: upt_Suc)
qed

lemma bit_row_val: "x < 8 \<Longrightarrow> bit (row_val f) (7 - x) \<longleftrightarrow> x < 5 \<and> f x"
proof -
  assume "x < 8"
  then have "x = 0 \<or> x = 1 \<or> x = 2 \<or> x = 3 \<or> x = 4 \<or> x = 5 \<or> x = 6 \<or> x = 7" by linarith
  then show ?thesis
    by (elim disjE; cases "f 0"; cases "f 1"; cases "f 2"; cases "f 3"; cases "f 4")
      (simp_all add: row_val_def bit_nat_def)
qed

lemma bit_half_row: "col < 8 \<Longrightarrow> bit (row_val f div 2) (7 - col) \<longleftrightarrow> 1 \<le> col \<and> col \<le> 5 \<and> f (col - 1)"
proof (cases col)
  case 0
  have "row_val f div 2 < 2 ^ 7" using row_val_less [of f] by simp
  then show ?thesis using 0 by (simp add: bit_nat_def)
next
  case (Suc x)
  assume "col < 8"
  then have "bit (row_val f div 2) (7 - col) \<longleftrightarrow> bit (row_val f) (7 - x)"
    using Suc by (simp add: bit_Suc [symmetric] Suc_diff_le [symmetric])
  then show ?thesis using bit_row_val [of x f] \<open>col < 8\<close> Suc by auto
qed

lemma concat_slot:
  "(\<And>i. length (h i) = k) \<Longrightarrow> j < k \<Longrightarrow> i < n \<Longrightarrow> concat (map h [0..<n]) ! (k * i + j) = h i ! j"
proof (induction n)
  case (Suc n)
  have len: "length (concat (map h [0..<n])) = k * n"
    using Suc.prems(1) by (simp add: length_concat comp_def sum_list_triv)
  show ?case
  proof (cases "i < n")
    case True
    then have "k * Suc i \<le> k * n" by (intro mult_le_mono) simp_all
    then have "k * i + j < k * n" using Suc.prems(2) by simp
    then show ?thesis using Suc True by (simp add: nth_append len)
  next
    case False
    then have "i = n" using Suc.prems(3) by simp
    then show ?thesis by (simp add: nth_append len)
  qed
qed simp

text \<open>The cells of a line, and the whole picture: every glyph pixel by pixel, one blank column behind each.\<close>

definition cell :: "nat \<Rightarrow> nat \<Rightarrow> string" where
  "cell y ch = map (\<lambda>x. if bit (glyph ch ! x) y then CHR ''#'' else CHR ''.'') [0..<5] @ ''.''"

lemma preview_cell_ok:
  assumes "y < 7"
  shows "preview_cell y ch line = Inr (line @ cell y ch)"
proof -
  have "row_val f AND push_bit (7 - x) 1 \<noteq> 0 \<longleftrightarrow> f x" if "x < 5" for f x
    using and_exp_eq_0_iff_not_bit [of "row_val f" "7 - x"] bit_row_val [of x f] that by (simp add: push_bit_eq_mult)
  then show ?thesis using assms
    by (simp add: preview_cell_def bitmap_ok bidx_def cell_def W_def del: upt_Suc upt_rec_numeral)
qed

lemma preview_line_ok: "y < 7 \<Longrightarrow> foldE (preview_cell y) chs line = Inr (line @ concat (map (cell y) chs))"
  by (induction chs arbitrary: line) (simp_all add: preview_cell_ok)

lemma preview_group_ok: "preview_group chs rows = Inr (rows @ map (\<lambda>y. concat (map (cell y) chs)) [0..<7] @ [[]])"
proof -
  have "foldE (\<lambda>y rows. bindE (foldE (preview_cell y) chs []) (\<lambda>line. Inr (rows @ [line]))) [0..<7] rows =
      Inr (rows @ map (\<lambda>y. concat (map (cell y) chs)) [0..<7])"
    by (rule foldE_rows) (simp add: preview_line_ok)
  then show ?thesis by (simp add: preview_group_def H_def del: upt_Suc upt_rec_numeral)
qed

lemma preview_picture:
  "preview = Inr (map (\<lambda>y. concat (map (\<lambda>ch. map (\<lambda>x. if pixel ch x y = Inr True then CHR ''#'' else CHR '' '') [0..<W] @ '' '') [32..<127])) [0..<H] @ [[]])"
proof -
  let ?dot = "\<lambda>c. if c = CHR ''.'' then CHR '' '' else c"
  have n: "[0..<(length [32..<127 :: nat] + 95) div 96] = [0]" by simp
  have b: "bslice (96 * 0) (96 * 0 + 96) [32..<127] = [32..<127 :: nat]" by (simp add: bslice_def del: upt_Suc upt_rec_numeral)
  have c: "map ?dot (cell y ch) = map (\<lambda>x. if pixel ch x y = Inr True then CHR ''#'' else CHR '' '') [0..<5] @ '' ''" for y ch
    by (simp add: cell_def pixel_ok del: upt_Suc upt_rec_numeral)
  have "preview = Inr (map (map ?dot) (map (\<lambda>y. concat (map (cell y) [32..<127])) [0..<7] @ [[]]))"
    unfolding preview_def Let_def FIRST_def LAST_def
    using n b by (simp add: preview_group_ok del: upt_Suc upt_rec_numeral)
  also have "\<dots> = Inr (map (\<lambda>y. concat (map (\<lambda>ch. map ?dot (cell y ch)) [32..<127])) [0..<7] @ [[]])"
    by (simp add: map_concat comp_def del: upt_Suc upt_rec_numeral)
  finally show ?thesis unfolding c W_def H_def .
qed

section \<open>Properties\<close>

text \<open>C33: the bitmap of every character code is seven bytes, and the bit \<open>7 - x\<close> of byte \<open>y\<close> is set exactly when \<open>x\<close> is
  one of the five columns and the pixel of the glyph (that of the question mark where the table has none) is on.\<close>

theorem bitmap_pixels:
  assumes "x < 8" "y < 7"
  shows "\<exists>rows. bitmap ch = Inr rows \<and> length rows = H \<and> rows ! y < 256 \<and>
           (bit (rows ! y) (7 - x) \<longleftrightarrow> x < W \<and> pixel ch x y = Inr True)"
  using assms row_val_less bit_row_val [of x "\<lambda>x. bit (glyph ch ! x) y"]
  by (auto simp: bitmap_ok H_def W_def pixel_ok simp del: upt_Suc upt_rec_numeral)

theorem bitmap_pixels_witness:
  "bitmap 65 = Inr [0x70, 0x88, 0x88, 0x88, 0xF8, 0x88, 0x88] \<and> bit (0x70 :: nat) (7 - 1) \<and> pixel 65 1 0 = Inr True"
proof -
  have "bitmap 65 = Inr [0x70, 0x88, 0x88, 0x88, 0xF8, 0x88, 0x88]"
    by (simp add: bitmap_ok glyph_def GLYPHS_def row_val_def bit_nat_def upt_rec)
  then show ?thesis using bitmap_pixels [of 1 0 65] by (auto simp: bit_nat_def)
qed

text \<open>C31: the PSF file the generator writes has the eight header bytes and 256 slots of 16 rows; the pixel at column
  \<open>col\<close> of row \<open>row\<close> of slot \<open>ch\<close> is that of the glyph of code \<open>ch + 32\<close> for slots 0 to 94, doubled vertically, with the
  first four rows and the columns 0, 6 and 7 blank. Only the glyph rows 0 to 5 are drawn.\<close>

theorem emit_psf1_slots:
  assumes "ch < 256" "row < 16" "col < 8"
  shows "\<exists>data. emit_psf1 = Inr data \<and> length data = 8 + 16 * 256 \<and>
           (bit (data ! (8 + (16 * ch + row))) (7 - col) \<longleftrightarrow>
             ch \<le> LAST - FIRST \<and> 4 \<le> row \<and> 1 \<le> col \<and> col \<le> W \<and> pixel (ch + FIRST) (col - 1) (row div 2 - 2) = Inr True)"
proof -
  let ?h = "\<lambda>ch. map of_nat (slot ch) :: bytes"
  have len: "length (concat (map ?h [0..<256])) = 16 * 256" by (simp add: length_concat comp_def slot_ok(2) sum_list_triv)
  have nth: "([0x72, 0xB5, 0x4A, 0x86, 0x00, 0x08, 0x10, 0x00] @ concat (map ?h [0..<256])) ! (8 + (16 * ch + row)) = ?h ch ! row"
    using concat_slot [of ?h 16 row ch 256] assms by (simp add: nth_append slot_ok(2) del: upt_Suc upt_rec_numeral)
  have v: "?h ch ! row = of_nat (slot ch ! row)" using assms(2) by (simp add: slot_ok(2))
  have "bit (of_nat (slot ch ! row) :: 8 word) (7 - col) \<longleftrightarrow> bit (slot ch ! row) (7 - col)"
    using assms(3) by (auto simp: bit_of_nat_iff)
  also have "\<dots> \<longleftrightarrow> ch \<le> 94 \<and> 4 \<le> row \<and> 1 \<le> col \<and> col \<le> 5 \<and> bit (glyph (ch + 32) ! (col - 1)) (row div 2 - 2)"
    using assms(2,3) by (simp add: slot_def scaled_rows_def bit_half_row del: upt_Suc upt_rec_numeral)
  also have "\<dots> \<longleftrightarrow> ch \<le> LAST - FIRST \<and> 4 \<le> row \<and> 1 \<le> col \<and> col \<le> W \<and>
      pixel (ch + FIRST) (col - 1) (row div 2 - 2) = Inr True"
    by (auto simp: LAST_def FIRST_def W_def pixel_ok)
  finally show ?thesis unfolding emit_psf1_ok using nth v len by (simp del: upt_Suc upt_rec_numeral)
qed

theorem emit_psf1_slots_witness:
  "\<exists>data. emit_psf1 = Inr data \<and> bit (data ! (8 + (16 * 33 + 4))) (7 - 2)"
  using emit_psf1_slots [of 33 4 2] by (auto simp: LAST_def FIRST_def W_def pixel_ok glyph_def GLYPHS_def bit_nat_def)

text \<open>C32: \<open>qizofont.psf1\<close> never returns. Each of the slots 0 to 94 appends the seven rows of the bitmap of its code and nine
  empty rows; every slot from 95 on subscripts \<open>None\<close>, which raises \<open>TypeError\<close>, so a run over the first \<open>n\<close> slots succeeds exactly
  when \<open>n\<close> is at most 95, and the run over all 256 raises.\<close>

theorem psf1_raises:
  "(ch < 95 \<longrightarrow> (\<exists>rows. bitmap (ch + FIRST) = Inr rows \<and> length rows = 7 \<and> psf1_char ch data = Inr (data @ map of_nat rows @ zeros 9))) \<and>
   (95 \<le> ch \<longrightarrow> psf1_char ch data = Inl TypeError) \<and>
   ((\<exists>out. foldE psf1_char [0..<n] data = Inr out) \<longleftrightarrow> n \<le> 95) \<and> psf1 = Inl TypeError"
proof -
  have first: "\<exists>t. foldE psf1_char [0..<n] d = Inr t" if "n \<le> 95" for n d
  proof (rule foldE_ok)
    fix x s
    assume "x \<in> set [0..<n]"
    then have "x < 95" using that by simp
    then show "\<exists>t. psf1_char x s = Inr t" using psf1_char_ok by blast
  qed
  have beyond: "foldE psf1_char [0..<n] d = Inl TypeError" if "95 < n" for n d
  proof -
    obtain t where t: "foldE psf1_char [0..<95] d = Inr t" using first [of 95 d] by auto
    have "[0..<n] = [0..<95] @ 95 # [96..<n]"
      using upt_add_eq_append [of 0 95 "n - 95"] upt_conv_Cons [of 95 n] that by (simp del: upt_Suc upt_rec_numeral)
    then show ?thesis using t by (simp add: foldE_append psf1_char_none del: upt_Suc upt_rec_numeral)
  qed
  have "(\<exists>out. foldE psf1_char [0..<n] data = Inr out) \<longleftrightarrow> n \<le> 95"
    using first [of n data] beyond [of n data] by (cases "n \<le> 95") (simp_all del: upt_Suc upt_rec_numeral)
  moreover have "psf1 = Inl TypeError" unfolding psf1_def by (rule beyond) simp
  ultimately show ?thesis using psf1_char_ok psf1_char_none by blast
qed

theorem psf1_raises_witness:
  "(\<exists>rows. bitmap 126 = Inr rows \<and> psf1_char 94 [] = Inr (map of_nat rows @ zeros 9)) \<and> psf1_char 95 [] = Inl TypeError \<and> psf1 = Inl TypeError"
  using psf1_raises [of 94 "[]" 0] psf1_raises [of 95 "[]" 0] by (auto simp: FIRST_def)

end
