(* ===== verification/Qizo_Test.thy ===== *)
theory Qizo_Test
  imports Qizo_Asmrun Qizo_Font "HOL-Library.List_Lexorder" "HOL-Library.Char_ord"
begin

text \<open>
  The unit test driver, \<^verbatim>\<open>src/tools/qizocheck/qizotest.py\<close>, apart from the layout tests (\<open>test_layout\<close>, \<open>test_boot_tables\<close>)
  and \<open>hand_adler\<close>, which stand beside the code they test. A test gives the names and outcomes of its checks in order, or the
  exception that stops the driver. The numbers the seeded generators draw are the parameter \<open>draw\<close>: \<open>draw k i\<close> is the byte
  number \<open>i\<close> of the draw number \<open>k\<close>. The texts of the boot and kernel sources the driver opens are arguments.
\<close>

section \<open>Definitions\<close>

type_synonym outcome = "(string \<times> bool) list"

definition drawn :: "(nat \<Rightarrow> nat \<Rightarrow> byte) \<Rightarrow> nat \<Rightarrow> nat \<Rightarrow> bytes" where
  "drawn draw k n = map (draw k) [0..<n]"

definition ascii_bytes :: "string \<Rightarrow> bytes" where
  "ascii_bytes s = map of_char s"

definition test_checksum :: "(nat \<Rightarrow> nat \<Rightarrow> byte) \<Rightarrow> outcome" where
  "test_checksum draw =
     (let data = concat (replicate 40 (map of_nat [0..<251])) @ ascii_bytes ''qizo'' in
      [(''adler matches the hand loop'', checksum data = hand_adler data),
       (''adler of empty'', checksum [] = 1)] @
      map (\<lambda>i. let blob = drawn draw i (1 + i * 977) in
             (''adler stable for random blob '' @ dec i, checksum blob = hand_adler blob)) [0..<4])"

definition lzss_cases :: "(nat \<Rightarrow> nat \<Rightarrow> byte) \<Rightarrow> bytes list" where
  "lzss_cases draw =
     [[], ascii_bytes ''a'', ascii_bytes ''ab'', zeros 5000, map of_nat [0..<256],
      concat (replicate 4000 (ascii_bytes ''qizo'')), drawn draw 0 9000] @
     map (\<lambda>i. let chunk = drawn draw (1 + i) 4000 in chunk @ bslice 0 200 chunk @ chunk) [0..<6]"

definition lzss_case :: "nat \<times> bytes \<Rightarrow> outcome \<Rightarrow> outcome res" where
  "lzss_case = (\<lambda>(i, src) done_checks.
     bindE (compress src) (\<lambda>blob.
     bindE (decompress blob) (\<lambda>back.
     bindE (unpack_le 4 blob 0) (\<lambda>magic.
     Inr (done_checks @
       [(''lzss roundtrip '' @ dec i @ '' ('' @ dec (length src) @ '' bytes)'', back = src),
        (''lzss header '' @ dec i, magic = 0x51495A4C)])))))"

definition test_lzss :: "(nat \<Rightarrow> nat \<Rightarrow> byte) \<Rightarrow> outcome res" where
  "test_lzss draw =
     bindE (foldE lzss_case (zip [0..<length (lzss_cases draw)] (lzss_cases draw)) []) (\<lambda>checks.
     let worst = drawn draw 7 20000 in
     bindE (compress worst) (\<lambda>blob.
     Inr (checks @ [(''lzss never explodes past the 16-bit window'', length blob < length worst + 20000 div 8 * 2 + 16)])))"

definition test_match_window :: "outcome res" where
  "test_match_window =
     (let src = concat (replicate 5000 (ascii_bytes ''qizo'')) in
      bindE (compress src) (\<lambda>blob.
      Inr [(''lzss shrinks repetitive input'', length blob * 3 < length src * 2)]))"

text \<open>
  \<open>re.findall\<close> with one group: \<open>m bol s\<close> is the match at the head of \<open>s\<close>, the group and the number of characters matched,
  where \<open>bol\<close> says that a line starts there; the scan goes on behind a match.
\<close>

fun findall :: "(bool \<Rightarrow> string \<Rightarrow> (string \<times> nat) option) \<Rightarrow> nat \<Rightarrow> bool \<Rightarrow> string \<Rightarrow> string list" where
  "findall m k bol [] = []"
| "findall m (Suc k) bol (c # s) = findall m k (c = CHR 0x0A) s"
| "findall m 0 bol (c # s) =
     (case m bol (c # s) of
        Some (name, n) \<Rightarrow> name # findall m (n - 1) (c = CHR 0x0A) s
      | None \<Rightarrow> findall m 0 (c = CHR 0x0A) s)"

definition is_ident :: "char \<Rightarrow> bool" where
  "is_ident c = (let n = (of_char c :: int) in
     48 \<le> n \<and> n \<le> 57 \<or> 65 \<le> n \<and> n \<le> 90 \<or> n = 95 \<or> 97 \<le> n \<and> n \<le> 122)"

text \<open>The name \<^verbatim>\<open>\.qizo_[A-Za-z0-9_]+\<close> at the head of a text.\<close>

definition section_name :: "string \<Rightarrow> string option" where
  "section_name s =
     (let ident = takeWhile is_ident (drop 6 s) in
      if take 6 s = ''.qizo_'' \<and> ident \<noteq> [] then Some (''.qizo_'' @ ident) else None)"

definition section_use :: "bool \<Rightarrow> string \<Rightarrow> (string \<times> nat) option" where
  "section_use bol s =
     (let r = drop 8 s; r1 = dropWhile is_ws r in
      if take 8 s = ''.section'' \<and> r1 \<noteq> r then
        (case section_name r1 of Some name \<Rightarrow> Some (name, length s - length r1 + length name) | None \<Rightarrow> None)
      else None)"

definition section_place :: "bool \<Rightarrow> string \<Rightarrow> (string \<times> nat) option" where
  "section_place bol s =
     (let r = dropWhile is_ws s in
      if bol then
        (case section_name r of
           None \<Rightarrow> None
         | Some name \<Rightarrow>
             let r1 = dropWhile is_ws (drop (length name) r); r2 = dropWhile is_ws (drop 1 r1) in
             if take 1 r1 = '':'' \<and> take 1 r2 = ''{'' then Some (name, length s - length r2 + 1) else None)
      else None)"

fun comma_list :: "string list \<Rightarrow> string" where
  "comma_list [] = []"
| "comma_list [s] = s"
| "comma_list (s # ss) = s @ '', '' @ comma_list ss"

definition test_boot_section :: "string \<Rightarrow> string \<Rightarrow> string \<Rightarrow> string \<times> bool" where
  "test_boot_section base src lds =
     (let used = findall section_use 0 True src;
          placed = findall section_place 0 True lds;
          orphans = comma_list (sort (remdups (filter (\<lambda>x. x \<notin> set placed) used))) in
      (base @ '' places every section it emits ('' @ (if orphans = [] then ''none orphaned'' else orphans) @ '')'',
       set used \<subseteq> set placed))"

text \<open>\<open>sub in s\<close> is \<open>str_find\<close>; \<open>s.count(sub)\<close> counts occurrences that do not overlap.\<close>

fun count_skip :: "string \<Rightarrow> nat \<Rightarrow> string \<Rightarrow> nat" where
  "count_skip sub k [] = 0"
| "count_skip sub (Suc k) (c # s) = count_skip sub k s"
| "count_skip sub 0 (c # s) =
     (if take (length sub) (c # s) = sub then 1 + count_skip sub (length sub - 1) s else count_skip sub 0 s)"

definition test_boot_once_routines :: "string \<Rightarrow> string \<Rightarrow> outcome" where
  "test_boot_once_routines main_c boot64 =
     [(''kernel main does not rebuild the live page tables'', str_find ''qizo_paging_setup'' main_c = None),
      (''the entry code builds them once'', count_skip ''call qizo_paging_setup'' 0 boot64 = 1)]"

definition test_font :: "outcome res" where
  "test_font =
     bindE (bitmap 65) (\<lambda>rows.
     bindE (bitmap 32) (\<lambda>blank.
     Inr [(''font glyph rows'', length rows = H),
          (''font has A'', \<exists>v \<in> set rows. v \<noteq> 0),
          (''font blank space'', blank = replicate H 0)]))"

record sources =
  stage1_S :: string
  stage1_ld :: string
  stage2_S :: string
  stage2_ld :: string
  main_c :: string
  boot64_S :: string

text \<open>The driver: all outcomes in order, and the exit status.\<close>

definition all_checks :: "(nat \<Rightarrow> nat \<Rightarrow> byte) \<Rightarrow> sources \<Rightarrow> outcome res" where
  "all_checks draw texts =
     bindE (test_lzss (\<lambda>k. draw (4 + k))) (\<lambda>lz.
     bindE test_match_window (\<lambda>mw.
     bindE test_font (\<lambda>font.
     Inr (test_checksum draw @ lz @ mw @ test_layout @
       [test_boot_section ''stage1'' (stage1_S texts) (stage1_ld texts), test_boot_section ''stage2'' (stage2_S texts) (stage2_ld texts)] @
       test_boot_tables @ test_boot_once_routines (main_c texts) (boot64_S texts) @ font))))"

definition qizotest :: "(nat \<Rightarrow> nat \<Rightarrow> byte) \<Rightarrow> sources \<Rightarrow> (string list \<times> nat) res" where
  "qizotest draw texts =
     bindE (all_checks draw texts) (\<lambda>checks.
     let fails = map fst (filter (\<lambda>(name, cond). \<not> cond) checks) in
     Inr (fails, if fails \<noteq> [] then 1 else 0))"

section \<open>Repetitive input\<close>

text \<open>From the second period on every position but the last two has a match as long as the format allows.\<close>

definition periodic :: "nat \<Rightarrow> bytes \<Rightarrow> bool" where
  "periodic p src \<longleftrightarrow> 1 \<le> p \<and> p \<le> WINDOW \<and> (\<forall>k. k + p < length src \<longrightarrow> src ! (k + p) = src ! k)"

lemma periodic_match:
  assumes "periodic p src" "p \<le> i" "i < length src" "find_match src i (length src) = (off, len)"
  shows "if length src - i < 3 then len = 0 else len = min 18 (length src - i)"
proof -
  let ?n = "length src" and ?lim = "min MAX_MATCH (length src - i)"
  have "src ! (i - p + k) = src ! (i + k)" if "k < ?lim" for k
    using assms(1,2) that spec [of "\<lambda>k. k + p < ?n \<longrightarrow> src ! (k + p) = src ! k" "i - p + k"] by (auto simp: periodic_def)
  then have full: "?lim \<le> match_len src i (i - p) ?lim 0" by (subst match_len_ge_iff) auto
  have j: "i - p < i" "i \<le> i - p + WINDOW" using assms(1,2) by (auto simp: periodic_def)
  show ?thesis
  proof (cases "len = 0")
    case True
    then have "match_len src i (i - p) ?lim 0 < MIN_MATCH" using find_match_none j assms(4) by blast
    then show ?thesis using full True by (auto simp: MIN_MATCH_def MAX_MATCH_def)
  next
    case False
    note s = find_match_spec [OF assms(4) False]
    have "?lim \<le> len" using s(8) j full by (meson le_trans)
    then have "len = ?lim" using s(2,3) by simp
    then show ?thesis using s(1) by (simp add: MIN_MATCH_def MAX_MATCH_def)
  qed
qed

lemma enc_bits_periodic:
  assumes "enc_bits src (length src) ks i f out = Inr (i', f', out')"
    and "periodic p src" "p \<le> i"
  shows "length src \<le> i' + 1 \<or> i + 18 * length ks \<le> i'"
  using assms(1,3)
proof (induction rule: enc_bits_induct)
  case (lit k ks i f out i' f' out' off)
  then have "length src - i < 3" using periodic_match [OF assms(2) lit.prems lit(1,2)] by (auto split: if_splits)
  moreover have "i + 1 \<le> i'" using enc_bits_progress [OF lit(3)] by simp
  ultimately show ?case by auto
next
  case (mat k ks i f out i' f' out' off len)
  then have "len = min 18 (length src - i)" using periodic_match [OF assms(2) mat.prems mat(1,2)] by (auto split: if_splits)
  moreover have "i + len \<le> i'" using enc_bits_progress [OF mat(4)] by simp
  ultimately show ?case using mat.IH mat.prems by auto
qed auto

lemma enc_bits_at_most:
  "enc_bits src n ks i f out = Inr (i', f', out') \<Longrightarrow> length out' \<le> length out + 2 * length ks"
  by (induction rule: enc_bits_induct) auto

text \<open>What is still to be written, four times over: a quarter byte for each byte of the repeated part, and the constants
  for the first period and the last two groups.\<close>

definition budget :: "nat \<Rightarrow> nat \<Rightarrow> nat \<Rightarrow> nat" where
  "budget p n i = (n - i) + (if i < p then 9 * (p - i) + 72 else 0) + (if n \<le> i then 0 else if n \<le> i + 1 then 68 else 136)"

lemma budget_step:
  assumes "i < n" "i' \<le> n" "i < i'" "i + 8 \<le> i' \<or> n \<le> i'" "p \<le> i \<Longrightarrow> n \<le> i' + 1 \<or> i + 144 \<le> i'"
  shows "68 + budget p n i' \<le> budget p n i"
  using assms by (cases "p \<le> i") (auto simp: budget_def)

lemma compress_loop_periodic:
  assumes "periodic p src" "i \<le> length src" "compress_loop src (length src) i out = Inr z"
  shows "4 * length z \<le> 4 * length out + budget p (length src) i"
  using assms(2,3)
proof (induction "length src - i" arbitrary: i out rule: less_induct)
  case less
  show ?case
  proof (cases "i < length src")
    case True
    from compress_loop_step [OF True, of src out] obtain i' f' b where
      e: "enc_bits src (length src) [0..<8] i 0 (out @ [0]) = Inr (i', f', (out @ [0]) @ b)"
      and p: "i < i'" "i + 8 \<le> i' \<or> length src \<le> i'"
      and l: "compress_loop src (length src) i out = compress_loop src (length src) i' (out @ of_nat f' # b)" by metis
    have n: "i' \<le> length src" using enc_bits_le [OF e] less.prems(1) by simp
    have "length b \<le> 16" using enc_bits_at_most [OF e] by simp
    moreover have "4 * length z \<le> 4 * length (out @ of_nat f' # b) + budget p (length src) i'"
      using less.hyps [of i' "out @ of_nat f' # b"] less.prems(2) l n p(1) True by simp
    moreover have "68 + budget p (length src) i' \<le> budget p (length src) i"
      using enc_bits_periodic [OF e assms(1)] by (intro budget_step [OF True n p]) simp
    ultimately show ?thesis by simp
  next
    case False
    then show ?thesis using less.prems by (simp add: compress_loop.simps)
  qed
qed

lemma compress_periodic:
  assumes "periodic p src" "length src < 2 ^ 32"
  shows "\<exists>z. compress src = Inr z \<and> 4 * length z \<le> length src + 9 * p + 240"
proof -
  let ?h = "le_bytes 4 LZSS_MAGIC @ le_bytes 4 (length src)"
  obtain z where z: "compress_loop src (length src) 0 ?h = Inr z" using compress_loop_total by blast
  with assms have "compress src = Inr z" by (simp add: compress_def pack_le_def LZSS_MAGIC_def)
  moreover have "4 * length z \<le> 4 * length ?h + budget p (length src) 0" by (rule compress_loop_periodic [OF assms(1) _ z]) simp
  moreover have "budget p (length src) 0 \<le> length src + 9 * p + 208" by (simp add: budget_def)
  ultimately show ?thesis by auto
qed

lemma nth_concat_replicate: "k < n * length w \<Longrightarrow> concat (replicate n w) ! k = w ! (k mod length w)"
proof (induction n arbitrary: k)
  case (Suc n)
  then show ?case by (cases "k < length w") (auto simp: nth_append le_mod_geq)
qed simp

lemma periodic_replicate: "1 \<le> length w \<Longrightarrow> length w \<le> WINDOW \<Longrightarrow> periodic (length w) (concat (replicate n w))"
proof -
  assume "1 \<le> length w" "length w \<le> WINDOW"
  moreover have "length (concat (replicate n w)) = n * length w" by (simp add: length_concat sum_list_replicate)
  ultimately show ?thesis by (auto simp: periodic_def nth_concat_replicate)
qed

section \<open>The tests\<close>

lemma decompress_ok: "length src < 2 ^ 32 \<Longrightarrow> \<exists>z. compress src = Inr z \<and> decompress z = Inr src"
  using lz.enc_total [of src] lz.dec_enc [of src _ "[]"] by auto

lemma lzss_case_ok:
  assumes "length src < 2 ^ 32"
  shows "\<exists>cs'. lzss_case (i, src) cs = Inr (cs @ cs') \<and> list_all snd cs'"
proof -
  obtain body where z: "compress src = Inr (le_bytes 4 LZSS_MAGIC @ le_bytes 4 (length src) @ body)"
    using compress_container [OF assms] by metis
  moreover have "unpack_le 4 (le_bytes 4 LZSS_MAGIC @ le_bytes 4 (length src) @ body) 0 = Inr 0x51495A4C"
    by (simp add: unpack_le_def bslice_def LZSS_MAGIC_def)
  moreover have "decompress (le_bytes 4 LZSS_MAGIC @ le_bytes 4 (length src) @ body) = Inr src"
    using decompress_ok [OF assms] z by auto
  ultimately show ?thesis by (simp add: lzss_case_def)
qed

lemma lzss_cases_ok:
  "\<forall>x \<in> set xs. length (snd x) < 2 ^ 32 \<Longrightarrow> \<exists>cs'. foldE lzss_case xs cs = Inr (cs @ cs') \<and> list_all snd cs'"
proof (induction xs arbitrary: cs)
  case (Cons x xs)
  obtain c1 where 1: "lzss_case x cs = Inr (cs @ c1)" "list_all snd c1"
    using lzss_case_ok [of "snd x" "fst x" cs] Cons.prems by auto
  obtain c2 where "foldE lzss_case xs (cs @ c1) = Inr ((cs @ c1) @ c2)" "list_all snd c2"
    using Cons.IH [of "cs @ c1"] Cons.prems by auto
  with 1 show ?case by (intro exI [of _ "c1 @ c2"]) simp
qed simp

lemma test_lzss_ok: "\<exists>cs. test_lzss draw = Inr cs \<and> list_all snd cs"
proof -
  let ?cases = "lzss_cases draw"
  have "length (concat (replicate 4000 (ascii_bytes ''qizo''))) = 16000"
    by (simp add: length_concat sum_list_replicate ascii_bytes_def)
  then have "\<forall>src \<in> set ?cases. length src < 2 ^ 32"
    by (auto simp: lzss_cases_def ascii_bytes_def drawn_def Let_def simp del: upt_Suc upt_rec_numeral)
  then have "\<forall>x \<in> set (zip [0..<length ?cases] ?cases). length (snd x) < 2 ^ 32" by (auto dest: set_zip_rightD)
  then obtain cs where cs: "foldE lzss_case (zip [0..<length ?cases] ?cases) [] = Inr cs" "list_all snd cs"
    using lzss_cases_ok [of _ "[]"] by fastforce
  have w: "length (drawn draw 7 20000) = 20000" by (simp add: drawn_def del: upt_Suc upt_rec_numeral)
  obtain body where "compress (drawn draw 7 20000) = Inr (le_bytes 4 LZSS_MAGIC @ le_bytes 4 20000 @ body)" "length body \<le> 22500"
    using compress_container [of "drawn draw 7 20000"] unfolding w by (simp del: le_bytes.simps) metis
  with cs w show ?thesis by (simp add: test_lzss_def Let_def del: le_bytes.simps)
qed

lemma test_match_window_ok: "\<exists>cs. test_match_window = Inr cs \<and> list_all snd cs"
proof -
  let ?src = "concat (replicate 5000 (ascii_bytes ''qizo''))"
  have l: "length ?src = 20000" by (simp add: length_concat sum_list_replicate ascii_bytes_def)
  have w: "length (ascii_bytes ''qizo'') = 4" by (simp add: ascii_bytes_def)
  have "periodic 4 ?src" using periodic_replicate [of "ascii_bytes ''qizo''"] by (simp add: w WINDOW_def)
  then obtain z where "compress ?src = Inr z" "4 * length z \<le> 20276"
    using compress_periodic [of 4 ?src] unfolding l by auto
  then show ?thesis using l by (simp add: test_match_window_def Let_def)
qed

lemma test_checksum_ok: "list_all snd (test_checksum draw)"
  by (simp add: test_checksum_def Let_def list_all_iff checksum_hand del: upt_Suc upt_rec_numeral) (simp add: hand_adler_def)

lemma test_font_ok: "\<exists>cs. test_font = Inr cs \<and> list_all snd cs"
proof -
  have "bitmap 65 = Inr [0x70, 0x88, 0x88, 0x88, 0xF8, 0x88, 0x88]" "bitmap 32 = Inr [0, 0, 0, 0, 0, 0, 0]"
    by (simp_all add: bitmap_ok glyph_def GLYPHS_def row_val_def bit_nat_def upt_rec)
  then show ?thesis by (simp add: test_font_def H_def eval_nat_numeral)
qed

lemma layout_tests: "list_all snd test_layout" "list_all snd test_boot_tables"
  by (simp_all add: test_layout_def test_boot_tables_def layout_defs BI_ascending)

section \<open>Properties\<close>

lemma qizotest_spec:
  "\<exists>fails status. qizotest draw texts = Inr (fails, status) \<and> (status = 0 \<longleftrightarrow> fails = []) \<and>
     (status = 0 \<longleftrightarrow>
        set (findall section_use 0 True (stage1_S texts)) \<subseteq> set (findall section_place 0 True (stage1_ld texts)) \<and>
        set (findall section_use 0 True (stage2_S texts)) \<subseteq> set (findall section_place 0 True (stage2_ld texts)) \<and>
        str_find ''qizo_paging_setup'' (main_c texts) = None \<and>
        count_skip ''call qizo_paging_setup'' 0 (boot64_S texts) = 1)"
proof -
  obtain l m f where c: "test_lzss (\<lambda>k. draw (4 + k)) = Inr l" "test_match_window = Inr m" "test_font = Inr f"
    and ok: "list_all snd l" "list_all snd m" "list_all snd f"
    using test_lzss_ok [of "\<lambda>k. draw (4 + k)"] test_match_window_ok test_font_ok by blast
  let ?text = "[test_boot_section ''stage1'' (stage1_S texts) (stage1_ld texts), test_boot_section ''stage2'' (stage2_S texts) (stage2_ld texts)]"
  let ?once = "test_boot_once_routines (main_c texts) (boot64_S texts)"
  have nil: "filter (\<lambda>(name, cond). \<not> cond) cs = [] \<longleftrightarrow> list_all snd cs" for cs :: outcome
    by (auto simp: filter_empty_conv list_all_iff)
  let ?cs = "test_checksum draw @ l @ m @ test_layout @ ?text @ test_boot_tables @ ?once @ f"
  define F where "F = map fst (filter (\<lambda>(name, cond). \<not> cond) ?cs)"
  have "F = [] \<longleftrightarrow> list_all snd ?cs" unfolding F_def map_is_Nil_conv by (rule nil)
  also have "\<dots> \<longleftrightarrow> list_all snd (?text @ ?once)"
    using ok test_checksum_ok [of draw] layout_tests by simp
  finally have F: "F = [] \<longleftrightarrow> list_all snd (?text @ ?once)" .
  have "qizotest draw texts = Inr (F, if F \<noteq> [] then 1 else 0)"
    unfolding qizotest_def all_checks_def c bindE_simps Let_def F_def ..
  then show ?thesis using F by (auto simp: test_boot_section_def test_boot_once_routines_def Let_def)
qed

text \<open>C18: whatever the generators draw, the unit tests never stop with an exception, and the driver exits with 0 exactly when
  the linker scripts place every section the boot sources use, the kernel's \<open>main\<close> does not name the paging setup and the
  entry code calls it once: the checksum, codec, layout and font tests always pass.\<close>

theorem qizotest_exact:
  "\<exists>fails status. qizotest draw texts = Inr (fails, status) \<and> (status = 0 \<longleftrightarrow> fails = []) \<and>
     (status = 0 \<longleftrightarrow>
        set (findall section_use 0 True (stage1_S texts)) \<subseteq> set (findall section_place 0 True (stage1_ld texts)) \<and>
        set (findall section_use 0 True (stage2_S texts)) \<subseteq> set (findall section_place 0 True (stage2_ld texts)) \<and>
        str_find ''qizo_paging_setup'' (main_c texts) = None \<and>
        count_skip ''call qizo_paging_setup'' 0 (boot64_S texts) = 1)"
  by (rule qizotest_spec)

text \<open>C11: an input that repeats itself with a period \<open>p\<close> of at most the window size is compressed to a quarter of its length plus
  a constant for the first period and the ends of the stream.\<close>

theorem compress_repetitive:
  assumes "1 \<le> p" "p \<le> WINDOW" "\<And>k. k + p < length src \<Longrightarrow> src ! (k + p) = src ! k" "length src < 2 ^ 32"
  shows "\<exists>z. compress src = Inr z \<and> 4 * length z \<le> length src + 9 * p + 240"
  using compress_periodic [of p src] assms by (simp add: periodic_def)

theorem compress_repetitive_witness: "\<exists>z. compress (zeros 1000) = Inr z \<and> length z \<le> 312"
  using compress_repetitive [of 1 "zeros 1000"] by (auto simp: WINDOW_def zeros_def)

end
