(* ===== verification/Qizo_Sources.thy ===== *)
theory Qizo_Sources
  imports Qizo_Layout
begin

text \<open>
  The assembly, linker and C sources the tools open and search, line by line as they stand in the repository:
  \<^verbatim>\<open>boot/stage1.S\<close>, \<^verbatim>\<open>boot/stage1.ld\<close>, \<^verbatim>\<open>boot/stage2.S\<close>, \<^verbatim>\<open>boot/stage2.ld\<close>, \<^verbatim>\<open>kernel/main.c\<close>, \<^verbatim>\<open>kernel/boot64.S\<close>
  and \<^verbatim>\<open>kernel/idt.S\<close>. They are data: nothing is said of what the programs do, only what the tools find in their text.
\<close>

definition tab_c :: string where "tab_c = [CHR 0x09]"
definition dquote :: string where "dquote = [CHR 0x22]"
definition bslash :: string where "bslash = [CHR 0x5C]"
definition squote :: string where "squote = [CHR 0x27]"

text \<open>The text of a file whose lines all end in a newline.\<close>

definition file_text :: "string list \<Rightarrow> string" where
  "file_text ls = concat (map (\<lambda>l. l @ nl) ls)"

definition stage1_lines_1 :: "string list" where
  "stage1_lines_1 = [
   ''.section .qizo_boot,'' @ dquote @ ''ax'' @ dquote,
   ''.code16'',
   [],
   ''.include '' @ dquote @ ''qizoboot.inc'' @ dquote,
   [],
   ''.global _start'',
   ''_start:'',
   tab_c @ ''cli'',
   tab_c @ ''cld'',
   ''.if QIZO_BOOT_TRACE'',
   tab_c @ ''call qizo_com1_init'',
   tab_c @ ''movb $0x31, %al'',
   tab_c @ ''movw $0x3F8, %dx'',
   tab_c @ ''outb %al, %dx'',
   tab_c @ ''movb $0x3A, %al'',
   tab_c @ ''outb %al, %dx'',
   ''.endif'',
   tab_c @ ''xorw %ax, %ax'',
   tab_c @ ''movw %ax, %ds'',
   tab_c @ ''movw %ax, %es'',
   tab_c @ ''movw %ax, %ss'',
   tab_c @ ''movw $0x7A00, %sp'',
   tab_c @ ''movb %dl, QIZO_ARG_ADDR + QIZO_ARG_DRIVE'',
   tab_c @ ''movb %dl, QIZO_ARG_ADDR + QIZO_ARG_BOOTDRIVE'',
   tab_c @ ''movb $0, QIZO_ARG_ADDR + QIZO_ARG_ERR'',
   tab_c @ ''movb'' @ tab_c @ ''$0x10, QIZO_DAP_ADDR'',
   tab_c @ ''movb'' @ tab_c @ ''$0, QIZO_DAP_ADDR + 1'',
   tab_c @ ''cmpb $0x80, %dl'',
   tab_c @ ''jae drive_ok'',
   tab_c @ ''cmpb $0xE0, %dl'',
   tab_c @ ''jae drive_ok'',
   tab_c @ ''movb $0x80, %dl'',
   tab_c @ ''movb %dl, QIZO_ARG_ADDR + QIZO_ARG_DRIVE'',
   ''drive_ok:'',
   tab_c @ ''xorw %di, %di'',
   tab_c @ ''movb $0, QIZO_ARG_ADDR + QIZO_ARG_TRY'',
   tab_c @ ''movw $qizo_cand, %si'',
   ''drive_try:'',
   tab_c @ ''movw $0x55AA, %bx'',
   tab_c @ ''movb $0x41, %ah'',
   tab_c @ ''int $0x13'',
   tab_c @ ''jnc drive_check'',
   tab_c @ ''jmp drive_next'',
   ''drive_check:'',
   tab_c @ ''cmpb $0x30, %ah'',
   tab_c @ ''jne drive_next'',
   tab_c @ ''testb $2, %cl'',
   tab_c @ ''jnz drive_got'',
   ''drive_next:'',
   tab_c @ ''incb QIZO_ARG_ADDR + QIZO_ARG_TRY'',
   tab_c @ ''cmpb $4, QIZO_ARG_ADDR + QIZO_ARG_TRY'',
   tab_c @ ''jae drive_none'',
   tab_c @ ''lodsb'',
   tab_c @ ''movb %al, QIZO_ARG_ADDR + QIZO_ARG_DRIVE'',
   tab_c @ ''movb %al, %dl'',
   tab_c @ ''jmp drive_try'',
   ''drive_none:'',
   tab_c @ ''movb QIZO_ARG_ADDR + QIZO_ARG_BOOTDRIVE, %dl'',
   tab_c @ ''movb %dl, QIZO_ARG_ADDR + QIZO_ARG_DRIVE'',
   ''drive_got:'',
   tab_c @ ''movb QIZO_ARG_ADDR + QIZO_ARG_DRIVE, %dl'',
   tab_c @ ''movw $0x55AA, %bx'',
   tab_c @ ''movb $0x41, %ah'',
   tab_c @ ''int $0x13'',
   ''.if QIZO_BOOT_TRACE'',
   tab_c @ ''pushw %ax'',
   tab_c @ ''pushw %cx'',
   tab_c @ ''movb $0x58, %al'',
   tab_c @ ''call qizo_tty'',
   tab_c @ ''movb %ah, %al'',
   tab_c @ ''call qizo_tty_byte'',
   tab_c @ ''movb %cl, %al'',
   tab_c @ ''call qizo_tty_byte'',
   tab_c @ ''movb QIZO_ARG_ADDR + QIZO_ARG_DRIVE, %al'',
   tab_c @ ''call qizo_tty_byte'',
   tab_c @ ''popw %cx'',
   tab_c @ ''popw %ax'',
   ''.endif'',
   tab_c @ ''movw $QIZO_DAP_ADDR, %bx'',
   tab_c @ ''movw $QIZO_DAP_ADDR, %si'',
   [],
   ''read_chunk:'',
   tab_c @ ''movw QIZO_ARG_ADDR + QIZO_ARG_TOTAL, %ax'',
   tab_c @ ''subw %di, %ax'',
   tab_c @ ''jbe go_stage2'',
   tab_c @ ''cmpw $64, %ax'',
   tab_c @ ''jbe chunk_set'',
   tab_c @ ''movw $64, %ax'',
   [],
   ''chunk_set:'',
   tab_c @ ''movw'' @ tab_c @ ''%ax, QIZO_DAP_ADDR + 2'',
   tab_c @ ''movl'' @ tab_c @ ''%edi, %eax'',
   tab_c @ ''shll'' @ tab_c @ ''$9, %eax'',
   tab_c @ ''movl'' @ tab_c @ ''$QIZO_STAGE2_SEG, %edx'',
   tab_c @ ''shll'' @ tab_c @ ''$4, %edx'',
   tab_c @ ''addl'' @ tab_c @ ''%edx, %eax'',
   tab_c @ ''movl'' @ tab_c @ ''%eax, %ecx'',
   tab_c @ ''shrl'' @ tab_c @ ''$4, %eax'',
   tab_c @ ''movw'' @ tab_c @ ''%ax, QIZO_DAP_ADDR + 6'',
   tab_c @ ''andl'' @ tab_c @ ''$0x000F, %ecx'',
   tab_c @ ''movw'' @ tab_c @ ''%cx, QIZO_DAP_ADDR + 4'',
   tab_c @ ''movl'' @ tab_c @ ''QIZO_ARG_ADDR + QIZO_ARG_LBA, %eax'',
   tab_c @ ''addl'' @ tab_c @ ''%edi, %eax'',
   tab_c @ ''movl'' @ tab_c @ ''%eax, QIZO_DAP_ADDR + 8'',
   tab_c @ ''movl'' @ tab_c @ ''$0, QIZO_DAP_ADDR + 12'',
   tab_c @ ''movb'' @ tab_c @ ''$0x42, %ah'',
   tab_c @ ''movb'' @ tab_c @ ''QIZO_ARG_ADDR + QIZO_ARG_DRIVE, %dl'',
   tab_c @ ''int'' @ tab_c @ ''$0x13'',
   tab_c @ ''jnc read_ok'',
   tab_c @ ''movb %ah, QIZO_ARG_ADDR + QIZO_ARG_ERR'',
   tab_c @ ''jmp boot_fail'',
   [],
   ''read_ok:'']"

definition stage1_lines_2 :: "string list" where
  "stage1_lines_2 = [
   ''.if QIZO_BOOT_TRACE'',
   tab_c @ ''movb $0x52, %al'',
   tab_c @ ''movw $0x3F8, %dx'',
   tab_c @ ''outb %al, %dx'',
   ''.endif'',
   tab_c @ ''movw QIZO_DAP_ADDR + 2, %ax'',
   tab_c @ ''addw %ax, %di'',
   tab_c @ ''jmp read_chunk'',
   [],
   ''go_stage2:'',
   ''.if QIZO_BOOT_TRACE'',
   tab_c @ ''movb $0x4A, %al'',
   tab_c @ ''movw $0x3F8, %dx'',
   tab_c @ ''outb %al, %dx'',
   ''.endif'',
   tab_c @ ''ljmp $QIZO_STAGE2_SEG, $0'',
   [],
   ''boot_fail:'',
   ''.if QIZO_BOOT_TRACE'',
   tab_c @ ''movb $0x45, %al'',
   tab_c @ ''call qizo_tty'',
   tab_c @ ''movb QIZO_ARG_ADDR + QIZO_ARG_ERR, %al'',
   tab_c @ ''call qizo_tty_byte'',
   tab_c @ ''movb QIZO_ARG_ADDR + QIZO_ARG_DRIVE, %al'',
   tab_c @ ''call qizo_tty_byte'',
   ''.endif'',
   tab_c @ ''movw $qizo_fail_msg, %si'',
   tab_c @ ''xorw %bx, %bx'',
   tab_c @ ''jmp print'',
   [],
   ''print:'',
   tab_c @ ''lodsb'',
   tab_c @ ''testb %al, %al'',
   tab_c @ ''jz halt'',
   tab_c @ ''movb $0x0E, %ah'',
   tab_c @ ''xorw %bx, %bx'',
   tab_c @ ''movb %al, %dl'',
   tab_c @ ''int $0x10'',
   tab_c @ ''jmp print'',
   [],
   ''halt:'',
   tab_c @ ''hlt'',
   tab_c @ ''jmp halt'',
   [],
   ''qizo_tty:'',
   tab_c @ ''movw $0x3F8, %dx'',
   tab_c @ ''outb %al, %dx'',
   tab_c @ ''ret'',
   [],
   ''qizo_tty_byte:'',
   tab_c @ ''movb %al, %ah'',
   tab_c @ ''shrb $4, %al'',
   tab_c @ ''call qizo_tty_nibble'',
   tab_c @ ''movb %ah, %al'',
   tab_c @ ''andb $0x0F, %al'',
   tab_c @ ''call qizo_tty_nibble'',
   tab_c @ ''ret'',
   [],
   ''qizo_tty_nibble:'',
   tab_c @ ''cmpb $9, %al'',
   tab_c @ ''jbe tty_dec'',
   tab_c @ ''addb $0x37, %al'',
   tab_c @ ''jmp tty_out'',
   ''tty_dec:'',
   tab_c @ ''addb $0x30, %al'',
   ''tty_out:'',
   tab_c @ ''call qizo_tty'',
   tab_c @ ''ret'',
   [],
   ''qizo_fail_msg:'',
   tab_c @ ''.asciz '' @ dquote @ ''QIZO STAGE1 DISK ERR'' @ dquote,
   [],
   ''qizo_cand:'',
   tab_c @ ''.byte 0x80, 0xE8, 0xF0, 0xF8'',
   [],
   ''.if QIZO_BOOT_TRACE'',
   ''qizo_com1_init:'',
   tab_c @ ''movw $0x3FB, %dx'',
   tab_c @ ''movb $0x83, %al'',
   tab_c @ ''outb %al, %dx'',
   tab_c @ ''movw $0x3F8, %dx'',
   tab_c @ ''movb $0x01, %al'',
   tab_c @ ''outb %al, %dx'',
   tab_c @ ''movw $0x3F9, %dx'',
   tab_c @ ''movb $0x00, %al'',
   tab_c @ ''outb %al, %dx'',
   tab_c @ ''movw $0x3FB, %dx'',
   tab_c @ ''movb $0x03, %al'',
   tab_c @ ''outb %al, %dx'',
   tab_c @ ''movw $0x3F2, %dx'',
   tab_c @ ''movb $0xC7, %al'',
   tab_c @ ''outb %al, %dx'',
   tab_c @ ''movw $0x3FD, %dx'',
   tab_c @ ''movb $0x0B, %al'',
   tab_c @ ''outb %al, %dx'',
   tab_c @ ''ret'',
   ''.endif'',
   [],
   ''.fill 464 - (. - _start), 1, 0'',
   [],
   ''.section .qizo_data,'' @ dquote @ ''aw'' @ dquote,
   ''.balign 16'',
   ''qizo_args:'',
   tab_c @ ''.byte 0'',
   tab_c @ ''.byte 0, 0, 0'',
   tab_c @ ''.long 0'',
   tab_c @ ''.word 0'',
   tab_c @ ''.word 0'',
   tab_c @ ''.long 0'',
   tab_c @ ''.byte 0'',
   tab_c @ ''.byte 0, 0, 0'',
   tab_c @ ''.long 0'',
   tab_c @ ''.long 0'']"

definition stage1_lines :: "string list" where
  "stage1_lines = stage1_lines_1 @ stage1_lines_2"

definition stage1_ld_lines :: "string list" where
  "stage1_ld_lines = [
   ''ENTRY(_start)'',
   ''SECTIONS'',
   ''{'',
   tab_c @ ''. = 0x7C00;'',
   tab_c @ ''__qizo_base = .;'',
   tab_c @ ''.qizo_boot : { *(.qizo_boot) }'',
   tab_c @ ''__qizo_boot_size = . - __qizo_base;'',
   tab_c @ ''.qizo_data : { *(.qizo_data) }'',
   tab_c @ ''__qizo_data_end = . - __qizo_base;'',
   tab_c @ ''. = 0x7C00 + 510;'',
   tab_c @ ''.qizo_sig : { SHORT(0xAA55) }'',
   tab_c @ ''__qizo_total = . - __qizo_base;'',
   tab_c @ ''/DISCARD/ : { *(.note.GNU-stack) *(.comment) *(.eh_frame) }'',
   ''}'']"

definition stage2_lines_1 :: "string list" where
  "stage2_lines_1 = [
   ''.section .qizo_boot,'' @ dquote @ ''ax'' @ dquote,
   ''.code16'',
   [],
   ''.include '' @ dquote @ ''qizoboot.inc'' @ dquote,
   [],
   ''.global _start'',
   ''_start:'',
   tab_c @ ''cli'',
   tab_c @ ''cld'',
   tab_c @ ''xorw %ax, %ax'',
   tab_c @ ''movw %ax, %ds'',
   tab_c @ ''movw %ax, %es'',
   tab_c @ ''movw %ax, %ss'',
   tab_c @ ''movw $0x8FF0, %sp'',
   ''.if QIZO_BOOT_TRACE'',
   tab_c @ ''call qizo_com1_init'',
   tab_c @ ''movb $0x32, %al'',
   tab_c @ ''call qizo_trace_putc'',
   tab_c @ ''movb $0x3A, %al'',
   tab_c @ ''call qizo_trace_putc'',
   ''.endif'',
   [],
   tab_c @ ''movl $QIZO_BOOTINFO_SEG, %eax'',
   tab_c @ ''movw %ax, %es'',
   tab_c @ ''movl $0x00010001, %es:QIZO_BI_MAGIC'',
   tab_c @ ''movb QIZO_BIOS_ARG + QIZO_ARG_DRIVE, %al'',
   tab_c @ ''movb %al, %es:QIZO_BI_DRIVE'',
   tab_c @ ''movb $1, %es:QIZO_BI_MODE'',
   tab_c @ ''movl QIZO_BIOS_ARG + QIZO_ARG_LBA, %eax'',
   tab_c @ ''movl %eax, %es:QIZO_BI_BLOB_LBA'',
   tab_c @ ''movzwl QIZO_BIOS_ARG + QIZO_ARG_TOTAL, %eax'',
   tab_c @ ''movw %ax, %es:QIZO_BI_BLOB_SECTORS'',
   tab_c @ ''shll $9, %eax'',
   tab_c @ ''subl $(QIZO_BLOB_PHYS - QIZO_STAGE2), %eax'',
   tab_c @ ''movl %eax, %es:QIZO_BI_BLOB_SIZE'',
   tab_c @ ''movl $QIZO_BLOB_PHYS, %eax'',
   tab_c @ ''movl %eax, %es:QIZO_BI_BLOB_PHYS'',
   tab_c @ ''movl QIZO_BIOS_ARG + QIZO_ARG_CRC, %eax'',
   tab_c @ ''movl %eax, %es:QIZO_BI_BLOB_CRC'',
   tab_c @ ''movl $QIZO_SCRATCH, %eax'',
   tab_c @ ''movl %eax, %es:QIZO_BI_SCRATCH'',
   tab_c @ ''movl $QIZO_KTEXT, %eax'',
   tab_c @ ''movl %eax, %es:QIZO_BI_KTEXT'',
   tab_c @ ''movl $QIZO_BOOTVER, %eax'',
   tab_c @ ''movl %eax, %es:QIZO_BI_FLAGS'',
   tab_c @ ''movb $0, %es:QIZO_BI_ERR'',
   [],
   tab_c @ ''movb %ds:0x1FF0, %cl'',
   tab_c @ ''movb %es:0x1FF0, %ch'',
   tab_c @ ''movb $0x55, %al'',
   tab_c @ ''movb %al, %es:0x1FF0'',
   tab_c @ ''notb %al'',
   tab_c @ ''movb %al, %ds:0x1FF0'',
   tab_c @ ''cmpb %al, %es:0x1FF0'',
   tab_c @ ''jne a20_on'',
   tab_c @ ''inb $0x92, %al'',
   tab_c @ ''orb $2, %al'',
   tab_c @ ''outb %al, $0x92'',
   tab_c @ ''inb $0xE8, %al'',
   tab_c @ ''inb $0x92, %al'',
   tab_c @ ''movb $0xAA, %al'',
   tab_c @ ''movb %al, %ds:0x1FF0'',
   tab_c @ ''cmpb %al, %es:0x1FF0'',
   tab_c @ ''je a20_stuck'',
   ''a20_on:'',
   tab_c @ ''movb %ch, %es:0x1FF0'',
   tab_c @ ''movb %cl, %ds:0x1FF0'',
   tab_c @ ''movb $1, %es:QIZO_BI_A20'',
   ''.if QIZO_BOOT_TRACE'',
   tab_c @ ''movb $0x41, %al'',
   tab_c @ ''call qizo_trace_putc'',
   tab_c @ ''movb $0x31, %al'',
   tab_c @ ''call qizo_trace_putc'',
   ''.endif'',
   tab_c @ ''jmp a20_done'',
   [],
   ''a20_stuck:'',
   tab_c @ ''movb %ch, %es:0x1FF0'',
   tab_c @ ''movb %cl, %ds:0x1FF0'',
   tab_c @ ''movb $0, %es:QIZO_BI_A20'',
   ''.if QIZO_BOOT_TRACE'',
   tab_c @ ''movb $0x41, %al'',
   tab_c @ ''call qizo_trace_putc'',
   tab_c @ ''movb $0x30, %al'',
   tab_c @ ''call qizo_trace_putc'',
   ''.endif'',
   ''a20_done:'',
   tab_c @ ''pushfl'',
   tab_c @ ''popw %ax'',
   tab_c @ ''xorw $0x200, %ax'',
   tab_c @ ''pushw %ax'',
   tab_c @ ''popfl'',
   tab_c @ ''pushfl'',
   tab_c @ ''popw %ax'',
   tab_c @ ''testw $0x200, %ax'',
   tab_c @ ''je fail_noflags'',
   tab_c @ ''cli'',
   tab_c @ ''xorl %eax, %eax'',
   tab_c @ ''cpuid'',
   tab_c @ ''movl %eax, %es:QIZO_BI_CPUID_MAX'',
   tab_c @ ''movl $0x80000001, %eax'',
   tab_c @ ''cpuid'',
   tab_c @ ''testl $0x20000000, %edx'',
   tab_c @ ''je fail_nocpu'',
   tab_c @ ''movb $1, %es:QIZO_BI_LONGMODE'',
   tab_c @ ''jmp e820_start'',
   [],
   ''fail_nocpu:'',
   tab_c @ ''movb $0x12, %es:QIZO_BI_ERR'']"

definition stage2_lines_2 :: "string list" where
  "stage2_lines_2 = [
   tab_c @ ''jmp qizo_fail16'',
   [],
   ''fail_noflags:'',
   tab_c @ ''movb $0x13, %es:QIZO_BI_ERR'',
   tab_c @ ''jmp qizo_fail16'',
   [],
   ''e820_start:'',
   tab_c @ ''movw $QIZO_E820_SEG, %ax'',
   tab_c @ ''movw %ax, %ds'',
   tab_c @ ''movw %ax, %es'',
   tab_c @ ''xorw %di, %di'',
   tab_c @ ''xorl %ebp, %ebp'',
   tab_c @ ''xorl %ebx, %ebx'',
   tab_c @ ''movw $QIZO_E820_CNT_OFS, %si'',
   tab_c @ ''movl $0, (%si)'',
   [],
   ''e820_next:'',
   tab_c @ ''cmpl $QIZO_E820_MAX, %ebp'',
   tab_c @ ''jae e820_done'',
   tab_c @ ''movl $QIZO_E820_ENT, %ecx'',
   tab_c @ ''movl $0xE820, %eax'',
   tab_c @ ''movl $0x534D4150, %edx'',
   tab_c @ ''int $0x15'',
   tab_c @ ''jc e820_check'',
   tab_c @ ''cmpl $0x534D4150, %eax'',
   tab_c @ ''jne e820_check'',
   tab_c @ ''cmpl $20, %ecx'',
   tab_c @ ''jb e820_check'',
   tab_c @ ''addw $QIZO_E820_ENT, %di'',
   tab_c @ ''incw %bp'',
   tab_c @ ''incl (%si)'',
   tab_c @ ''testl %ebx, %ebx'',
   tab_c @ ''jne e820_next'',
   [],
   ''e820_check:'',
   tab_c @ ''testl %ebp, %ebp'',
   tab_c @ ''jne e820_done'',
   tab_c @ ''movw $QIZO_BOOTINFO_SEG, %ax'',
   tab_c @ ''movw %ax, %es'',
   tab_c @ ''movb $0x14, %es:QIZO_BI_ERR'',
   tab_c @ ''jmp qizo_fail16'',
   [],
   ''e820_done:'',
   tab_c @ ''movw $QIZO_BOOTINFO_SEG, %ax'',
   tab_c @ ''movw %ax, %es'',
   tab_c @ ''movw $QIZO_E820_CNT_OFS, %si'',
   tab_c @ ''movl (%si), %eax'',
   tab_c @ ''movl %eax, %es:QIZO_BI_E820_N'',
   tab_c @ ''movw $QIZO_STAGE2_SEG, %ax'',
   tab_c @ ''movw %ax, %ds'',
   tab_c @ ''movw $(qizo_gdtr - _start), %bx'',
   tab_c @ ''lgdt (%bx)'',
   ''.if QIZO_BOOT_TRACE'',
   tab_c @ ''movb $0x61, %al'',
   tab_c @ ''call qizo_trace_putc'',
   ''.endif'',
   tab_c @ ''movl $0x630, %eax'',
   tab_c @ ''movl %eax, %cr4'',
   tab_c @ ''movl %cr0, %eax'',
   tab_c @ ''andl $0x9FFFFFFF, %eax'',
   tab_c @ ''orl $1, %eax'',
   tab_c @ ''movl %eax, %cr0'',
   ''.if QIZO_BOOT_TRACE'',
   tab_c @ ''pushw %ax'',
   tab_c @ ''movb $0x50, %al'',
   tab_c @ ''call qizo_trace_putc'',
   tab_c @ ''popw %ax'',
   ''.endif'',
   tab_c @ ''ljmpl $0x18, $(qizo_pm16 - QIZO_STAGE2)'',
   [],
   ''qizo_pm16:'',
   tab_c @ ''movb $0x6D, %al'',
   tab_c @ ''call qizo_trace_putc'',
   tab_c @ ''movw $0x10, %ax'',
   tab_c @ ''movw %ax, %ds'',
   tab_c @ ''movw %ax, %es'',
   tab_c @ ''movw %ax, %ss'',
   tab_c @ ''movl $QIZO_PM_STACK, %esp'',
   tab_c @ ''ljmpl $0x08, $qizo_pm32'',
   [],
   ''print16:'',
   tab_c @ ''lodsb'',
   tab_c @ ''testb %al, %al'',
   tab_c @ ''jz halt16'',
   tab_c @ ''movb $0x0E, %ah'',
   tab_c @ ''xorw %bx, %bx'',
   tab_c @ ''movb %al, %dl'',
   tab_c @ ''int $0x10'',
   tab_c @ ''jmp print16'',
   [],
   ''halt16:'',
   tab_c @ ''hlt'',
   tab_c @ ''jmp halt16'',
   [],
   ''.global qizo_fail16'',
   ''qizo_fail16:'',
   ''.if QIZO_BOOT_TRACE'',
   tab_c @ ''pushw %ax'',
   tab_c @ ''pushw %ds'',
   tab_c @ ''movw $QIZO_BOOTINFO_SEG, %ax'',
   tab_c @ ''movw %ax, %ds'',
   tab_c @ ''movb QIZO_BI_ERR, %al'',
   tab_c @ ''call qizo_trace_hex8'',
   tab_c @ ''popw %ds'',
   tab_c @ ''popw %ax'',
   ''.endif'',
   tab_c @ ''movw %cs, %ax'',
   tab_c @ ''movw %ax, %ds'',
   tab_c @ ''movw $(qizo_msg - _start), %si'']"

definition stage2_lines_3 :: "string list" where
  "stage2_lines_3 = [
   tab_c @ ''xorw %bx, %bx'',
   tab_c @ ''jmp print16'',
   [],
   ''qizo_gdt:'',
   tab_c @ ''.byte 0x00, 0x00, 0x00, 0x00, 0x00, 0x00, 0x00, 0x00'',
   tab_c @ ''.byte 0xff, 0xff, 0x00, 0x00, 0x00, 0x9a, 0xcf, 0x00'',
   tab_c @ ''.byte 0xff, 0xff, 0x00, 0x00, 0x00, 0x92, 0xcf, 0x00'',
   tab_c @ ''.byte 0xff, 0xff, 0x00, 0x00, 0x02, 0x9a, 0x0f, 0x00'',
   tab_c @ ''.byte 0xff, 0xff, 0x00, 0x00, 0x00, 0x92, 0xcf, 0x00'',
   tab_c @ ''.byte 0xff, 0xff, 0x00, 0x00, 0x00, 0x9a, 0xaf, 0x00'',
   tab_c @ ''.byte 0xff, 0xff, 0x00, 0x00, 0x00, 0x92, 0xcf, 0x00'',
   [],
   ''qizo_gdtr:'',
   tab_c @ ''.word 55'',
   tab_c @ ''.long QIZO_STAGE2 + (qizo_gdt - _start)'',
   [],
   [],
   ''.if QIZO_BOOT_TRACE'',
   ''qizo_com1_init:'',
   tab_c @ ''pushw %ax'',
   tab_c @ ''pushw %dx'',
   tab_c @ ''movb $0x00, %al'',
   tab_c @ ''movw $0x3F9, %dx'',
   tab_c @ ''outb %al, %dx'',
   tab_c @ ''movb $0x80, %al'',
   tab_c @ ''movw $0x3FB, %dx'',
   tab_c @ ''outb %al, %dx'',
   tab_c @ ''movb $0x01, %al'',
   tab_c @ ''movw $0x3F8, %dx'',
   tab_c @ ''outb %al, %dx'',
   tab_c @ ''movb $0x00, %al'',
   tab_c @ ''movw $0x3F9, %dx'',
   tab_c @ ''outb %al, %dx'',
   tab_c @ ''movb $0x03, %al'',
   tab_c @ ''movw $0x3FB, %dx'',
   tab_c @ ''outb %al, %dx'',
   tab_c @ ''movb $0xC7, %al'',
   tab_c @ ''movw $0x3F2, %dx'',
   tab_c @ ''outb %al, %dx'',
   tab_c @ ''movb $0x0B, %al'',
   tab_c @ ''movw $0x3FD, %dx'',
   tab_c @ ''outb %al, %dx'',
   tab_c @ ''popw %dx'',
   tab_c @ ''popw %ax'',
   tab_c @ ''ret'',
   [],
   ''qizo_trace_putc:'',
   tab_c @ ''pushw %ax'',
   tab_c @ ''pushw %cx'',
   tab_c @ ''pushw %dx'',
   tab_c @ ''movb %al, %ah'',
   tab_c @ ''movw $60000, %cx'',
   tab_c @ ''movw $0x3FD, %dx'',
   ''qizo_tr_wait:'',
   tab_c @ ''inb %dx, %al'',
   tab_c @ ''andb $0x20, %al'',
   tab_c @ ''jnz qizo_tr_send'',
   tab_c @ ''decw %cx'',
   tab_c @ ''jnz qizo_tr_wait'',
   tab_c @ ''jmp qizo_tr_done'',
   ''qizo_tr_send:'',
   tab_c @ ''movb %ah, %al'',
   tab_c @ ''movw $0x3F8, %dx'',
   tab_c @ ''outb %al, %dx'',
   ''qizo_tr_done:'',
   tab_c @ ''popw %dx'',
   tab_c @ ''popw %cx'',
   tab_c @ ''popw %ax'',
   tab_c @ ''ret'',
   [],
   ''qizo_trace_hexnib:'',
   tab_c @ ''andb $0x0F, %al'',
   tab_c @ ''cmpb $10, %al'',
   tab_c @ ''jb qizo_tr_dec'',
   tab_c @ ''addb $0x37, %al'',
   tab_c @ ''jmp qizo_tr_emit'',
   ''qizo_tr_dec:'',
   tab_c @ ''addb $0x30, %al'',
   ''qizo_tr_emit:'',
   tab_c @ ''call qizo_trace_putc'',
   tab_c @ ''ret'',
   [],
   ''qizo_trace_hex8:'',
   tab_c @ ''pushw %bx'',
   tab_c @ ''movb %al, %bl'',
   tab_c @ ''movb $0x45, %al'',
   tab_c @ ''call qizo_trace_putc'',
   tab_c @ ''movb %bl, %al'',
   tab_c @ ''shrb $4, %al'',
   tab_c @ ''call qizo_trace_hexnib'',
   tab_c @ ''movb %bl, %al'',
   tab_c @ ''call qizo_trace_hexnib'',
   tab_c @ ''popw %bx'',
   tab_c @ ''ret'',
   ''.endif'',
   [],
   ''qizo_msg:'',
   tab_c @ ''.asciz '' @ dquote @ ''QIZO BOOT ERR '' @ dquote,
   [],
   ''.section .qizo_pm32,'' @ dquote @ ''ax'' @ dquote,
   ''.code32'',
   [],
   ''.global qizo_pm32'',
   ''qizo_pm32:'',
   ''.if QIZO_BOOT_TRACE'',
   tab_c @ ''movb $0x6D, %al'',
   tab_c @ ''movl $4000, %ecx'',
   tab_c @ ''movl $0x3FD, %edx'',
   ''30:'' @ tab_c @ ''inb %dx, %al'']"

definition stage2_lines_4 :: "string list" where
  "stage2_lines_4 = [
   tab_c @ ''andb $0x20, %al'',
   tab_c @ ''jnz 31f'',
   tab_c @ ''decl %ecx'',
   tab_c @ ''jnz 30b'',
   ''31:'' @ tab_c @ ''movb $0x6D, %al'',
   tab_c @ ''movl $0x3F8, %edx'',
   tab_c @ ''outb %al, %dx'',
   ''.endif'',
   tab_c @ ''movw $0x10, %ax'',
   tab_c @ ''movw %ax, %ds'',
   tab_c @ ''movw %ax, %es'',
   tab_c @ ''movw %ax, %ss'',
   tab_c @ ''movl $QIZO_PM_STACK, %esp'',
   ''.if QIZO_BOOT_TRACE'',
   tab_c @ ''movb $0x4D, %al'',
   tab_c @ ''movl $4000, %ecx'',
   tab_c @ ''movl $0x3FD, %edx'',
   ''1:'' @ tab_c @ ''inb %dx, %al'',
   tab_c @ ''andb $0x20, %al'',
   tab_c @ ''jnz 2f'',
   tab_c @ ''decl %ecx'',
   tab_c @ ''jnz 1b'',
   ''2:'' @ tab_c @ ''movb $0x4D, %al'',
   tab_c @ ''movl $0x3F8, %edx'',
   tab_c @ ''outb %al, %dx'',
   ''.endif'',
   [],
   tab_c @ ''movl QIZO_BOOTINFO + QIZO_BI_E820_N, %ecx'',
   tab_c @ ''cmpl $QIZO_E820_MAX, %ecx'',
   tab_c @ ''jbe e820_clamp'',
   tab_c @ ''movl $QIZO_E820_MAX, %ecx'',
   [],
   ''e820_clamp:'',
   tab_c @ ''movl %ecx, QIZO_BOOTINFO + QIZO_BI_E820_N'',
   tab_c @ ''shll $3, %ecx'',
   tab_c @ ''leal (%ecx,%ecx,2), %ecx'',
   tab_c @ ''movl $QIZO_E820_BUF, %esi'',
   tab_c @ ''movl $(QIZO_BOOTINFO + QIZO_BI_E820), %edi'',
   tab_c @ ''rep movsb'',
   [],
   tab_c @ ''movl $QIZO_BOOTINFO + QIZO_BI_E820, %esi'',
   tab_c @ ''xorl %edx, %edx'',
   tab_c @ ''movl QIZO_BOOTINFO + QIZO_BI_E820_N, %ecx'',
   [],
   ''ram_next:'',
   tab_c @ ''testl %ecx, %ecx'',
   tab_c @ ''je ram_done'',
   tab_c @ ''cmpl $1, 16(%esi)'',
   tab_c @ ''jne ram_skip'',
   tab_c @ ''movl 8(%esi), %eax'',
   tab_c @ ''orl 12(%esi), %eax'',
   tab_c @ ''jne ram_sat'',
   tab_c @ ''addl %eax, %edx'',
   tab_c @ ''jnc ram_skip'',
   [],
   ''ram_sat:'',
   tab_c @ ''movl $0xFFFFFFFF, %edx'',
   [],
   ''ram_skip:'',
   tab_c @ ''addl $QIZO_E820_ENT, %esi'',
   tab_c @ ''decl %ecx'',
   tab_c @ ''jne ram_next'',
   [],
   ''ram_done:'',
   tab_c @ ''movl %edx, QIZO_BOOTINFO + QIZO_BI_TOTAL_RAM'',
   [],
   tab_c @ ''movl QIZO_BOOTINFO + QIZO_BI_BLOB_PHYS, %esi'',
   tab_c @ ''movl QIZO_BOOTINFO + QIZO_BI_BLOB_SIZE, %ecx'',
   tab_c @ ''call qizo_adler'',
   tab_c @ ''movl QIZO_BOOTINFO + QIZO_BI_BLOB_PHYS, %esi'',
   tab_c @ ''movl QIZO_BOOTINFO + QIZO_BI_BLOB_SIZE, %ecx'',
   tab_c @ ''cmpl QIZO_BOOTINFO + QIZO_BI_BLOB_CRC, %eax'',
   tab_c @ ''jne fail_c1'',
   [],
   tab_c @ ''movl QIZO_BOOTINFO + QIZO_BI_BLOB_PHYS, %esi'',
   tab_c @ ''movl QIZO_BOOTINFO + QIZO_BI_BLOB_SIZE, %ecx'',
   tab_c @ ''movl QIZO_BOOTINFO + QIZO_BI_SCRATCH, %edi'',
   tab_c @ ''call qizo_decompress'',
   tab_c @ ''testl %eax, %eax'',
   tab_c @ ''je fail_c2'',
   [],
   tab_c @ ''movl QIZO_BOOTINFO + QIZO_BI_SCRATCH, %edi'',
   tab_c @ ''cmpl $QIZO_QIZOK_MAGIC, 0(%edi)'',
   tab_c @ ''jne fail_c3'',
   tab_c @ ''movl 4(%edi), %ecx'',
   tab_c @ ''cmpl $QIZO_KERNEL_MAX, %ecx'',
   tab_c @ ''ja fail_c4'',
   tab_c @ ''movl 12(%edi), %eax'',
   tab_c @ ''cmpl $QIZO_KERNEL_MAX, %eax'',
   tab_c @ ''ja fail_c5'',
   tab_c @ ''cmpl %ecx, %eax'',
   tab_c @ ''jb fail_c6'',
   tab_c @ ''movl 16(%edi), %eax'',
   tab_c @ ''cmpl $QIZO_KTEXT, %eax'',
   tab_c @ ''jne fail_c7'',
   tab_c @ ''movl 8(%edi), %edx'',
   tab_c @ ''cmpl %ecx, %edx'',
   tab_c @ ''jae fail32'',
   tab_c @ ''movl %ecx, QIZO_BOOTINFO + QIZO_BI_KERNEL_SIZE'',
   tab_c @ ''movl %edx, QIZO_BOOTINFO + QIZO_BI_KERNEL_ENTRY'',
   tab_c @ ''movl 12(%edi), %eax'',
   tab_c @ ''movl %eax, QIZO_BOOTINFO + QIZO_BI_KERNEL_TOTAL'',
   tab_c @ ''subl %ecx, %eax'',
   tab_c @ ''movl %eax, QIZO_BOOTINFO + QIZO_BI_KERNEL_BSS'',
   [],
   tab_c @ ''movl QIZO_BOOTINFO + QIZO_BI_SCRATCH, %esi'']"

definition stage2_lines_5 :: "string list" where
  "stage2_lines_5 = [
   tab_c @ ''addl $QIZO_QIZOK_HDR, %esi'',
   tab_c @ ''movl QIZO_BOOTINFO + QIZO_BI_KTEXT, %edi'',
   tab_c @ ''movl QIZO_BOOTINFO + QIZO_BI_KERNEL_SIZE, %ecx'',
   tab_c @ ''call qizo_copy'',
   [],
   tab_c @ ''movl QIZO_BOOTINFO + QIZO_BI_KTEXT, %edi'',
   tab_c @ ''addl QIZO_BOOTINFO + QIZO_BI_KERNEL_SIZE, %edi'',
   tab_c @ ''movl QIZO_BOOTINFO + QIZO_BI_KERNEL_BSS, %ecx'',
   tab_c @ ''call qizo_zero'',
   [],
   tab_c @ ''movl $qizo_fstub_table, %esi'',
   tab_c @ ''movl $QIZO_IDT_BOOT, %edi'',
   tab_c @ ''movl $32, %ecx'',
   [],
   ''fidt_fill:'',
   tab_c @ ''movl (%esi), %eax'',
   tab_c @ ''andl $0xFFFF, %eax'',
   tab_c @ ''orl $0x00280000, %eax'',
   tab_c @ ''movl %eax, (%edi)'',
   tab_c @ ''movl (%esi), %eax'',
   tab_c @ ''andl $0xFFFF0000, %eax'',
   tab_c @ ''orl $0x8E00, %eax'',
   tab_c @ ''movl %eax, 4(%edi)'',
   tab_c @ ''movl $0, 8(%edi)'',
   tab_c @ ''movl $0, 12(%edi)'',
   tab_c @ ''addl $4, %esi'',
   tab_c @ ''addl $16, %edi'',
   tab_c @ ''decl %ecx'',
   tab_c @ ''jne fidt_fill'',
   tab_c @ ''lidt qizo_fidt_ptr'',
   [],
   tab_c @ ''call qizo_build_pages'',
   tab_c @ ''movl $0x630, %eax'',
   tab_c @ ''movl %eax, %cr4'',
   tab_c @ ''movl $QIZO_PAGE_PML4, %eax'',
   tab_c @ ''movl %eax, %cr3'',
   tab_c @ ''movl $0xC0000080, %ecx'',
   tab_c @ ''rdmsr'',
   tab_c @ ''orl $0x901, %eax'',
   tab_c @ ''wrmsr'',
   tab_c @ ''movl %cr0, %eax'',
   tab_c @ ''orl $0x80000001, %eax'',
   tab_c @ ''movl %eax, %cr0'',
   ''.if QIZO_BOOT_TRACE'',
   tab_c @ ''movb $0x4C, %al'',
   tab_c @ ''movl $4000, %ecx'',
   tab_c @ ''movl $0x3FD, %edx'',
   ''3:'' @ tab_c @ ''inb %dx, %al'',
   tab_c @ ''andb $0x20, %al'',
   tab_c @ ''jnz 4f'',
   tab_c @ ''decl %ecx'',
   tab_c @ ''jnz 3b'',
   ''4:'' @ tab_c @ ''movb $0x4C, %al'',
   tab_c @ ''movl $0x3F8, %edx'',
   tab_c @ ''outb %al, %dx'',
   ''.endif'',
   tab_c @ ''ljmpl $0x28, $qizo_long64'',
   [],
   ''qizo_pm_putc:'',
   tab_c @ ''movzbl %al, %eax'',
   tab_c @ ''pushl %eax'',
   tab_c @ ''movl $4000, %ecx'',
   tab_c @ ''movl $0x3FD, %edx'',
   ''20:'' @ tab_c @ ''inb %dx, %al'',
   tab_c @ ''andb $0x20, %al'',
   tab_c @ ''jnz 21f'',
   tab_c @ ''decl %ecx'',
   tab_c @ ''jnz 20b'',
   ''21:'' @ tab_c @ ''popl %eax'',
   tab_c @ ''movl $0x3F8, %edx'',
   tab_c @ ''outb %al, %dx'',
   tab_c @ ''ret'',
   [],
   ''qizo_pm_nib:'',
   tab_c @ ''andl $0x0F, %eax'',
   tab_c @ ''cmpl $9, %eax'',
   tab_c @ ''jbe 22f'',
   tab_c @ ''addl $0x37, %eax'',
   tab_c @ ''jmp 23f'',
   ''22:'' @ tab_c @ ''addl $0x30, %eax'',
   ''23:'' @ tab_c @ ''call qizo_pm_putc'',
   tab_c @ ''ret'',
   [],
   ''qizo_fail_pm:'',
   tab_c @ ''movb $0x45, %al'',
   tab_c @ ''call qizo_pm_putc'',
   tab_c @ ''movzbl QIZO_BOOTINFO + QIZO_BI_ERR, %eax'',
   tab_c @ ''movl %eax, %ebp'',
   tab_c @ ''shrl $4, %eax'',
   tab_c @ ''call qizo_pm_nib'',
   tab_c @ ''movl %ebp, %eax'',
   tab_c @ ''call qizo_pm_nib'',
   ''24:'' @ tab_c @ ''cli'',
   tab_c @ ''hlt'',
   tab_c @ ''jmp 24b'',
   [],
   ''fail32:'',
   tab_c @ ''movb $0x16, QIZO_BOOTINFO + QIZO_BI_ERR'',
   [],
   ''fail32_r:'',
   tab_c @ ''movl %cr0, %eax'',
   tab_c @ ''andl $0x7FFFFFFF, %eax'',
   tab_c @ ''movl %eax, %cr0'',
   tab_c @ ''movl %cr0, %eax'',
   tab_c @ ''andl $0x7FFFFFFF, %eax'',
   tab_c @ ''movl %eax, %cr0'',
   tab_c @ ''jmp qizo_fail_pm'']"

definition stage2_lines_6 :: "string list" where
  "stage2_lines_6 = [
   [],
   ''.section .qizo_long64,'' @ dquote @ ''ax'' @ dquote,
   ''.code64'',
   [],
   ''.global qizo_long64'',
   ''qizo_long64:'',
   tab_c @ ''movw $0x10, %ax'',
   tab_c @ ''movw %ax, %ds'',
   tab_c @ ''movw %ax, %es'',
   tab_c @ ''movw %ax, %ss'',
   tab_c @ ''movabsq $QIZO_PM_STACK, %rsp'',
   ''.if QIZO_BOOT_TRACE'',
   tab_c @ ''movb $0x36, %al'',
   tab_c @ ''movl $4000, %ecx'',
   tab_c @ ''movl $0x3FD, %edx'',
   ''5:'' @ tab_c @ ''inb %dx, %al'',
   tab_c @ ''andb $0x20, %al'',
   tab_c @ ''jnz 6f'',
   tab_c @ ''decl %ecx'',
   tab_c @ ''jnz 5b'',
   ''6:'' @ tab_c @ ''movb $0x36, %al'',
   tab_c @ ''movl $0x3F8, %edx'',
   tab_c @ ''outb %al, %dx'',
   ''.endif'',
   tab_c @ ''movabsq $QIZO_BOOTINFO, %rdi'',
   tab_c @ ''movl QIZO_BOOTINFO + QIZO_BI_KTEXT, %eax'',
   tab_c @ ''addl QIZO_BOOTINFO + QIZO_BI_KERNEL_ENTRY, %eax'',
   tab_c @ ''jmp *%rax'',
   [],
   ''.section .qizo_aux,'' @ dquote @ ''ax'' @ dquote,
   ''.code32'',
   [],
   ''qizo_adler:'',
   tab_c @ ''movl $1, %eax'',
   tab_c @ ''xorl %edi, %edi'',
   tab_c @ ''testl %ecx, %ecx'',
   tab_c @ ''je adler_done'',
   [],
   ''adler_loop:'',
   tab_c @ ''movzbl (%esi), %edx'',
   tab_c @ ''addl %edx, %eax'',
   tab_c @ ''addl %eax, %edi'',
   tab_c @ ''cmpl $65521, %eax'',
   tab_c @ ''jb adler_a'',
   tab_c @ ''subl $65521, %eax'',
   [],
   ''adler_a:'',
   tab_c @ ''cmpl $65521, %edi'',
   tab_c @ ''jb adler_b'',
   tab_c @ ''subl $65521, %edi'',
   [],
   ''adler_b:'',
   tab_c @ ''incl %esi'',
   tab_c @ ''decl %ecx'',
   tab_c @ ''jne adler_loop'',
   tab_c @ ''shll $16, %edi'',
   tab_c @ ''orl %edi, %eax'',
   [],
   ''adler_done:'',
   tab_c @ ''ret'',
   [],
   ''qizo_decompress:'',
   tab_c @ ''pushl %ebx'',
   tab_c @ ''pushl %ebp'',
   tab_c @ ''pushl %esi'',
   tab_c @ ''pushl %edi'',
   tab_c @ ''movl (%esi), %eax'',
   tab_c @ ''movl 4(%esi), %edx'',
   tab_c @ ''cmpl $QIZO_LZSS_MAGIC, %eax'',
   tab_c @ ''jne decomp_raw'',
   tab_c @ ''addl $8, %esi'',
   tab_c @ ''addl %edi, %edx'',
   tab_c @ ''movl $0x80, %ebx'',
   tab_c @ ''xorl %ebp, %ebp'',
   tab_c @ ''xorl %ecx, %ecx'',
   tab_c @ ''jmp decomp_top'',
   [],
   ''decomp_raw:'',
   tab_c @ ''movl %ecx, %edx'',
   tab_c @ ''addl %edi, %edx'',
   tab_c @ ''xorl %ebp, %ebp'',
   [],
   ''decomp_top:'',
   tab_c @ ''cmpl %edx, %edi'',
   tab_c @ ''jae decomp_ok'',
   tab_c @ ''testl %ecx, %ecx'',
   tab_c @ ''jne decomp_copy_byte'',
   tab_c @ ''addl %ebx, %ebx'',
   tab_c @ ''cmpl $0x100, %ebx'',
   tab_c @ ''je decomp_refill'',
   [],
   ''decomp_item:'',
   tab_c @ ''testl %ebx, %ebp'',
   tab_c @ ''jne decomp_match'',
   tab_c @ ''movb (%esi), %al'',
   tab_c @ ''incl %esi'',
   tab_c @ ''movb %al, (%edi)'',
   tab_c @ ''incl %edi'',
   tab_c @ ''jmp decomp_top'',
   [],
   ''decomp_refill:'',
   tab_c @ ''movl $1, %ebx'',
   tab_c @ ''movzbl (%esi), %ebp'',
   tab_c @ ''incl %esi'',
   tab_c @ ''jmp decomp_item'',
   [],
   ''decomp_match:'']"

definition stage2_lines_7 :: "string list" where
  "stage2_lines_7 = [
   tab_c @ ''movzwl (%esi), %eax'',
   tab_c @ ''addl $2, %esi'',
   tab_c @ ''pushl %eax'',
   tab_c @ ''shrl $4, %eax'',
   tab_c @ ''incl %eax'',
   tab_c @ ''pushl %eax'',
   tab_c @ ''movl 4(%esp), %eax'',
   tab_c @ ''andl $0xF, %eax'',
   tab_c @ ''addl $3, %eax'',
   tab_c @ ''pushl %eax'',
   [],
   ''decomp_copy:'',
   tab_c @ ''movl %edi, %eax'',
   tab_c @ ''subl 4(%esp), %eax'',
   tab_c @ ''movb (%eax), %al'',
   tab_c @ ''movb %al, (%edi)'',
   tab_c @ ''incl %edi'',
   tab_c @ ''decl 0(%esp)'',
   tab_c @ ''jne decomp_copy'',
   tab_c @ ''addl $12, %esp'',
   tab_c @ ''jmp decomp_top'',
   [],
   ''decomp_copy_byte:'',
   tab_c @ ''movb (%esi), %al'',
   tab_c @ ''incl %esi'',
   tab_c @ ''movb %al, (%edi)'',
   tab_c @ ''incl %edi'',
   tab_c @ ''decl %ecx'',
   tab_c @ ''jmp decomp_top'',
   [],
   ''decomp_ok:'',
   tab_c @ ''movl $1, %eax'',
   tab_c @ ''jmp decomp_ret'',
   [],
   ''decomp_fail:'',
   tab_c @ ''movb $0x15, QIZO_BOOTINFO + QIZO_BI_ERR'',
   tab_c @ ''xorl %eax, %eax'',
   [],
   ''decomp_ret:'',
   tab_c @ ''popl %edi'',
   tab_c @ ''popl %esi'',
   tab_c @ ''popl %ebp'',
   tab_c @ ''popl %ebx'',
   tab_c @ ''ret'',
   tab_c @ ''popl %edi'',
   tab_c @ ''popl %esi'',
   tab_c @ ''popl %ebp'',
   tab_c @ ''popl %ebx'',
   tab_c @ ''ret'',
   [],
   ''qizo_copy:'',
   tab_c @ ''rep movsb'',
   tab_c @ ''ret'',
   [],
   ''qizo_zero:'',
   tab_c @ ''xorl %eax, %eax'',
   tab_c @ ''rep stosb'',
   tab_c @ ''ret'',
   [],
   ''qizo_build_pages:'',
   tab_c @ ''movl $QIZO_PAGE_PML4, %edi'',
   tab_c @ ''movl $0x6000, %ecx'',
   tab_c @ ''call qizo_zero'',
   tab_c @ ''movl $QIZO_PAGE_PDPT, %eax'',
   tab_c @ ''orl $QIZO_PT_DIR, %eax'',
   tab_c @ ''movl $QIZO_PAGE_PML4, %edi'',
   tab_c @ ''movl %eax, (%edi)'',
   tab_c @ ''movl $0, 4(%edi)'',
   [],
   tab_c @ ''movl $QIZO_PAGE_PDT, %eax'',
   tab_c @ ''movl $QIZO_PAGE_PDPT, %edi'',
   tab_c @ ''movl $4, %ecx'',
   [],
   ''pdpt_fill:'',
   tab_c @ ''orl $QIZO_PT_DIR, %eax'',
   tab_c @ ''movl %eax, (%edi)'',
   tab_c @ ''movl $0, 4(%edi)'',
   tab_c @ ''addl $0x1000, %eax'',
   tab_c @ ''addl $8, %edi'',
   tab_c @ ''decl %ecx'',
   tab_c @ ''jne pdpt_fill'',
   [],
   tab_c @ ''xorl %eax, %eax'',
   tab_c @ ''movl $QIZO_PAGE_PDT, %edi'',
   tab_c @ ''movl $2048, %ecx'',
   [],
   ''pdt_fill:'',
   tab_c @ ''movl %eax, %edx'',
   tab_c @ ''orl $QIZO_PT_PAGE, %edx'',
   tab_c @ ''movl %edx, (%edi)'',
   tab_c @ ''movl $0, 4(%edi)'',
   tab_c @ ''addl $0x200000, %eax'',
   tab_c @ ''addl $8, %edi'',
   tab_c @ ''decl %ecx'',
   tab_c @ ''jne pdt_fill'',
   tab_c @ ''ret'',
   [],
   ''fail_c1:'',
   tab_c @ ''movb $0x17, QIZO_BOOTINFO + QIZO_BI_ERR'',
   tab_c @ ''jmp fail32_r'',
   [],
   ''fail_c2:'',
   tab_c @ ''movb $0x18, QIZO_BOOTINFO + QIZO_BI_ERR'',
   tab_c @ ''jmp fail32_r'',
   [],
   ''fail_c3:'',
   tab_c @ ''movb $0x19, QIZO_BOOTINFO + QIZO_BI_ERR'']"

definition stage2_lines_8 :: "string list" where
  "stage2_lines_8 = [
   tab_c @ ''jmp fail32_r'',
   [],
   ''fail_c4:'',
   tab_c @ ''movb $0x1a, QIZO_BOOTINFO + QIZO_BI_ERR'',
   tab_c @ ''jmp fail32_r'',
   [],
   ''fail_c5:'',
   tab_c @ ''movb $0x1b, QIZO_BOOTINFO + QIZO_BI_ERR'',
   tab_c @ ''jmp fail32_r'',
   [],
   ''fail_c6:'',
   tab_c @ ''movb $0x1c, QIZO_BOOTINFO + QIZO_BI_ERR'',
   tab_c @ ''jmp fail32_r'',
   [],
   ''fail_c7:'',
   tab_c @ ''movb $0x1d, QIZO_BOOTINFO + QIZO_BI_ERR'',
   tab_c @ ''jmp fail32_r'',
   [],
   ''.section .qizo_fault,'' @ dquote @ ''ax'' @ dquote,
   ''.code64'',
   [],
   ''.macro QIZO_FSTUB num'',
   ''qizo_fstub_'' @ bslash @ ''num:'',
   ''.if '' @ bslash @ ''num != 8 && '' @ bslash @ ''num != 10 && '' @ bslash @ ''num != 11 && '' @ bslash @ ''num != 12 && '' @ bslash @ ''num != 13 && '' @ bslash @ ''num != 14 && '' @ bslash @ ''num != 17 && '' @ bslash @ ''num != 21 && '' @ bslash @ ''num != 29 && '' @ bslash @ ''num != 30'',
   tab_c @ ''pushq $0'',
   ''.endif'',
   tab_c @ ''pushq $'' @ bslash @ ''num'',
   tab_c @ ''jmp qizo_fault_common'',
   ''.endm'',
   [],
   ''qizo_fault_stubs:'',
   ''.irp n, 0,1,2,3,4,5,6,7,8,9,10,11,12,13,14,15,16,17,18,19,20,21,22,23,24,25,26,27,28,29,30,31'',
   tab_c @ ''QIZO_FSTUB '' @ bslash @ ''n'',
   ''.endr'',
   [],
   ''qizo_fault_common:'',
   tab_c @ ''cli'',
   tab_c @ ''movl $0x46, %r8d'',
   tab_c @ ''call qizo_fault_putc'',
   tab_c @ ''movq (%rsp), %r9'',
   tab_c @ ''call qizo_fault_hex16'',
   tab_c @ ''movq 8(%rsp), %r9'',
   tab_c @ ''call qizo_fault_hex16'',
   tab_c @ ''movq 16(%rsp), %r9'',
   tab_c @ ''call qizo_fault_hex16'',
   tab_c @ ''movq %cr2, %r9'',
   tab_c @ ''call qizo_fault_hex16'',
   [],
   ''25:'',
   tab_c @ ''cli'',
   tab_c @ ''hlt'',
   tab_c @ ''jmp 25b'',
   [],
   ''qizo_fault_putc:'',
   tab_c @ ''pushq %rcx'',
   tab_c @ ''pushq %rdx'',
   tab_c @ ''movl $0x3FD, %edx'',
   tab_c @ ''movl $4000000, %ecx'',
   ''26:'',
   tab_c @ ''inb %dx, %al'',
   tab_c @ ''testb $0x20, %al'',
   tab_c @ ''jnz 27f'',
   tab_c @ ''decl %ecx'',
   tab_c @ ''jnz 26b'',
   ''27:'',
   tab_c @ ''movb %r8b, %al'',
   tab_c @ ''movl $0x3F8, %edx'',
   tab_c @ ''outb %al, %dx'',
   tab_c @ ''popq %rdx'',
   tab_c @ ''popq %rcx'',
   tab_c @ ''ret'',
   [],
   ''qizo_fault_hex16:'',
   tab_c @ ''pushq %rcx'',
   tab_c @ ''pushq %r10'',
   tab_c @ ''movl $60, %r10d'',
   [],
   ''28:'',
   tab_c @ ''movq %r9, %rax'',
   tab_c @ ''movl %r10d, %ecx'',
   tab_c @ ''shrq %cl, %rax'',
   tab_c @ ''andl $15, %eax'',
   tab_c @ ''cmpl $10, %eax'',
   tab_c @ ''jb 29f'',
   tab_c @ ''addl $0x37, %eax'',
   tab_c @ ''jmp 30f'',
   ''29:'',
   tab_c @ ''addl $0x30, %eax'',
   ''30:'',
   tab_c @ ''movl %eax, %r8d'',
   tab_c @ ''call qizo_fault_putc'',
   tab_c @ ''subl $4, %r10d'',
   tab_c @ ''jns 28b'',
   tab_c @ ''popq %r10'',
   tab_c @ ''popq %rcx'',
   tab_c @ ''ret'',
   [],
   ''qizo_fstub_table:'',
   ''.irp n, 0,1,2,3,4,5,6,7,8,9,10,11,12,13,14,15,16,17,18,19,20,21,22,23,24,25,26,27,28,29,30,31'',
   tab_c @ ''.long qizo_fstub_'' @ bslash @ ''n'',
   ''.endr'',
   [],
   ''qizo_fidt_ptr:'',
   tab_c @ ''.word 32 * 16 - 1'',
   tab_c @ ''.long QIZO_IDT_BOOT'']"

definition stage2_lines :: "string list" where
  "stage2_lines = stage2_lines_1 @ stage2_lines_2 @ stage2_lines_3 @ stage2_lines_4 @ stage2_lines_5 @ stage2_lines_6 @ stage2_lines_7 @ stage2_lines_8"

definition stage2_ld_lines :: "string list" where
  "stage2_ld_lines = [
   ''ENTRY(_start)'',
   ''SECTIONS'',
   ''{'',
   tab_c @ ''. = 0x20000;'',
   tab_c @ ''__qizo_base = .;'',
   tab_c @ ''.qizo_boot : { *(.qizo_boot) }'',
   tab_c @ ''.qizo_pm32 : { *(.qizo_pm32) }'',
   tab_c @ ''.qizo_long64 : { *(.qizo_long64) }'',
   tab_c @ ''.qizo_aux : { *(.qizo_aux) }'',
   tab_c @ ''.qizo_fault : { *(.qizo_fault) }'',
   tab_c @ ''. = ALIGN(512);'',
   tab_c @ ''__qizo_blob_start = .;'',
   tab_c @ ''. = ALIGN(512);'',
   tab_c @ ''__qizo_blob_end = .;'',
   tab_c @ ''__qizo_code_size = __qizo_blob_start - __qizo_base;'',
   tab_c @ ''__qizo_total = . - __qizo_base;'',
   tab_c @ ''/DISCARD/ : { *(.note.GNU-stack) *(.comment) *(.eh_frame) }'',
   ''}'']"

definition main_c_lines_1 :: "string list" where
  "main_c_lines_1 = [
   ''#include '' @ dquote @ ''qizo.h'' @ dquote,
   [],
   ''static volatile u64 ticks;'',
   ''static volatile u64 keyboard_irqs;'',
   ''static volatile u64 spurious;'',
   ''static struct qizo_bootinfo *boot;'',
   ''static u64 ms_per_tick = 1;'',
   ''static u64 cycles_per_ms;'',
   ''static int timer_alive;'',
   [],
   ''u64 qizo_ticks(void)'',
   ''{'',
   tab_c @ ''return ticks;'',
   ''}'',
   [],
   ''struct qizo_bootinfo *qizo_boot(void)'',
   ''{'',
   tab_c @ ''return boot;'',
   ''}'',
   [],
   ''static void pic_init(void)'',
   ''{'',
   tab_c @ ''qizo_outb(0x20, 0x11);'',
   tab_c @ ''qizo_io_wait();'',
   tab_c @ ''qizo_outb(0xA0, 0x11);'',
   tab_c @ ''qizo_io_wait();'',
   tab_c @ ''qizo_outb(0x21, 0x20);'',
   tab_c @ ''qizo_io_wait();'',
   tab_c @ ''qizo_outb(0xA1, 0x28);'',
   tab_c @ ''qizo_io_wait();'',
   tab_c @ ''qizo_outb(0x21, 0x04);'',
   tab_c @ ''qizo_io_wait();'',
   tab_c @ ''qizo_outb(0xA1, 0x02);'',
   tab_c @ ''qizo_io_wait();'',
   tab_c @ ''qizo_outb(0x21, 0x01);'',
   tab_c @ ''qizo_io_wait();'',
   tab_c @ ''qizo_outb(0xA1, 0xEF);'',
   tab_c @ ''qizo_io_wait();'',
   tab_c @ ''qizo_outb(0x21, 0xFC);'',
   tab_c @ ''qizo_io_wait();'',
   ''}'',
   [],
   ''static inline u64 qizo_cr2(void)'',
   ''{'',
   tab_c @ ''u64 v;'',
   [],
   tab_c @ ''__asm__ volatile('' @ dquote @ ''mov %%cr2, %0'' @ dquote @ '' : '' @ dquote @ ''=r'' @ dquote @ ''(v));'',
   tab_c @ ''return v;'',
   ''}'',
   [],
   ''static void qizo_exception(struct qizo_regs *regs)'',
   ''{'',
   tab_c @ ''u64 vector = regs->vector;'',
   tab_c @ ''u64 fault = vector == 14 ? qizo_cr2() : 0;'',
   [],
   tab_c @ ''qizo_cli();'',
   tab_c @ ''qizo_trace('' @ dquote @ ''panic'' @ dquote @ '');'',
   tab_c @ ''qizo_printf('' @ dquote @ ''qizo: cpu exception %u rip=%p code=%p cr2=%p'' @ bslash @ ''r'' @ bslash @ ''n'' @ dquote @ '','',
   tab_c @ tab_c @ ''    (u32)vector, regs->rip, regs->code, fault);'',
   tab_c @ ''qizo_printf('' @ dquote @ ''qizo: faulting frame at %p, vector list in docs'' @ bslash @ ''r'' @ bslash @ ''n'' @ dquote @ '', (u64)(regs + 1));'',
   tab_c @ ''qizo_halt();'',
   ''}'',
   [],
   ''void qizo_irq_handler(struct qizo_regs *regs)'',
   ''{'',
   tab_c @ ''u64 vector = regs->vector;'',
   [],
   tab_c @ ''if (vector < 32) {'',
   tab_c @ tab_c @ ''qizo_exception(regs);'',
   tab_c @ tab_c @ ''return;'',
   tab_c @ ''}'',
   tab_c @ ''if (vector == 32) {'',
   tab_c @ tab_c @ ''ticks++;'',
   tab_c @ tab_c @ ''return;'',
   tab_c @ ''}'',
   tab_c @ ''if (vector == 33) {'',
   tab_c @ tab_c @ ''u8 status = qizo_inb(0x64);'',
   [],
   tab_c @ tab_c @ ''keyboard_irqs++;'',
   tab_c @ tab_c @ ''if (status & 1)'',
   tab_c @ tab_c @ tab_c @ ''qizo_kbd_interrupt((u8)qizo_inb(0x60));'',
   tab_c @ tab_c @ ''return;'',
   tab_c @ ''}'']"

definition main_c_lines_2 :: "string list" where
  "main_c_lines_2 = [
   tab_c @ ''if (vector == 44) {'',
   tab_c @ tab_c @ ''u8 status = qizo_inb(0x64);'',
   [],
   tab_c @ tab_c @ ''if ((status & 0x21) == 0x21)'',
   tab_c @ tab_c @ tab_c @ ''qizo_mouse_interrupt(qizo_inb(0x60));'',
   tab_c @ tab_c @ ''else'',
   tab_c @ tab_c @ tab_c @ ''qizo_inb(0x60);'',
   tab_c @ tab_c @ ''return;'',
   tab_c @ ''}'',
   tab_c @ ''spurious++;'',
   ''}'',
   [],
   ''void qizo_irq_eoi(struct qizo_regs *regs)'',
   ''{'',
   tab_c @ ''if (regs->vector >= 32 && regs->vector < 48) {'',
   tab_c @ tab_c @ ''if (regs->vector >= 40)'',
   tab_c @ tab_c @ tab_c @ ''qizo_outb(0xA0, 0x20);'',
   tab_c @ tab_c @ ''qizo_outb(0x20, 0x20);'',
   tab_c @ ''}'',
   ''}'',
   [],
   ''void qizo_timer_init(void)'',
   ''{'',
   tab_c @ ''qizo_outb(0x43, 0x36);'',
   tab_c @ ''qizo_io_wait();'',
   tab_c @ ''qizo_outb(0x40, 0x49);'',
   tab_c @ ''qizo_io_wait();'',
   tab_c @ ''qizo_outb(0x40, 0x04);'',
   tab_c @ ''qizo_io_wait();'',
   tab_c @ ''ms_per_tick = 1;'',
   ''}'',
   [],
   ''u64 qizo_ticks_to_ms(u64 t)'',
   ''{'',
   tab_c @ ''return t * ms_per_tick;'',
   ''}'',
   [],
   ''static inline void halt_once(void)'',
   ''{'',
   tab_c @ ''__asm__ volatile('' @ dquote @ ''hlt'' @ dquote @ '');'',
   ''}'',
   [],
   ''void qizo_sleep(u64 ms)'',
   ''{'',
   tab_c @ ''u64 target, limit;'',
   tab_c @ ''volatile u64 spin;'',
   [],
   tab_c @ ''if (!timer_alive) {'',
   tab_c @ tab_c @ ''for (spin = ms * 4000; spin; --spin)'',
   tab_c @ tab_c @ tab_c @ '';'',
   tab_c @ tab_c @ ''return;'',
   tab_c @ ''}'',
   tab_c @ ''target = ticks + (ms + ms_per_tick - 1) / ms_per_tick;'',
   tab_c @ ''limit = qizo_rdtsc() + (ms + 40) * qizo_cycles_per_ms();'',
   tab_c @ ''while (ticks < target && qizo_rdtsc() < limit)'',
   tab_c @ tab_c @ ''halt_once();'',
   ''}'',
   [],
   ''void qizo_calibrate(void)'',
   ''{'',
   tab_c @ ''u64 c0, c1, seen, ticks0;'',
   tab_c @ ''u32 a, b, spin;'',
   tab_c @ ''u64 ms = 0;'',
   [],
   tab_c @ ''qizo_trace('' @ dquote @ ''calibrating'' @ dquote @ '');'',
   tab_c @ ''ticks0 = ticks;'',
   tab_c @ ''a = qizo_inb(0x40);'',
   tab_c @ ''c0 = qizo_rdtsc();'',
   tab_c @ ''for (spin = 0; spin < 400000 && ms < 8; ++spin) {'',
   tab_c @ tab_c @ ''b = qizo_inb(0x40);'',
   tab_c @ tab_c @ ''if (b > a) {'',
   tab_c @ tab_c @ tab_c @ ''a = b;'',
   tab_c @ tab_c @ tab_c @ ''++ms;'',
   tab_c @ tab_c @ tab_c @ ''c1 = qizo_rdtsc();'',
   tab_c @ tab_c @ ''}'',
   tab_c @ ''}'',
   tab_c @ ''if (ms) {'',
   tab_c @ tab_c @ ''cycles_per_ms = (c1 - c0) / ms;'',
   tab_c @ tab_c @ ''if (!cycles_per_ms)'',
   tab_c @ tab_c @ tab_c @ ''cycles_per_ms = 1;'',
   tab_c @ ''}'',
   tab_c @ ''seen = ticks;'',
   tab_c @ ''for (spin = 0; spin < 200000 && ticks == seen; ++spin)'']"

definition main_c_lines_3 :: "string list" where
  "main_c_lines_3 = [
   tab_c @ tab_c @ ''qizo_io_wait();'',
   tab_c @ ''if (ticks != seen) {'',
   tab_c @ tab_c @ ''timer_alive = 1;'',
   tab_c @ tab_c @ ''qizo_printf('' @ dquote @ ''timer : %u ticks/s, %u Mcycles/s, pit wraps %u'' @ bslash @ ''r'' @ bslash @ ''n'' @ dquote @ '','',
   tab_c @ tab_c @ tab_c @ ''    (u32)(ticks - ticks0), (u32)cycles_per_ms, (u32)ms);'',
   tab_c @ ''} else {'',
   tab_c @ tab_c @ ''qizo_puts('' @ dquote @ ''timer : irq0 silent, pit polling only'' @ bslash @ ''r'' @ bslash @ ''n'' @ dquote @ '');'',
   tab_c @ ''}'',
   ''}'',
   [],
   ''u64 qizo_cycles_per_ms(void)'',
   ''{'',
   tab_c @ ''if (!cycles_per_ms)'',
   tab_c @ tab_c @ ''return 1000000;'',
   tab_c @ ''return cycles_per_ms;'',
   ''}'',
   [],
   ''u64 qizo_keyboard_irqs(void)'',
   ''{'',
   tab_c @ ''return keyboard_irqs;'',
   ''}'',
   [],
   ''u64 qizo_spurious_irqs(void)'',
   ''{'',
   tab_c @ ''return spurious;'',
   ''}'',
   [],
   ''void qizo_msr_probe(void)'',
   ''{'',
   tab_c @ ''u64 efer = qizo_rdmsr(0xC0000080);'',
   [],
   tab_c @ ''if (!(efer & (1ULL << 0)))'',
   tab_c @ tab_c @ ''qizo_wrmsr(0xC0000080, efer | (1ULL << 0));'',
   ''}'',
   [],
   ''void qizo_kernel_main_entry(struct qizo_bootinfo *info)'',
   ''{'',
   tab_c @ ''boot = info;'',
   tab_c @ ''qizo_console_init(info);'',
   tab_c @ ''qizo_printf('' @ dquote @ ''qizo %u.%u.%u at %lx'' @ bslash @ ''r'' @ bslash @ ''n'' @ dquote @ '', QIZO_VERSION_MAJOR,'',
   tab_c @ tab_c @ ''    QIZO_VERSION_MINOR, QIZO_VERSION_PATCH, (u64)&qizo_kernel_main_entry);'',
   tab_c @ ''qizo_trace('' @ dquote @ ''console up'' @ dquote @ '');'',
   tab_c @ ''qizo_cpu_init(info);'',
   tab_c @ ''qizo_pma_init(info);'',
   tab_c @ ''qizo_trace('' @ dquote @ ''memory up'' @ dquote @ '');'',
   tab_c @ ''qizo_idt_install();'',
   tab_c @ ''pic_init();'',
   tab_c @ ''qizo_timer_init();'',
   tab_c @ ''qizo_kbd_init();'',
   tab_c @ ''qizo_drivers_start();'',
   tab_c @ ''qizo_sti();'',
   tab_c @ ''qizo_msr_probe();'',
   tab_c @ ''qizo_trace('' @ dquote @ ''irqs live'' @ dquote @ '');'',
   tab_c @ ''qizo_calibrate();'',
   tab_c @ ''qizo_trace('' @ dquote @ ''reporting'' @ dquote @ '');'',
   tab_c @ ''qizo_sysinfo();'',
   tab_c @ ''qizo_trace('' @ dquote @ ''shell'' @ dquote @ '');'',
   tab_c @ ''qizo_shell();'',
   tab_c @ ''qizo_cli();'',
   tab_c @ ''qizo_puts('' @ dquote @ ''qizo: shell exit, halting'' @ bslash @ ''r'' @ bslash @ ''n'' @ dquote @ '');'',
   tab_c @ ''qizo_hlt_loop();'',
   ''}'',
   [],
   ''void qizo_reboot(void)'',
   ''{'',
   tab_c @ ''u32 spin = 0x10000;'',
   [],
   tab_c @ ''qizo_cli();'',
   tab_c @ ''qizo_puts('' @ dquote @ ''qizo: rebooting'' @ bslash @ ''r'' @ bslash @ ''n'' @ dquote @ '');'',
   tab_c @ ''for (;;) {'',
   tab_c @ tab_c @ ''if (!(qizo_inb(0x64) & 2) && spin-- == 0) {'',
   tab_c @ tab_c @ tab_c @ ''qizo_outb(0x64, 0xFE);'',
   tab_c @ tab_c @ tab_c @ ''break;'',
   tab_c @ tab_c @ ''}'',
   tab_c @ ''}'',
   tab_c @ ''qizo_hlt_loop();'',
   ''}'',
   [],
   ''void qizo_kmain(struct qizo_bootinfo *info)'',
   ''{'',
   tab_c @ ''qizo_kernel_main_entry(info);'',
   ''}'']"

definition main_c_lines :: "string list" where
  "main_c_lines = main_c_lines_1 @ main_c_lines_2 @ main_c_lines_3"

definition boot64_lines_1 :: "string list" where
  "boot64_lines_1 = [
   ''.section .qizo_text,'' @ dquote @ ''ax'' @ dquote,
   ''.code64'',
   [],
   ''.macro MARK ch'',
   tab_c @ ''movb $'' @ bslash @ ''ch, %al'',
   tab_c @ ''movl $0x3F8, %edx'',
   tab_c @ ''outb %al, %dx'',
   ''.endm'',
   [],
   ''.set QIZO_PG_SIZE, 0x6000'',
   ''.set QIZO_HHDM_VIRT, 0xFFFF888000000000'',
   ''.set QIZO_CR4_BITS, 0x00000620'',
   ''.set QIZO_EFER, 0xC0000080'',
   ''.set QIZO_STACK_BYTES, 32768'',
   [],
   ''.global qizo_kernel_entry'',
   ''.type qizo_kernel_entry, @function'',
   ''qizo_kernel_entry:'',
   tab_c @ ''MARK 0x45'',
   tab_c @ ''cli'',
   tab_c @ ''cld'',
   tab_c @ ''movq %rdi, %rbx'',
   tab_c @ ''movq $qizo_boot_stack + QIZO_STACK_BYTES, %rsp'',
   tab_c @ ''andq $-16, %rsp'',
   tab_c @ ''xorq %rbp, %rbp'',
   tab_c @ ''call qizo_gdt_install'',
   tab_c @ ''MARK 0x67'',
   tab_c @ ''call qizo_idt_install'',
   tab_c @ ''MARK 0x69'',
   tab_c @ ''call qizo_paging_setup'',
   tab_c @ ''MARK 0x70'',
   tab_c @ ''movq %rbx, %rdi'',
   tab_c @ ''MARK 0x6B'',
   tab_c @ ''call qizo_kmain'',
   tab_c @ ''jmp qizo_hlt_loop'',
   ''.size qizo_kernel_entry, . - qizo_kernel_entry'',
   [],
   [],
   ''.global qizo_paging_setup'',
   ''.type qizo_paging_setup, @function'',
   ''qizo_paging_setup:'',
   tab_c @ ''movq $qizo_pg_tables, %r9'',
   tab_c @ ''movq %r9, %rdi'',
   tab_c @ ''movq %r9, %r8'',
   tab_c @ ''addq $QIZO_PG_SIZE, %r8'',
   tab_c @ ''xorl %eax, %eax'',
   [],
   ''1:'',
   tab_c @ ''movq %rax, (%rdi)'',
   tab_c @ ''addq $8, %rdi'',
   tab_c @ ''cmpq %r8, %rdi'',
   tab_c @ ''jb 1b'',
   [],
   tab_c @ ''movq %r9, %rax'',
   tab_c @ ''addq $0x1000, %rax'',
   tab_c @ ''orq $0x03, %rax'',
   tab_c @ ''movq %rax, (%r9)'',
   [],
   tab_c @ ''movq %r9, %rax'',
   tab_c @ ''addq $0x3000, %rax'',
   tab_c @ ''orq $0x03, %rax'',
   tab_c @ ''movq $QIZO_HHDM_VIRT, %rdx'',
   tab_c @ ''shrq $39, %rdx'',
   tab_c @ ''andl $511, %edx'',
   tab_c @ ''movq %rax, (%r9,%rdx,8)'',
   [],
   tab_c @ ''movq %r9, %rax'',
   tab_c @ ''addq $0x2000, %rax'',
   tab_c @ ''orq $0x03, %rax'',
   tab_c @ ''movq %rax, 0x1000(%r9)'',
   [],
   tab_c @ ''movq %r9, %rax'',
   tab_c @ ''addq $0x4000, %rax'',
   tab_c @ ''orq $0x03, %rax'',
   tab_c @ ''movq $QIZO_HHDM_VIRT, %rdx'',
   tab_c @ ''shrq $30, %rdx'',
   tab_c @ ''andl $511, %edx'',
   tab_c @ ''movq %rax, 0x3000(%r9,%rdx,8)'',
   [],
   tab_c @ ''movq %r9, %rdi'',
   tab_c @ ''addq $0x2000, %rdi'',
   tab_c @ ''xorl %edx, %edx'',
   [],
   ''2:'',
   tab_c @ ''movq %rdx, %rcx'',
   tab_c @ ''shlq $21, %rcx'',
   tab_c @ ''orq $0x83, %rcx'',
   tab_c @ ''movq %rcx, (%rdi)'',
   tab_c @ ''addq $8, %rdi'',
   tab_c @ ''incq %rdx'',
   tab_c @ ''cmpq $512, %rdx'',
   tab_c @ ''jb 2b'',
   []]"

definition boot64_lines_2 :: "string list" where
  "boot64_lines_2 = [
   tab_c @ ''movq %r9, %rdi'',
   tab_c @ ''addq $0x4000, %rdi'',
   tab_c @ ''xorl %edx, %edx'',
   [],
   ''3:'',
   tab_c @ ''movq %rdx, %rcx'',
   tab_c @ ''shlq $21, %rcx'',
   tab_c @ ''orq $0x83, %rcx'',
   tab_c @ ''movq %rcx, (%rdi)'',
   tab_c @ ''addq $8, %rdi'',
   tab_c @ ''incq %rdx'',
   tab_c @ ''cmpq $512, %rdx'',
   tab_c @ ''jb 3b'',
   [],
   tab_c @ ''movq %r9, %rax'',
   tab_c @ ''movq %rax, %cr3'',
   tab_c @ ''movl $QIZO_CR4_BITS, %eax'',
   tab_c @ ''movq %rax, %cr4'',
   tab_c @ ''movl $QIZO_EFER, %ecx'',
   tab_c @ ''rdmsr'',
   tab_c @ ''orl $0x901, %eax'',
   tab_c @ ''wrmsr'',
   tab_c @ ''movq %cr0, %rax'',
   tab_c @ ''andl $0x9FFFFFFF, %eax'',
   tab_c @ ''orl $0x80010001, %eax'',
   tab_c @ ''movq %rax, %cr0'',
   tab_c @ ''ret'',
   ''.size qizo_paging_setup, . - qizo_paging_setup'',
   [],
   ''.global qizo_hlt_loop'',
   ''.type qizo_hlt_loop, @function'',
   ''qizo_hlt_loop:'',
   ''1:'',
   tab_c @ ''hlt'',
   tab_c @ ''jmp 1b'',
   ''.size qizo_hlt_loop, . - qizo_hlt_loop'',
   [],
   ''.global qizo_cpuid'',
   ''.type qizo_cpuid, @function'',
   ''qizo_cpuid:'',
   tab_c @ ''pushq %rbx'',
   tab_c @ ''movl 16(%rsp), %eax'',
   tab_c @ ''movl 20(%rsp), %ecx'',
   tab_c @ ''cpuid'',
   tab_c @ ''movl %eax, (%rdi)'',
   tab_c @ ''movl %ebx, 4(%rdi)'',
   tab_c @ ''movl %ecx, 8(%rdi)'',
   tab_c @ ''movl %edx, 12(%rdi)'',
   tab_c @ ''popq %rbx'',
   tab_c @ ''ret'',
   ''.size qizo_cpuid, . - qizo_cpuid'',
   [],
   ''.global qizo_rdmsr'',
   ''.type qizo_rdmsr, @function'',
   ''qizo_rdmsr:'',
   tab_c @ ''movl %edi, %ecx'',
   tab_c @ ''rdmsr'',
   tab_c @ ''shlq $32, %rdx'',
   tab_c @ ''orq %rdx, %rax'',
   tab_c @ ''ret'',
   ''.size qizo_rdmsr, . - qizo_rdmsr'',
   [],
   ''.global qizo_wrmsr'',
   ''.type qizo_wrmsr, @function'',
   ''qizo_wrmsr:'',
   tab_c @ ''movl %edi, %ecx'',
   tab_c @ ''movq %rsi, %rax'',
   tab_c @ ''movq %rsi, %rdx'',
   tab_c @ ''shrq $32, %rdx'',
   tab_c @ ''wrmsr'',
   tab_c @ ''ret'',
   ''.size qizo_wrmsr, . - qizo_wrmsr'',
   [],
   ''.global qizo_rdtsc'',
   ''.type qizo_rdtsc, @function'',
   ''qizo_rdtsc:'',
   tab_c @ ''lfence'',
   tab_c @ ''rdtsc'',
   tab_c @ ''shlq $32, %rdx'',
   tab_c @ ''orq %rdx, %rax'',
   tab_c @ ''ret'',
   ''.size qizo_rdtsc, . - qizo_rdtsc'',
   [],
   ''.section .qizo_bss,'' @ dquote @ ''aw'' @ dquote @ '',@nobits'',
   ''.balign 4096'',
   ''.global qizo_pg_tables'',
   ''qizo_pg_tables:'',
   tab_c @ ''.skip QIZO_PG_SIZE'',
   ''.balign 16'',
   ''.global qizo_boot_stack'',
   ''qizo_boot_stack:'',
   tab_c @ ''.skip QIZO_STACK_BYTES'']"

definition boot64_lines :: "string list" where
  "boot64_lines = boot64_lines_1 @ boot64_lines_2"

definition idt_lines_1 :: "string list" where
  "idt_lines_1 = [
   ''.section .qizo_text,'' @ dquote @ ''ax'' @ dquote,
   ''.code64'',
   [],
   ''.macro QIZO_STUB num'',
   ''qizo_stub_'' @ bslash @ ''num:'',
   ''.if '' @ bslash @ ''num != 8 && '' @ bslash @ ''num != 10 && '' @ bslash @ ''num != 11 && '' @ bslash @ ''num != 12 && '' @ bslash @ ''num != 13 && '' @ bslash @ ''num != 14 && '' @ bslash @ ''num != 17 && '' @ bslash @ ''num != 21 && '' @ bslash @ ''num != 29 && '' @ bslash @ ''num != 30'',
   tab_c @ ''pushq $0'',
   ''.endif'',
   tab_c @ ''pushq $'' @ bslash @ ''num'',
   tab_c @ ''jmp qizo_isr_common'',
   ''.endm'',
   [],
   ''.macro QIZO_IRQ num'',
   ''qizo_irq_'' @ bslash @ ''num:'',
   tab_c @ ''pushq $0'',
   tab_c @ ''pushq $'' @ bslash @ ''num'',
   tab_c @ ''jmp qizo_isr_common'',
   ''.endm'',
   [],
   ''.irp n, 0,1,2,3,4,5,6,7,8,9,10,11,12,13,14,15,16,17,18,19,20,21,22,23,24,25,26,27,28,29,30,31'',
   tab_c @ ''QIZO_STUB '' @ bslash @ ''n'',
   ''.endr'',
   [],
   ''.irp n, 32,33,34,35,36,37,38,39,40,41,42,43,44,45,46,47,48,49,50,51,52,53,54,55,56,57,58,59,60,61,62,63,64,65,66,67,68,69,70,71,72,73,74,75,76,77,78,79,80,81,82,83,84,85,86,87,88,89,90,91,92,93,94,95,96,97,98,99,100,101,102,103,104,105,106,107,108,109,110,111,112,113,114,115,116,117,118,119,120,121,122,123,124,125,126,127,128,129,130,131,132,133,134,135,136,137,138,139,140,141,142,143,144,145,146,147,148,149,150,151,152,153,154,155,156,157,158,159,160,161,162,163,164,165,166,167,168,169,170,171,172,173,174,175,176,177,178,179,180,181,182,183,184,185,186,187,188,189,190,191,192,193,194,195,196,197,198,199,200,201,202,203,204,205,206,207,208,209,210,211,212,213,214,215,216,217,218,219,220,221,222,223,224,225,226,227,228,229,230,231,232,233,234,235,236,237,238,239,240,241,242,243,244,245,246,247,248,249,250,251,252,253,254,255'',
   tab_c @ ''QIZO_IRQ '' @ bslash @ ''n'',
   ''.endr'',
   [],
   ''.global qizo_stub_table'',
   ''.type qizo_stub_table, @object'',
   ''qizo_stub_table:'',
   ''.irp n, 0,1,2,3,4,5,6,7,8,9,10,11,12,13,14,15,16,17,18,19,20,21,22,23,24,25,26,27,28,29,30,31'',
   tab_c @ ''.quad qizo_stub_'' @ bslash @ ''n'',
   ''.endr'',
   ''.irp n, 32,33,34,35,36,37,38,39,40,41,42,43,44,45,46,47,48,49,50,51,52,53,54,55,56,57,58,59,60,61,62,63,64,65,66,67,68,69,70,71,72,73,74,75,76,77,78,79,80,81,82,83,84,85,86,87,88,89,90,91,92,93,94,95,96,97,98,99,100,101,102,103,104,105,106,107,108,109,110,111,112,113,114,115,116,117,118,119,120,121,122,123,124,125,126,127,128,129,130,131,132,133,134,135,136,137,138,139,140,141,142,143,144,145,146,147,148,149,150,151,152,153,154,155,156,157,158,159,160,161,162,163,164,165,166,167,168,169,170,171,172,173,174,175,176,177,178,179,180,181,182,183,184,185,186,187,188,189,190,191,192,193,194,195,196,197,198,199,200,201,202,203,204,205,206,207,208,209,210,211,212,213,214,215,216,217,218,219,220,221,222,223,224,225,226,227,228,229,230,231,232,233,234,235,236,237,238,239,240,241,242,243,244,245,246,247,248,249,250,251,252,253,254,255'',
   tab_c @ ''.quad qizo_irq_'' @ bslash @ ''n'',
   ''.endr'',
   ''.size qizo_stub_table, . - qizo_stub_table'',
   [],
   ''qizo_isr_common:'',
   tab_c @ ''fxsave qizo_fp_area(%rip)'',
   tab_c @ ''pushq %rax'',
   tab_c @ ''pushq %rbx'',
   tab_c @ ''pushq %rcx'',
   tab_c @ ''pushq %rdx'',
   tab_c @ ''pushq %rsi'',
   tab_c @ ''pushq %rdi'',
   tab_c @ ''pushq %rbp'',
   tab_c @ ''pushq %r8'',
   tab_c @ ''pushq %r9'',
   tab_c @ ''pushq %r10'',
   tab_c @ ''pushq %r11'',
   tab_c @ ''pushq %r12'',
   tab_c @ ''pushq %r13'',
   tab_c @ ''pushq %r14'',
   tab_c @ ''pushq %r15'',
   tab_c @ ''cld'',
   tab_c @ ''movq %rsp, %rbp'',
   tab_c @ ''andq $-16, %rsp'',
   tab_c @ ''movq %rbp, %rdi'',
   tab_c @ ''call qizo_irq_handler'',
   tab_c @ ''movq %rbp, %rdi'',
   tab_c @ ''call qizo_irq_eoi'',
   tab_c @ ''movq %rbp, %rsp'',
   tab_c @ ''fxrstor qizo_fp_area(%rip)'',
   tab_c @ ''popq %r15'',
   tab_c @ ''popq %r14'',
   tab_c @ ''popq %r13'',
   tab_c @ ''popq %r12'',
   tab_c @ ''popq %r11'',
   tab_c @ ''popq %r10'',
   tab_c @ ''popq %r9'',
   tab_c @ ''popq %r8'',
   tab_c @ ''popq %rbp'',
   tab_c @ ''popq %rdi'',
   tab_c @ ''popq %rsi'',
   tab_c @ ''popq %rdx'',
   tab_c @ ''popq %rcx'',
   tab_c @ ''popq %rbx'',
   tab_c @ ''popq %rax'']"

definition idt_lines_2 :: "string list" where
  "idt_lines_2 = [
   tab_c @ ''addq $16, %rsp'',
   tab_c @ ''iretq'',
   [],
   ''.section .qizo_data,'' @ dquote @ ''aw'' @ dquote,
   ''.balign 16'',
   ''.global qizo_idt'',
   ''.type qizo_idt, @object'',
   ''qizo_idt:'',
   tab_c @ ''.skip 256 * 16'',
   ''.global qizo_idt_ptr'',
   ''qizo_idt_ptr:'',
   tab_c @ ''.word 256 * 16 - 1'',
   tab_c @ ''.quad qizo_idt'',
   [],
   ''.balign 16'',
   ''qizo_gdt:'',
   tab_c @ ''.byte 0x00, 0x00, 0x00, 0x00, 0x00, 0x00, 0x00, 0x00'',
   tab_c @ ''.byte 0xff, 0xff, 0x00, 0x00, 0x00, 0x9a, 0xaf, 0x00'',
   tab_c @ ''.byte 0xff, 0xff, 0x00, 0x00, 0x00, 0x92, 0xcf, 0x00'',
   tab_c @ ''.byte 0xff, 0xff, 0x00, 0x00, 0x00, 0x9a, 0xcf, 0x00'',
   tab_c @ ''.byte 0xff, 0xff, 0x00, 0x00, 0x00, 0x92, 0xcf, 0x00'',
   [],
   ''qizo_gdt_end:'',
   [],
   ''qizo_gdt_ptr:'',
   tab_c @ ''.word qizo_gdt_end - qizo_gdt - 1'',
   tab_c @ ''.quad qizo_gdt'',
   [],
   ''.balign 16'',
   ''qizo_fp_area:'',
   tab_c @ ''.skip 512'',
   [],
   ''.section .qizo_text,'' @ dquote @ ''ax'' @ dquote,
   ''.code64'',
   [],
   ''.global qizo_gdt_install'',
   ''.type qizo_gdt_install, @function'',
   ''qizo_gdt_install:'',
   tab_c @ ''leaq qizo_gdt_ptr(%rip), %rax'',
   tab_c @ ''lgdt (%rax)'',
   tab_c @ ''movw $0x10, %ax'',
   tab_c @ ''movw %ax, %ds'',
   tab_c @ ''movw %ax, %es'',
   tab_c @ ''movw %ax, %ss'',
   tab_c @ ''movw %ax, %fs'',
   tab_c @ ''movw %ax, %gs'',
   tab_c @ ''leaq qizo_gdt_reload(%rip), %rax'',
   tab_c @ ''pushq $0x08'',
   tab_c @ ''pushq %rax'',
   tab_c @ ''lretq'',
   ''qizo_gdt_reload:'',
   tab_c @ ''ret'',
   ''.size qizo_gdt_install, . - qizo_gdt_install'',
   [],
   ''.global qizo_idt_install'',
   ''.type qizo_idt_install, @function'',
   ''qizo_idt_install:'',
   tab_c @ ''leaq qizo_stub_table(%rip), %rsi'',
   tab_c @ ''leaq qizo_idt(%rip), %rdi'',
   tab_c @ ''movl $256, %ecx'',
   [],
   ''1:'',
   tab_c @ ''movq (%rsi), %rax'',
   tab_c @ ''movw %ax, (%rdi)'',
   tab_c @ ''movw $0x0008, 2(%rdi)'',
   tab_c @ ''movw $0x8E00, 4(%rdi)'',
   tab_c @ ''shrq $16, %rax'',
   tab_c @ ''movw %ax, 6(%rdi)'',
   tab_c @ ''shrq $16, %rax'',
   tab_c @ ''movl %eax, 8(%rdi)'',
   tab_c @ ''movl $0, 12(%rdi)'',
   tab_c @ ''addq $8, %rsi'',
   tab_c @ ''addq $16, %rdi'',
   tab_c @ ''decl %ecx'',
   tab_c @ ''jnz 1b'',
   tab_c @ ''leaq qizo_idt_ptr(%rip), %rax'',
   tab_c @ ''lidt (%rax)'',
   tab_c @ ''ret'',
   ''.size qizo_idt_install, . - qizo_idt_install'']"

definition idt_lines :: "string list" where
  "idt_lines = idt_lines_1 @ idt_lines_2"

end
