(* ===== verification/Qizo_Repo.thy ===== *)
theory Qizo_Repo
  imports Qizo_Test Qizo_Sources
begin

text \<open>
  The tools on the repository's own sources: what the searches of \<^verbatim>\<open>qizobootmodel.py\<close>, \<^verbatim>\<open>qizoasmrun.py\<close> and \<^verbatim>\<open>qizotest.py\<close> find in
  the texts of \<open>Qizo_Sources\<close>. The texts are read once, line by line (\<open>scan\<close>, evaluated on pieces of about a hundred lines);
  the lemmas carry what every line satisfies over to the searches in the whole text, whose patterns never span a line.
\<close>

section \<open>Reading line by line\<close>

fun starts :: "string \<Rightarrow> string \<Rightarrow> bool" where
  "starts [] s = True"
| "starts (p # ps) [] = False"
| "starts (p # ps) (c # s) = (if p = c then starts ps s else False)"

fun scan :: "(string \<Rightarrow> bool) \<Rightarrow> string \<Rightarrow> bool" where
  "scan P [] = True"
| "scan P (c # s) = (if P (c # s) then scan P s else False)"

lemma starts_take: "starts p s \<longleftrightarrow> take (length p) s = p"
  by (induction p s rule: starts.induct) auto

lemma starts_section: "starts ''.section'' s \<longleftrightarrow> take 8 s = ''.section''"
proof -
  have "length ''.section'' = 8" by simp
  then show ?thesis unfolding starts_take by metis
qed

lemma scan_suffix: "scan P (u @ t) \<Longrightarrow> t \<noteq> [] \<Longrightarrow> P t"
proof (induction u)
  case Nil
  then show ?case by (cases t) (auto split: if_splits)
qed (auto split: if_splits)

lemma starts_line: "CHR 0x0A \<notin> set p \<Longrightarrow> starts p (t @ nl @ r) \<longleftrightarrow> starts p t"
proof (induction p arbitrary: t)
  case (Cons c p)
  then show ?case by (cases t) (auto simp: nl_def)
qed simp

lemma file_text_simps [simp]: "file_text [] = []" "file_text (l # ls) = l @ nl @ file_text ls" "file_text (xs @ ys) = file_text xs @ file_text ys"
  by (simp_all add: file_text_def)

lemma file_text_suffix:
  "file_text ls = u @ t \<Longrightarrow> t \<noteq> [] \<Longrightarrow> \<exists>l ys v w. l \<in> set ls \<and> l = v @ w \<and> t = w @ nl @ file_text ys"
proof (induction ls arbitrary: u)
  case (Cons l ls)
  have e: "u @ t = l @ nl @ file_text ls" using Cons.prems(1) by simp
  show ?case
  proof (cases "length u \<le> length l")
    case True
    then obtain w where "l = u @ w" "t = w @ nl @ file_text ls" using e by (auto simp: append_eq_append_conv2)
    then show ?thesis by auto
  next
    case False
    then obtain u' where "u = l @ nl @ u'" using e by (cases "drop (length l) u") (auto simp: append_eq_append_conv2 nl_def Cons_eq_append_conv)
    then have "file_text ls = u' @ t" using e by simp
    then show ?thesis using Cons.IH [of u'] Cons.prems(2) by fastforce
  qed
qed simp

text \<open>A property of all spots of all lines, as far as it is not affected by what follows the line.\<close>

lemma spots_in_text:
  assumes "list_all (scan P) ls" "P' [] " "\<And>w r. P w \<Longrightarrow> P' w" "\<And>w r. P' (w @ nl @ r) \<longleftrightarrow> P' w" "file_text ls = u @ t" "t \<noteq> []"
  shows "P' t"
proof -
  obtain l ys v w where l: "l \<in> set ls" "l = v @ w" "t = w @ nl @ file_text ys" using file_text_suffix [OF assms(5,6)] by blast
  have "P' w"
  proof (cases w)
    case (Cons c w')
    then have "P w" using scan_suffix [of P v w] l(1,2) assms(1) by (auto simp: list_all_iff)
    then show ?thesis by (rule assms(3))
  qed (simp add: assms(2))
  then show ?thesis unfolding l(3) assms(4) .
qed

text \<open>The searches.\<close>

definition free_of :: "string \<Rightarrow> string \<Rightarrow> bool" where
  "free_of p s \<longleftrightarrow> (\<forall>u t. s = u @ t \<longrightarrow> t \<noteq> [] \<longrightarrow> \<not> starts p t)"

lemma free_of_Cons: "free_of p (c # s) \<Longrightarrow> \<not> starts p (c # s) \<and> free_of p s"
  unfolding free_of_def by (metis append_Cons append_Nil list.distinct(1))

lemma re_search_free: "free_of pre s \<Longrightarrow> re_search pre stop post s = None"
proof (induction s)
  case (Cons c s)
  then show ?case using free_of_Cons [OF Cons.prems] by (simp add: starts_take)
qed simp

lemma str_find_free: "free_of p s \<Longrightarrow> p \<noteq> [] \<Longrightarrow> str_find p s = None"
proof (induction s)
  case (Cons c s)
  then show ?case using free_of_Cons [OF Cons.prems(1)] by (simp add: starts_take)
qed simp

text \<open>A stretch \<open>s\<close> of a text none of whose spots starts a match.\<close>

definition skips :: "string \<Rightarrow> string \<Rightarrow> string \<Rightarrow> bool" where
  "skips p s r \<longleftrightarrow> (\<forall>u t. s = u @ t \<longrightarrow> t \<noteq> [] \<longrightarrow> \<not> starts p (t @ r))"

lemma skips_Cons: "skips p (c # s) r \<Longrightarrow> \<not> starts p (c # s @ r) \<and> skips p s r"
  unfolding skips_def by (metis append_Cons append_Nil list.distinct(1))

lemma re_search_skip: "skips pre s r \<Longrightarrow> re_search pre stop post (s @ r) = re_search pre stop post r"
proof (induction s)
  case (Cons c s)
  then show ?case using skips_Cons [OF Cons.prems] by (simp add: starts_take)
qed simp

lemma count_skip_skips: "skips sub s r \<Longrightarrow> count_skip sub 0 (s @ r) = count_skip sub 0 r"
proof (induction s)
  case (Cons c s)
  then show ?case using skips_Cons [OF Cons.prems] by (simp add: starts_take)
qed simp

lemma count_skip_over: "count_skip sub (length w) (w @ r) = count_skip sub 0 r"
  by (induction w) auto

lemma count_skip_match: "sub \<noteq> [] \<Longrightarrow> count_skip sub 0 (sub @ r) = 1 + count_skip sub 0 r"
proof -
  assume "sub \<noteq> []"
  then obtain c w where "sub = c # w" by (cases sub) auto
  then show ?thesis using count_skip_over [of sub w r] by simp
qed

lemma free_skips: "skips p s [] \<longleftrightarrow> free_of p s"
  by (simp add: skips_def free_of_def)

text \<open>A line free of a pattern leaves the text free of it.\<close>

lemma file_text_free:
  assumes "list_all (scan (\<lambda>t. \<not> starts p t)) ls" "CHR 0x0A \<notin> set p" "p \<noteq> []"
  shows "free_of p (file_text ls)"
  unfolding free_of_def
proof (intro allI impI)
  fix u t assume "file_text ls = u @ t" "t \<noteq> []"
  moreover have "\<not> starts p []" using assms(3) by (cases p) simp_all
  ultimately show "\<not> starts p t"
    using spots_in_text [OF assms(1), of "\<lambda>t. \<not> starts p t" u t] starts_line [OF assms(2)] by blast
qed

lemma scan_mono: "scan P s \<Longrightarrow> (\<And>t. P t \<Longrightarrow> Q t) \<Longrightarrow> scan Q s"
  by (induction s) (auto split: if_splits)

lemma file_text_skips:
  assumes "list_all (scan (\<lambda>t. \<not> starts p t)) ls" "CHR 0x0A \<notin> set p" "p \<noteq> []"
  shows "skips p (file_text ls) r"
  unfolding skips_def
proof (intro allI impI)
  fix u t assume t: "file_text ls = u @ t" "t \<noteq> []"
  then obtain l ys v w where "t = w @ nl @ file_text ys" by (blast dest: file_text_suffix)
  then have "starts p (t @ r) \<longleftrightarrow> starts p t" using starts_line [OF assms(2)] by simp
  then show "\<not> starts p (t @ r)" using file_text_free [OF assms] t by (auto simp: free_of_def)
qed

section \<open>The section test\<close>

lemma findall_mem: "x \<in> set (findall m k bol s) \<Longrightarrow> \<exists>u t b n. s = u @ t \<and> t \<noteq> [] \<and> m b t = Some (x, n)"
proof (induction m k bol s rule: findall.induct)
  case (2 m k bol c s)
  then show ?case by (metis append_Cons findall.simps(2))
next
  case (3 m bol c s)
  have step: "\<exists>u t b n. c # s = u @ t \<and> t \<noteq> [] \<and> m b t = Some (x, n)" if "\<exists>u t b n. s = u @ t \<and> t \<noteq> [] \<and> m b t = Some (x, n)"
    using that by (metis append_Cons)
  show ?case
  proof (cases "m bol (c # s)")
    case None
    then show ?thesis using 3 step by simp
  next
    case (Some r)
    obtain name n where r: "r = (name, n)" by (cases r)
    show ?thesis
    proof (cases "x = name")
      case True
      then show ?thesis using Some r by (intro exI [of _ "[]"] exI [of _ "c # s"]) auto
    next
      case False
      then show ?thesis using 3(2) [OF Some r [symmetric]] 3(3) Some r step by simp
    qed
  qed
qed simp

text \<open>What is read off a line at each of its spots: no newline is there, no word of \<open>ps\<close> starts there, and a \<open>.section\<close> is followed by its operand on
  the same line, a name of the pattern being one of \<open>names\<close>.\<close>

definition use_ok :: "string list \<Rightarrow> string \<Rightarrow> bool" where
  "use_ok names t =
     (let r1 = dropWhile is_ws (drop 8 t) in
      r1 \<noteq> [] \<and> (case section_name r1 of None \<Rightarrow> True | Some name \<Rightarrow> name \<in> set names))"

definition spot_ok :: "string list \<Rightarrow> string list \<Rightarrow> string \<Rightarrow> bool" where
  "spot_ok names ps t =
     (if list_ex (\<lambda>p. starts p t) ps then False else if starts ''.section'' t then use_ok names t else hd t \<noteq> CHR 0x0A)"

lemma nl_not_ident: "\<not> is_ident (CHR 0x0A)" by (simp add: is_ident_def)

lemma takeWhile_line: "\<not> P c \<Longrightarrow> takeWhile P (w @ c # r) = takeWhile P w"
  by (induction w) auto

lemma section_name_line: "section_name (w @ nl @ r) = section_name w"
proof (cases "length w \<le> 5")
  case True
  then have "take 6 (w @ nl @ r) \<noteq> ''.qizo_''" "take 6 w \<noteq> ''.qizo_''"
  proof -
    have "length w < 6" using True by simp
    then have "take 6 (w @ nl @ r) ! length w = CHR 0x0A" by (simp add: nl_def nth_append)
    moreover have "''.qizo_'' ! k \<noteq> CHR 0x0A" if "k < 6" for k
      using that by (auto simp: less_Suc_eq numeral_eq_Suc)
    ultimately show "take 6 (w @ nl @ r) \<noteq> ''.qizo_''" using \<open>length w < 6\<close> by metis
    show "take 6 w \<noteq> ''.qizo_''" using True by (auto dest: arg_cong [of _ _ length])
  qed
  then show ?thesis by (simp add: section_name_def)
next
  case False
  then show ?thesis by (simp add: section_name_def nl_def takeWhile_line nl_not_ident Let_def)
qed

lemma use_of_line:
  assumes "spot_ok names ps w" "section_use b (w @ nl @ r) = Some (x, n)"
  shows "x \<in> set names"
proof -
  have "take 8 (w @ nl @ r) = ''.section''" using assms(2) by (auto simp: section_use_def Let_def simp del: take_append split: if_splits)
  then have s: "starts ''.section'' w" using starts_line [of "''.section''" w r] unfolding starts_section by simp
  have "length (take 8 w) = 8" unfolding s [unfolded starts_section] by simp
  then have d: "drop 8 (w @ nl @ r) = drop 8 w @ nl @ r" by simp
  have u: "dropWhile is_ws (drop 8 w) \<noteq> []" "section_name (dropWhile is_ws (drop 8 w)) = Some y \<longrightarrow> y \<in> set names" for y
    using assms(1) s by (auto simp: spot_ok_def use_ok_def Let_def split: if_splits)
  have e: "dropWhile is_ws (drop 8 w @ nl @ r) = dropWhile is_ws (drop 8 w) @ nl @ r"
    using u(1) by (auto simp: dropWhile_append dropWhile_eq_Nil_conv)
  show ?thesis using assms(2) u(2) unfolding section_use_def d Let_def e section_name_line
    by (auto split: if_splits option.splits)
qed

lemma used_sections:
  assumes "list_all (scan (spot_ok names ps)) ls"
  shows "set (findall section_use 0 True (file_text ls)) \<subseteq> set names"
proof
  fix x assume "x \<in> set (findall section_use 0 True (file_text ls))"
  then obtain u t b n where t: "file_text ls = u @ t" "t \<noteq> []" "section_use b t = Some (x, n)" using findall_mem by meson
  obtain l ys v w where l: "l \<in> set ls" "l = v @ w" "t = w @ nl @ file_text ys" using file_text_suffix [OF t(1,2)] by blast
  have "section_use b ([] @ nl @ file_text ys) = None" by (simp add: section_use_def nl_def Let_def)
  then have "w \<noteq> []" using t(3) l(3) by auto
  then have "spot_ok names ps w" using scan_suffix [of "spot_ok names ps" v w] l(1,2) assms by (auto simp: list_all_iff)
  then show "x \<in> set names" using use_of_line t(3) unfolding l(3) by blast
qed

lemma spots_nl: "list_all (scan (spot_ok names ps)) ls \<Longrightarrow> \<forall>l \<in> set ls. CHR 0x0A \<notin> set l"
proof
  fix l assume a: "list_all (scan (spot_ok names ps)) ls" "l \<in> set ls"
  show "CHR 0x0A \<notin> set l"
  proof
    assume "CHR 0x0A \<in> set l"
    then obtain u v where "l = u @ CHR 0x0A # v" by (meson split_list)
    then have "spot_ok names ps (CHR 0x0A # v)" using a scan_suffix [of "spot_ok names ps" u "CHR 0x0A # v"] by (auto simp: list_all_iff)
    then show False by (auto simp: spot_ok_def split: if_splits)
  qed
qed

lemma skips_spots:
  assumes "list_all (scan (spot_ok names ps)) ls" "p \<in> set ps" "CHR 0x0A \<notin> set p" "p \<noteq> []"
  shows "skips p (file_text ls) r"
proof (rule file_text_skips)
  show "list_all (scan (\<lambda>t. \<not> starts p t)) ls"
    using assms(1) by (rule list.pred_mono_strong) (auto elim!: scan_mono simp: spot_ok_def list_ex_iff assms(2) split: if_splits)
qed (use assms in auto)

section \<open>The texts\<close>

definition stage1_names :: "string list" where
  "stage1_names = [''.qizo_boot'', ''.qizo_data'', ''.qizo_sig'']"

definition stage2_names :: "string list" where
  "stage2_names = [''.qizo_boot'', ''.qizo_pm32'', ''.qizo_long64'', ''.qizo_aux'', ''.qizo_fault'']"

lemma placed_sections:
  "findall section_place 0 True (file_text stage1_ld_lines) = stage1_names"
  "findall section_place 0 True (file_text stage2_ld_lines) = stage2_names"
  by code_simp+

lemma stage1_spots: "list_all (scan (spot_ok stage1_names [])) stage1_lines_1" "list_all (scan (spot_ok stage1_names [])) stage1_lines_2"
  by code_simp+

lemma stage2_spots_a:
  "list_all (scan (spot_ok stage2_names [''addl $('', ''addl $QIZO_QIZOK_HDR''])) stage2_lines_1"
  "list_all (scan (spot_ok stage2_names [''addl $('', ''addl $QIZO_QIZOK_HDR''])) stage2_lines_2"
  "list_all (scan (spot_ok stage2_names [''addl $('', ''addl $QIZO_QIZOK_HDR''])) stage2_lines_3"
  "list_all (scan (spot_ok stage2_names [''addl $('', ''addl $QIZO_QIZOK_HDR''])) stage2_lines_4"
  by code_simp+

lemma stage2_spots_b:
  "list_all (scan (spot_ok stage2_names [''addl $(''])) stage2_lines_5"
  "list_all (scan (spot_ok stage2_names [''addl $(''])) stage2_lines_6"
  "list_all (scan (spot_ok stage2_names [''addl $(''])) stage2_lines_7"
  "list_all (scan (spot_ok stage2_names [''addl $(''])) stage2_lines_8"
  by code_simp+

lemma stage1_spots_all: "list_all (scan (spot_ok stage1_names [])) stage1_lines"
  using stage1_spots by (simp add: stage1_lines_def)

lemma main_c_spots:
  "list_all (scan (spot_ok [] [''qizo_paging_setup''])) main_c_lines_1"
  "list_all (scan (spot_ok [] [''qizo_paging_setup''])) main_c_lines_2"
  "list_all (scan (spot_ok [] [''qizo_paging_setup''])) main_c_lines_3"
  by code_simp+

lemma boot64_call: "boot64_lines_1 ! 29 = tab_c @ ''call qizo_paging_setup''" "length boot64_lines_1 = 93"
  by code_simp+

lemma boot64_spots:
  "list_all (scan (spot_ok [''.qizo_text'', ''.qizo_bss''] [''call qizo_paging_setup''])) (take 29 boot64_lines_1)"
  "list_all (scan (spot_ok [''.qizo_text'', ''.qizo_bss''] [''call qizo_paging_setup''])) (drop 30 boot64_lines_1)"
  "list_all (scan (spot_ok [''.qizo_text'', ''.qizo_bss''] [''call qizo_paging_setup''])) boot64_lines_2"
  by code_simp+

lemma boot64_once: "count_skip ''call qizo_paging_setup'' 0 (file_text boot64_lines) = 1"
proof -
  let ?p = "''call qizo_paging_setup''"
  have p: "?p \<in> set [?p]" "CHR 0x0A \<notin> set ?p" "?p \<noteq> []" by simp_all
  let ?rest = "drop 30 boot64_lines_1 @ boot64_lines_2"
  have r: "skips ?p (file_text ?rest) []"
    using boot64_spots(2,3) by (intro skips_spots [OF _ p]) simp
  have n: "skips ?p nl (file_text ?rest)" by (auto simp: skips_def nl_def Cons_eq_append_conv)
  have t: "skips ?p tab_c (?p @ nl @ file_text ?rest)" by (auto simp: skips_def tab_c_def Cons_eq_append_conv)
  have l: "boot64_lines = take 29 boot64_lines_1 @ (tab_c @ ?p) # ?rest"
    using id_take_nth_drop [of 29 boot64_lines_1] boot64_call by (simp add: boot64_lines_def)
  have "count_skip ?p 0 (file_text boot64_lines) = count_skip ?p 0 (file_text (take 29 boot64_lines_1) @ tab_c @ ?p @ nl @ file_text ?rest)"
    unfolding l file_text_simps append_assoc ..
  also have "\<dots> = count_skip ?p 0 (?p @ nl @ file_text ?rest)"
    unfolding count_skip_skips [OF skips_spots [OF boot64_spots(1) p]] count_skip_skips [OF t] ..
  also have "\<dots> = 1 + count_skip ?p 0 (file_text ?rest)"
    unfolding count_skip_match [OF p(3)] count_skip_skips [OF n] ..
  also have "\<dots> = 1" using count_skip_skips [OF r] by simp
  finally show ?thesis .
qed

lemma spots_fewer:
  "list_all (scan (spot_ok names ps)) ls \<Longrightarrow> set qs \<subseteq> set ps \<Longrightarrow> list_all (scan (spot_ok names qs)) ls"
  by (erule list.pred_mono_strong, erule scan_mono) (auto simp: spot_ok_def list_ex_iff split: if_splits)

lemma stage2_spots: "list_all (scan (spot_ok stage2_names [''addl $(''])) stage2_lines"
  using stage2_spots_a [THEN spots_fewer, of "[''addl $('']"] stage2_spots_b by (simp add: stage2_lines_def)

lemma main_c_free: "str_find ''qizo_paging_setup'' (file_text main_c_lines) = None"
proof -
  have "list_all (scan (spot_ok [] [''qizo_paging_setup''])) main_c_lines" using main_c_spots by (simp add: main_c_lines_def)
  then have "free_of ''qizo_paging_setup'' (file_text main_c_lines)" unfolding free_skips [symmetric] by (rule skips_spots) simp_all
  then show ?thesis by (rule str_find_free) simp
qed

lemma stage2_free: "re_search ''addl $('' stop post (file_text stage2_lines) = None"
proof -
  have "free_of ''addl $('' (file_text stage2_lines)" unfolding free_skips [symmetric] by (rule skips_spots [OF stage2_spots]) simp_all
  then show ?thesis by (rule re_search_free)
qed

lemma stage2_hdr: "re_search ''addl $QIZO_QIZOK_HDR'' (CHR '','') '', %esi'' (file_text stage2_lines) = Some []"
proof -
  let ?p = "''addl $QIZO_QIZOK_HDR''"
  have "list_all (scan (spot_ok stage2_names [''addl $('', ?p])) (stage2_lines_1 @ stage2_lines_2 @ stage2_lines_3 @ stage2_lines_4)"
    using stage2_spots_a by simp
  then have a: "skips ?p (file_text (stage2_lines_1 @ stage2_lines_2 @ stage2_lines_3 @ stage2_lines_4)) r" for r by (rule skips_spots) simp_all
  obtain ls where l: "stage2_lines_5 = (tab_c @ ''addl $QIZO_QIZOK_HDR, %esi'') # ls" by (simp add: stage2_lines_5_def)
  have "re_search ?p (CHR '','') '', %esi'' (file_text stage2_lines) =
      re_search ?p (CHR '','') '', %esi'' (file_text (stage2_lines_5 @ stage2_lines_6 @ stage2_lines_7 @ stage2_lines_8))"
    using re_search_skip [OF a, of "CHR '',''" "'', %esi''"] by (simp add: stage2_lines_def)
  then show ?thesis unfolding l by (simp add: tab_c_def)
qed

lemma copy_offset_stage2: "copy_offset ev (file_text stage2_lines) = ev LAYOUT ''QIZO_QIZOK_HDR''"
proof -
  have "map (\<lambda>c. if c = CHR '' '' then CHR ''+'' else c) (strip_ws ''QIZO_QIZOK_HDR'') = ''QIZO_QIZOK_HDR''" by code_simp
  then show ?thesis by (simp add: copy_offset_def stage2_free stage2_hdr)
qed

section \<open>Properties\<close>

text \<open>The sources the test driver opens.\<close>

definition repo_sources :: sources where
  "repo_sources = \<lparr>stage1_S = file_text stage1_lines, stage1_ld = file_text stage1_ld_lines, stage2_S = file_text stage2_lines,
     stage2_ld = file_text stage2_ld_lines, main_c = file_text main_c_lines, boot64_S = file_text boot64_lines\<rparr>"

text \<open>C14: the unit tests pass on the repository's own sources, whatever the seeded generators draw: no check fails, no exception is
  raised, and the exit status is 0.\<close>

theorem unit_tests_pass: "qizotest draw repo_sources = Inr ([], 0)"
proof -
  obtain fails status where q: "qizotest draw repo_sources = Inr (fails, status)"
    and e: "status = 0 \<longleftrightarrow> fails = []" and s: "status = 0"
    using qizotest_spec [of draw repo_sources] used_sections [OF stage1_spots_all] used_sections [OF stage2_spots]
      main_c_free boot64_once by (auto simp: repo_sources_def placed_sections)
  then show ?thesis by simp
qed

text \<open>A lookup that stands for Python's \<open>eval\<close> of a name.\<close>

definition name_eval :: "(string \<times> int) list \<Rightarrow> string \<Rightarrow> int res" where
  "name_eval vals e = (case map_of vals e of Some v \<Rightarrow> Inr v | None \<Rightarrow> Inl (KeyError e))"

lemma name_eval_names: "map_of vals name = Some v \<Longrightarrow> name_eval vals name = Inr v"
  by (simp add: name_eval_def)

lemma copy_offset_64:
  assumes "\<And>name v. map_of LAYOUT name = Some v \<Longrightarrow> ev LAYOUT name = Inr v"
  shows "copy_offset ev (file_text stage2_lines) = Inr 64"
proof -
  have "map_of LAYOUT ''QIZO_QIZOK_HDR'' = Some 64" by code_simp
  from assms [OF this] show ?thesis by (simp add: copy_offset_stage2)
qed

text \<open>C1: with the stage2 source of the repository, an image the builder makes from a compressed kernel boots in the model, when
  the inputs meet what the builder itself does not enforce or cannot write: the stage1 template is at most one sector with a clear
  argument block, stage2 fits its eight sectors, the symbols describe the kernel file with the entry inside it and the module within
  the limits of its header, the label is ASCII, and the chosen layout is FAT16 with fewer than 65552 sectors. Then every
  check of the boot path passes, the kernel ends up byte for byte at its load address with zeroed bss behind it, and stage2 is in
  memory where stage1 jumps to. Of Python's \<open>eval\<close> only that a name evaluates to its value is used.\<close>

theorem mkqizoimg_boots:
  assumes "prepare_stage1 (m_stage1 args) = Inr s1" "length (m_stage1 args) \<le> 512"
    and "length (m_stage2 args) \<le> STAGE2_BYTES"
    and "module_info_of args = Inr mi" "header_fits mi" "entry_off mi < klen mi"
    and "\<not> m_raw args" "make_blob False (header_bytes mi @ m_kernel args) = Inr blob"
    and "choose_layout (m_image_sectors args) (length blob div SECTOR) = Inr (tot, lay)" "bits lay = 16" "tot < 65552"
    and "ascii (m_label args)" "\<And>name v. map_of LAYOUT name = Some v \<Longrightarrow> ev LAYOUT name = Inr v"
  shows "\<exists>img m. mkqizoimg args = Inr img \<and> bootmodel ev (file_text stage2_lines) img (m_kernel args) = Inr () \<and>
    boot ev (file_text stage2_lines) img = Inr (m, length (m_kernel args), nat (entry_off mi), nat (img_total mi)) \<and>
    mem_read m KTEXT (length (m_kernel args)) = m_kernel args \<and>
    mem_read m (KTEXT + length (m_kernel args)) (nat (img_total mi) - length (m_kernel args)) =
      zeros (nat (img_total mi) - length (m_kernel args)) \<and>
    mem_read m STAGE2 STAGE2_BYTES = ljust STAGE2_BYTES 0 (m_stage2 args)"
  by (rule mkqizoimg_boots_at [OF assms(1-12) copy_offset_64]) (rule assms(13))

theorem mkqizoimg_boots_witness:
  "\<exists>img. mkqizoimg tiny_args = Inr img \<and> bootmodel name_eval (file_text stage2_lines) img [0xF4, 0xEB, 0xFD] = Inr ()"
proof -
  obtain blob tot lay where l: "make_blob False (header_bytes tiny_info @ m_kernel tiny_args) = Inr blob"
    "choose_layout (m_image_sectors tiny_args) (length blob div SECTOR) = Inr (tot, lay)" "bits lay = 16" "tot < 65552"
    using tiny_layout by blast
  have k: "m_kernel tiny_args = [0xF4, 0xEB, 0xFD]" by (simp add: tiny_args_def)
  from mkqizoimg_boots [where ev = name_eval, OF tiny_ok(1-4) tiny_header tiny_ok(6) l tiny_ok(8) name_eval_names [of LAYOUT]]
  show ?thesis unfolding k by blast
qed

text \<open>C4: with the stage2 source of the repository, an image the checker accepts boots in the model, with the kernel file of its own
  volume, when its blob is compressed and spans at most 248 sectors.\<close>

theorem checked_image_boots:
  assumes "check args = Inr Pass" "unpack_le 4 (c_image args) (BLOB_LBA * SECTOR) = Inr LY_LZSS_MAGIC"
    and "unpack_le 2 (c_image args) (STAGE1_ARGS_OFF + 8) = Inr t" "t \<le> STAGE2_SECTORS + 248"
    and "\<And>name v. map_of LAYOUT name = Some v \<Longrightarrow> ev LAYOUT name = Inr v"
  shows "\<exists>kern. check_fs (c_image args) kern = Inr Pass \<and> holds_file (c_image args) ''KERNEL.BIN'' kern \<and>
    bootmodel ev (file_text stage2_lines) (c_image args) kern = Inr ()"
proof -
  have "\<exists>kern. check_fs (c_image args) kern = Inr Pass \<and> bootmodel ev (file_text stage2_lines) (c_image args) kern = Inr ()"
    by (rule checked_image_boots_at [OF assms(1-4) copy_offset_64]) (rule assms(5))
  then show ?thesis using check_fs_holds by blast
qed

theorem checked_image_boots_witness:
  "\<exists>img kern. mkqizoimg tiny_args = Inr img \<and> check_fs img kern = Inr Pass \<and>
     bootmodel name_eval (file_text stage2_lines) img kern = Inr ()"
proof -
  obtain img where i: "mkqizoimg tiny_args = Inr img"
    and ok: "check \<lparr>c_image = img, c_stage1 = None, c_stage2 = None, c_kernel_nm = None, c_iso = None, c_objdump = None\<rparr> = Inr Pass"
    using tiny_checked by blast
  obtain n out entry tot where b: "bootable img n out entry tot" using tiny_bootable i by auto
  then have n: "unpack_le 2 img 472 = Inr (8 + n)" "n \<le> 248" "0 < n" "(24 + n) * 512 \<le> length img"
    and d: "decompress (bslice 12288 (12288 + n * 512) img) = Inr out"
    unfolding bootable_def by blast+
  have "unpack_le 4 img 12288 = Inr LY_LZSS_MAGIC"
    using decompress_magic [OF d] n(3,4) by (simp add: unpack_le_def bslice_bslice split: if_splits)
  with checked_image_boots [where ev = name_eval, OF ok _ _ _ name_eval_names [of LAYOUT], of "8 + n"] n(1,2) i show ?thesis
    by (auto simp: BLOB_LBA_def SECTOR_def STAGE1_ARGS_OFF_def STAGE2_SECTORS_def)
qed

end
