(* ===== verification/Qizo_RepoAsm.thy ===== *)
theory Qizo_RepoAsm
  imports Qizo_Repo
begin

text \<open>
  The stage2 assembly runner, \<^verbatim>\<open>tools/qizoasm/qizoasmrun.py\<close>, on the repository's own \<^verbatim>\<open>boot/stage2.S\<close> and \<^verbatim>\<open>kernel/idt.S\<close>:
  every label and every line its cuts look for is there, so each of the five programs is built.
\<close>

section \<open>Cuts that succeed\<close>

lemma split_nl_app: "CHR 0x0A \<notin> set l \<Longrightarrow> split_nl (l @ nl @ s) = l # split_nl s"
  by (induction l) (auto simp: nl_def)

lemma split_file_text: "\<forall>l \<in> set ls. CHR 0x0A \<notin> set l \<Longrightarrow> split_nl (file_text ls) = ls @ [[]]"
  by (induction ls) (auto simp: split_nl_app)

lemma split_join_nl: "\<forall>l \<in> set ls. CHR 0x0A \<notin> set l \<Longrightarrow> ls \<noteq> [] \<Longrightarrow> split_nl (join_nl ls) = ls"
proof (induction ls rule: join_nl.induct)
  case (2 l)
  then show ?case by (induction l) auto
qed (auto simp: split_nl_app)

lemma line_index_total: "l \<in> set ls \<Longrightarrow> strip_ws l = want \<Longrightarrow> \<exists>i. line_index want ls = Inr i"
  by (auto simp: line_index_def find_None_iff in_set_conv_nth split: option.splits)

lemma file_line_index:
  assumes "\<forall>l \<in> set ls. CHR 0x0A \<notin> set l" "l \<in> set ls" "strip_ws l = want"
  shows "\<exists>i. line_index want (split_nl (file_text ls)) = Inr i"
  using line_index_total [of l "ls @ [[]]" want] assms by (simp add: split_file_text)

lemma str_find_total: "\<exists>i \<le> length a. str_find sub (a @ sub @ b) = Some i"
proof (induction a)
  case Nil
  then show ?case by (cases sub) (cases b, auto)
next
  case (Cons c a)
  then show ?case by auto
qed

lemma str_index_total: "from \<le> length a \<Longrightarrow> \<exists>i. str_index sub (a @ sub @ b) from = Inr i \<and> from \<le> i \<and> i \<le> length a"
  using str_find_total [of "drop from a" sub b] by (auto simp: str_index_def)

text \<open>A stretch that shares no first character with what is replaced, nor holds one of its characters first, is kept.\<close>

lemma replace_copies: "old \<noteq> [] \<Longrightarrow> hd old \<notin> set m \<Longrightarrow> replace_str old new (m @ b) = m @ replace_str old new b"
proof (induction m)
  case (Cons c m)
  then have "take (length old) (c # m @ b) \<noteq> old" by (cases old) auto
  then show ?case using Cons by simp
qed simp

lemma replace_keeps:
  assumes "old \<noteq> []" "hd old \<notin> set m" "hd m \<notin> set old" "m \<noteq> []"
  shows "\<exists>a'. replace_str old new (a @ m @ b) = a' @ m @ replace_str old new b"
proof (induction "length a" arbitrary: a rule: less_induct)
  case less
  show ?case
  proof (cases a)
    case Nil
    then show ?thesis using replace_copies [OF assms(1,2), of new b] by (intro exI [of _ "[]"]) simp
  next
    case (Cons c a1)
    show ?thesis
    proof (cases "take (length old) (a @ m @ b) = old")
      case True
      have n: "length old \<le> length a"
      proof (rule ccontr)
        assume "\<not> length old \<le> length a"
        then have "old ! length a = hd m" "length a < length old"
          using arg_cong [OF True, of "\<lambda>l. l ! length a"] assms(4) by (auto simp: nth_append hd_conv_nth)
        then show False using assms(3) nth_mem by metis
      qed
      let ?a = "drop (length old - 1) a1"
      have l: "length old - 1 \<le> length a1" using n Cons by simp
      have "length ?a < length a" using Cons by simp
      then obtain a' where "replace_str old new (?a @ m @ b) = a' @ m @ replace_str old new b" using less by blast
      then show ?thesis using True l Cons by (intro exI [of _ "new @ a'"]) simp
    next
      case False
      obtain a' where "replace_str old new (a1 @ m @ b) = a' @ m @ replace_str old new b" using less [of a1] Cons by auto
      then show ?thesis using False Cons by (intro exI [of _ "c # a'"]) simp
    qed
  qed
qed

section \<open>The report program\<close>

definition report_stop :: string where
  "report_stop = ''hex16'' @ nl @ nl @ ''25:'' @ nl"

definition report_resume :: string where
  "report_resume = ''jmp 25b'' @ nl @ nl"

text \<open>The two stretches the cut of the report program looks for.\<close>

definition has_stops :: "string \<Rightarrow> bool" where
  "has_stops s \<longleftrightarrow> (\<exists>a b c. s = a @ report_stop @ b @ report_resume @ c)"

lemma replace_stops:
  assumes "has_stops s" "old \<noteq> []" "hd old \<notin> set (report_stop @ report_resume)" "CHR ''h'' \<notin> set old" "CHR ''j'' \<notin> set old"
  shows "has_stops (replace_str old new s)"
proof -
  obtain a b c where s: "s = a @ report_stop @ b @ report_resume @ c" using assms(1) by (auto simp: has_stops_def)
  have m: "report_stop \<noteq> []" "hd report_stop = CHR ''h''" "report_resume \<noteq> []" "hd report_resume = CHR ''j''"
    by (simp_all add: report_stop_def report_resume_def)
  obtain a' where "replace_str old new s = a' @ report_stop @ replace_str old new (b @ report_resume @ c)"
    unfolding s using replace_keeps [of old report_stop new a] assms m by auto
  moreover obtain b' where "replace_str old new (b @ report_resume @ c) = b' @ report_resume @ replace_str old new c"
    using replace_keeps [of old report_resume new b] assms m by auto
  ultimately show ?thesis unfolding has_stops_def by auto
qed

lemma stops_found:
  assumes "has_stops s"
  shows "\<exists>i j. str_index (nl @ ''25:'' @ nl) s 0 = Inr i \<and> str_index (nl @ nl) s (i + 1) = Inr j"
proof -
  obtain a b c where s: "s = a @ report_stop @ b @ report_resume @ c" using assms by (auto simp: has_stops_def)
  let ?a = "a @ ''hex16'' @ nl" and ?b = "a @ report_stop @ b @ ''jmp 25b''"
  have 1: "s = ?a @ (nl @ ''25:'' @ nl) @ b @ report_resume @ c" "s = ?b @ (nl @ nl) @ c"
    by (simp_all add: s report_stop_def report_resume_def)
  obtain i where i: "str_index (nl @ ''25:'' @ nl) s 0 = Inr i" "i \<le> length ?a"
    using str_index_total [of 0 ?a "nl @ ''25:'' @ nl" "b @ report_resume @ c"] unfolding 1(1) [symmetric] by auto
  then have "i + 1 \<le> length ?b" by (simp add: report_stop_def nl_def)
  then obtain j where "str_index (nl @ nl) s (i + 1) = Inr j"
    using str_index_total [of "i + 1" ?b "nl @ nl" c] unfolding 1(2) [symmetric] by auto
  with i(1) show ?thesis by blast
qed

lemma report_body_total:
  assumes "src = a @ ''.section .qizo_fault'' @ s" "has_stops s"
  shows "\<exists>body. report_body src = Inr body"
proof -
  obtain pos where p: "str_index ''.section .qizo_fault'' src 0 = Inr pos" "pos \<le> length a"
    using str_index_total [of 0 a "''.section .qizo_fault''" s] unfolding assms(1) by auto
  obtain x y z where "s = x @ report_stop @ y @ report_resume @ z" using assms(2) by (auto simp: has_stops_def)
  then have "drop pos src = (drop pos a @ ''.section .qizo_fault'' @ x) @ report_stop @ y @ report_resume @ z"
    using p(2) unfolding assms(1) by simp
  then have "has_stops (drop pos src)" unfolding has_stops_def by blast
  define b1 where "b1 = replace_str (''.section .qizo_fault,'' @ [CHR 0x22] @ ''ax'' @ [CHR 0x22]) [] (drop pos src)"
  define b2 where "b2 = replace_str (tab ''inb %dx, %al'') (tab ''movl $0x60, %eax'') b1"
  define b3 where "b3 = replace_str (tab ''outb %al, %dx'') (tab ''movb %al, (%rbx)'' @ nl @ tab ''incq %rbx'') b2"
  define b4 where "b4 = replace_str (tab ''movq %cr2, %r9'') (tab ''movq $0xdeadbeef, %r9'') b3"
  define b5 where "b5 = replace_str (tab ''cli'' @ nl) (tab ''nop'' @ nl) b4"
  define b6 where "b6 = replace_str (tab ''movq %cr2, %rdx'') (tab ''movq $0xdeadbeef, %rdx'') b5"
  note stops = report_stop_def report_resume_def tab_def nl_def
  have "has_stops b1" unfolding b1_def using \<open>has_stops (drop pos src)\<close> by (rule replace_stops) (simp_all add: stops)
  then have "has_stops b2" unfolding b2_def by (rule replace_stops) (simp_all add: stops)
  then have "has_stops b3" unfolding b3_def by (rule replace_stops) (simp_all add: stops)
  then have "has_stops b4" unfolding b4_def by (rule replace_stops) (simp_all add: stops)
  then have "has_stops b5" unfolding b5_def by (rule replace_stops) (simp_all add: stops)
  then have "has_stops b6" unfolding b6_def by (rule replace_stops) (simp_all add: stops)
  then obtain i j where "str_index (nl @ ''25:'' @ nl) b6 0 = Inr i" "str_index (nl @ nl) b6 (i + 1) = Inr j"
    using stops_found by blast
  then show ?thesis using p(1) unfolding report_body_def Let_def
    by (simp only: bindE_simps flip: b1_def b2_def b3_def b4_def b5_def b6_def) simp
qed

section \<open>The lines that are looked for\<close>

lemma stage2_labels:
  "stage2_lines_6 ! 61 = ''qizo_decompress:''" "length stage2_lines_6 = 107"
  "stage2_lines_7 ! 38 = ''decomp_ret:''" "stage2_lines_7 ! 54 = ''qizo_zero:''" "stage2_lines_7 ! 97 = ''fail_c1:''" "length stage2_lines_7 = 107"
  by code_simp+

lemma stage2_gates:
  "stage2_lines_5 ! 10 = tab ''movl $qizo_fstub_table, %esi''" "stage2_lines_5 ! 29 = tab ''lidt qizo_fidt_ptr''" "length stage2_lines_5 = 107"
  by code_simp+

lemma stage2_report:
  "bslice 18 19 stage2_lines_8 = [''.section .qizo_fault,'' @ dquote @ ''ax'' @ dquote]"
  "bslice 46 49 stage2_lines_8 = [tab ''call qizo_fault_hex16'', [], ''25:'']"
  "bslice 51 53 stage2_lines_8 = [tab ''jmp 25b'', []]"
  by code_simp+

lemma idt_labels:
  "idt_lines_1 ! 38 = ''qizo_isr_common:''" "length idt_lines_1 = 79"
  "idt_lines_2 ! 56 = ''qizo_idt_install:''" "idt_lines_2 ! 78 = ''.size qizo_idt_install, . - qizo_idt_install''" "length idt_lines_2 = 79"
  by code_simp+

lemma idt_nl: "\<forall>l \<in> set idt_lines. CHR 0x0A \<notin> set l"
proof -
  have "list_all (list_all (\<lambda>c. c \<noteq> CHR 0x0A)) idt_lines_1" "list_all (list_all (\<lambda>c. c \<noteq> CHR 0x0A)) idt_lines_2"
    by code_simp+
  then show ?thesis by (auto simp: idt_lines_def list_all_iff)
qed

lemma stage2_mem:
  "''qizo_decompress:'' \<in> set stage2_lines" "''decomp_ret:'' \<in> set stage2_lines" "''qizo_zero:'' \<in> set stage2_lines"
  "''fail_c1:'' \<in> set stage2_lines" "tab ''movl $qizo_fstub_table, %esi'' \<in> set stage2_lines" "tab ''lidt qizo_fidt_ptr'' \<in> set stage2_lines"
  using nth_mem [of 61 stage2_lines_6] nth_mem [of 38 stage2_lines_7] nth_mem [of 54 stage2_lines_7] nth_mem [of 97 stage2_lines_7]
    nth_mem [of 10 stage2_lines_5] nth_mem [of 29 stage2_lines_5]
  by (simp_all add: stage2_lines_def stage2_labels stage2_gates)

lemma idt_mem:
  "''qizo_isr_common:'' \<in> set idt_lines" "''qizo_idt_install:'' \<in> set idt_lines"
  "''.size qizo_idt_install, . - qizo_idt_install'' \<in> set idt_lines"
  using nth_mem [of 38 idt_lines_1] nth_mem [of 56 idt_lines_2] nth_mem [of 78 idt_lines_2]
  by (simp_all add: idt_lines_def idt_labels)

lemma strip_labels:
  "strip_ws ''qizo_decompress:'' = ''qizo_decompress:''" "strip_ws ''decomp_ret:'' = ''decomp_ret:''" "strip_ws ''qizo_zero:'' = ''qizo_zero:''"
  "strip_ws ''fail_c1:'' = ''fail_c1:''" "strip_ws ''qizo_isr_common:'' = ''qizo_isr_common:''"
  "strip_ws ''qizo_idt_install:'' = ''qizo_idt_install:''"
  "strip_ws ''.size qizo_idt_install, . - qizo_idt_install'' = ''.size qizo_idt_install, . - qizo_idt_install''"
  by code_simp+

lemma line_of_text: "l \<in> set ls \<Longrightarrow> \<exists>a b. file_text ls = a @ l @ b"
  by (drule split_list) (metis file_text_simps(2,3))

lemmas stage2_index = file_line_index [OF spots_nl [OF stage2_spots]]
lemmas idt_index = file_line_index [OF idt_nl]

lemma decompress_asm_total: "\<exists>asm. decompress_asm (file_text stage2_lines) outp inp = Inr asm"
proof -
  obtain x y where "line_index ''qizo_decompress:'' (split_nl (file_text stage2_lines)) = Inr x"
    "line_index ''decomp_ret:'' (split_nl (file_text stage2_lines)) = Inr y"
    using stage2_index [OF stage2_mem(1) strip_labels(1)] stage2_index [OF stage2_mem(2) strip_labels(2)] by blast
  then show ?thesis by (simp add: decompress_asm_def extract_text_def Let_def)
qed

lemma pages_asm_total: "\<exists>asm. pages_asm (file_text stage2_lines) dump = Inr asm"
proof -
  obtain x y where "line_index ''qizo_zero:'' (split_nl (file_text stage2_lines)) = Inr x"
    "line_index ''fail_c1:'' (split_nl (file_text stage2_lines)) = Inr y"
    using stage2_index [OF stage2_mem(3) strip_labels(3)] stage2_index [OF stage2_mem(4) strip_labels(4)] by blast
  then show ?thesis by (simp add: pages_asm_def extract_text_def Let_def)
qed

lemma idt_asm_total: "\<exists>asm. idt_asm (file_text idt_lines) dump = Inr asm"
proof -
  obtain x y z where "line_index ''qizo_isr_common:'' (split_nl (file_text idt_lines)) = Inr x"
    "line_index ''qizo_idt_install:'' (split_nl (file_text idt_lines)) = Inr y"
    "line_index ''.size qizo_idt_install, . - qizo_idt_install'' (split_nl (file_text idt_lines)) = Inr z"
    using idt_index [OF idt_mem(1) strip_labels(5)] idt_index [OF idt_mem(2) strip_labels(6)] idt_index [OF idt_mem(3) strip_labels(7)] by blast
  then show ?thesis by (simp add: idt_asm_def span_def Let_def)
qed

lemma fault_gates_asm_total: "\<exists>asm. fault_gates_asm (file_text stage2_lines) dump = Inr asm"
proof -
  have "\<exists>i. str_index l (file_text stage2_lines) 0 = Inr i" if "l \<in> set stage2_lines" for l
    using line_of_text [OF that] str_index_total [of 0 _ l] by (metis le0)
  then obtain x y where "str_index (tab ''movl $qizo_fstub_table, %esi'') (file_text stage2_lines) 0 = Inr x"
    "str_index (tab ''lidt qizo_fidt_ptr'') (file_text stage2_lines) 0 = Inr y"
    using stage2_mem(5,6) by meson
  then show ?thesis by (simp add: fault_gates_asm_def Let_def)
qed

lemma drop_piece: "i \<le> j \<Longrightarrow> drop i xs = bslice i j xs @ drop j xs"
  by (metis append_take_drop_id bslice_def drop_drop drop_take le_add_diff_inverse2)

lemma report_asm_total: "\<exists>asm. report_asm (file_text stage2_lines) dump = Inr asm"
proof -
  let ?l = stage2_lines_8
  have l: "?l = take 18 ?l @ bslice 18 19 ?l @ bslice 19 46 ?l @ bslice 46 49 ?l @ bslice 49 51 ?l @ bslice 51 53 ?l @ drop 53 ?l"
    using append_take_drop_id [of 18 ?l] drop_piece [of 18 19 ?l] drop_piece [of 19 46 ?l] drop_piece [of 46 49 ?l]
      drop_piece [of 49 51 ?l] drop_piece [of 51 53 ?l] by simp
  define a where "a = stage2_lines_1 @ stage2_lines_2 @ stage2_lines_3 @ stage2_lines_4 @ stage2_lines_5 @ stage2_lines_6 @ stage2_lines_7 @ take 18 ?l"
  define s where "s = '','' @ dquote @ ''ax'' @ dquote @ nl @ file_text (bslice 19 46 ?l) @ tab ''call qizo_fault_hex16'' @ nl @ nl @ ''25:'' @ nl @
    file_text (bslice 49 51 ?l) @ tab ''jmp 25b'' @ nl @ nl @ file_text (drop 53 ?l)"
  have e: "stage2_lines = a @ bslice 18 19 ?l @ bslice 19 46 ?l @ bslice 46 49 ?l @ bslice 49 51 ?l @ bslice 51 53 ?l @ drop 53 ?l"
    unfolding a_def append_assoc l [symmetric] by (simp add: stage2_lines_def)
  have "file_text stage2_lines = file_text a @ ''.section .qizo_fault'' @ s"
    unfolding e stage2_report by (simp add: s_def)
  moreover have "s = ('','' @ dquote @ ''ax'' @ dquote @ nl @ file_text (bslice 19 46 ?l) @ tab ''call qizo_fault_'') @ report_stop @
    (file_text (bslice 49 51 ?l) @ tab []) @ report_resume @ file_text (drop 53 ?l)"
    by (simp add: s_def report_stop_def report_resume_def tab_def)
  then have "has_stops s" unfolding has_stops_def by blast
  ultimately obtain body where "report_body (file_text stage2_lines) = Inr body" using report_body_total by blast
  then show ?thesis by (simp add: report_asm_def)
qed

section \<open>Properties\<close>

text \<open>C13: on the repository's \<^verbatim>\<open>stage2.S\<close> and \<^verbatim>\<open>idt.S\<close> every program of the runner is built, none of its cuts fails, and when the host runs
  them and each leaves what it is meant to (the reference module, page tables that pass, gates that pass, the fault report), the
  command exits with 0 for an image whose module starts with the serial marker.\<close>

theorem asmrun_complete:
  "\<exists>decomp pages idt report fidt.
     decompress_asm (file_text stage2_lines) (tmp @ ''/out.bin'') (tmp @ ''/in.bin'') = Inr decomp \<and>
     pages_asm (file_text stage2_lines) (tmp @ ''/tables.bin'') = Inr pages \<and> idt_asm (file_text idt_lines) (tmp @ ''/idt.bin'') = Inr idt \<and>
     report_asm (file_text stage2_lines) (tmp @ ''/report.txt'') = Inr report \<and> fault_gates_asm (file_text stage2_lines) (tmp @ ''/fidt.bin'') = Inr fidt \<and>
     (decompress (blob_of img) = Inr ref \<and> bslice QIZOK_HDR (QIZOK_HDR + 8) ref = entry_marker \<and>
      run_decomp decomp (blob_of img) = Inr (Ran ref) \<and>
      run32 ''pages'' pages = Inr (Ran tables) \<and> 0x6000 \<le> length tables \<and> check_tables tables = Inr [] \<and>
      run64 ''idt'' idt = Inr (Ran (nm_out, Inr gates)) \<and> sym_table nm_out = Inr syms \<and> check_idt syms gates = Inr [] \<and>
      run64 ''report'' report = Inr (Ran (nm_out2, Inr out)) \<and> sym_table nm_out2 = Inr syms2 \<and> take (length report_want) out = report_want \<and>
      run32 ''fidt'' fidt = Inr (Ran fgates) \<and> 512 \<le> length fgates \<and> check_fault_gates fgates [0..<32] = Inr []
      \<longrightarrow> asmrun run_decomp run32 run64 (file_text stage2_lines) (file_text idt_lines) tmp img = Inr 0)"
proof -
  obtain decomp pages idt report fidt where p:
    "decompress_asm (file_text stage2_lines) (tmp @ ''/out.bin'') (tmp @ ''/in.bin'') = Inr decomp"
    "pages_asm (file_text stage2_lines) (tmp @ ''/tables.bin'') = Inr pages" "idt_asm (file_text idt_lines) (tmp @ ''/idt.bin'') = Inr idt"
    "report_asm (file_text stage2_lines) (tmp @ ''/report.txt'') = Inr report" "fault_gates_asm (file_text stage2_lines) (tmp @ ''/fidt.bin'') = Inr fidt"
    using decompress_asm_total pages_asm_total idt_asm_total report_asm_total fault_gates_asm_total by meson
  have "asmrun run_decomp run32 run64 (file_text stage2_lines) (file_text idt_lines) tmp img = Inr 0"
    if "decompress (blob_of img) = Inr ref" "bslice QIZOK_HDR (QIZOK_HDR + 8) ref = entry_marker" "run_decomp decomp (blob_of img) = Inr (Ran ref)"
      "run32 ''pages'' pages = Inr (Ran tables)" "0x6000 \<le> length tables" "check_tables tables = Inr []"
      "run64 ''idt'' idt = Inr (Ran (nm_out, Inr gates))" "sym_table nm_out = Inr syms" "check_idt syms gates = Inr []"
      "run64 ''report'' report = Inr (Ran (nm_out2, Inr out))" "sym_table nm_out2 = Inr syms2" "take (length report_want) out = report_want"
      "run32 ''fidt'' fidt = Inr (Ran fgates)" "512 \<le> length fgates" "check_fault_gates fgates [0..<32] = Inr []"
  proof -
    have c: "pages_case run32 (file_text stage2_lines) tmp = Inr (Ran [])" "idt_case run64 (file_text idt_lines) tmp = Inr (Ran [])"
      "fault_report_case run64 (file_text stage2_lines) tmp = Inr (Ran [])" "fault_gates_case run32 (file_text stage2_lines) tmp = Inr (Ran [])"
      using p(2-5) that(4-15)
      by (simp_all add: pages_case_def idt_case_def fault_report_case_def fault_gates_case_def bindR_def liftR_def check_report_def del: upt_Suc upt_rec_numeral)
    show ?thesis using that(1-3) p(1) c by (simp add: asmrun_def Let_def bindR_def)
  qed
  then show ?thesis using p by blast
qed

text \<open>A host on which everything is as it is meant to be: all stubs at address 0, and the gates, tables and report accordingly.\<close>

definition nm_line :: "nat \<Rightarrow> string" where
  "nm_line v = ''0 T '' @ stub_name v"

definition demo_nm :: string where
  "demo_nm = join_nl (map nm_line [0..<256])"

definition demo_run32 :: "string \<Rightarrow> string \<Rightarrow> bytes run res" where
  "demo_run32 name asm = Inr (Ran (if name = ''pages'' then identity_tables PAGE_PML4 else concat (map fault_gate [0..<32])))"

definition demo_run64 :: "string \<Rightarrow> string \<Rightarrow> (string \<times> bytes res) run res" where
  "demo_run64 name asm = Inr (Ran (demo_nm, Inr (if name = ''idt'' then concat (map (\<lambda>_. null_gate) [0..<256]) else report_want)))"

lemma dec_plain: "c \<in> set (dec n) \<Longrightarrow> \<not> is_ws c"
proof (induction n rule: dec.induct)
  case (1 n)
  have d: "\<not> is_ws (char_of (48 + k mod 10))" for k :: nat
  proof -
    define m where "m = k mod 10"
    have m: "m < 10" by (simp add: m_def)
    have "(of_char (char_of (48 + m) :: char) :: nat) = 48 + m" using m by simp
    then have "(of_char (char_of (48 + m) :: char) :: int) = int (48 + m)" by (metis of_nat_of_char)
    then show ?thesis using m unfolding is_ws_def Let_def m_def [symmetric] by simp
  qed
  show ?case
  proof (cases "n < 10")
    case True
    then show ?thesis using 1(2) d [of n] by (simp add: dec.simps [of n])
  next
    case False
    then show ?thesis using 1 d [of n] by (auto simp: dec.simps [of n])
  qed
qed

lemma stub_plain: "c \<in> set (stub_name v) \<Longrightarrow> \<not> is_ws c"
  using dec_plain by (auto simp: stub_name_def is_ws_def split: if_splits)

lemma split_word: "\<forall>c \<in> set w. \<not> is_ws c \<Longrightarrow> split_ws_acc acc w = (if rev w @ acc = [] then [] else [rev acc @ w])"
  by (induction w arbitrary: acc) auto

lemma nm_line_sym: "sym_line (nm_line v) syms = Inr (syms(stub_name v \<mapsto> 0))"
proof -
  have "stub_name v \<noteq> []" by (simp add: stub_name_def)
  then have "split_ws (nm_line v) = [''0'', ''T'', stub_name v]"
    using split_word [of "stub_name v" "[]"] stub_plain by (simp add: split_ws_def is_ws_def nm_line_def)
  moreover have "py_int16 ''0'' = Some 0" by code_simp
  ultimately show ?thesis by (simp add: sym_line_def)
qed

lemma sym_stubs: "\<exists>syms'. foldE sym_line (map nm_line vs) syms = Inr syms' \<and> (\<forall>n. syms' n = (if n \<in> stub_name ` set vs then Some 0 else syms n))"
proof (induction vs arbitrary: syms)
  case (Cons v vs)
  obtain syms' where "foldE sym_line (map nm_line vs) (syms(stub_name v \<mapsto> 0)) = Inr syms'"
    "\<forall>n. syms' n = (if n \<in> stub_name ` set vs then Some 0 else (syms(stub_name v \<mapsto> 0)) n)" using Cons.IH by blast
  then show ?case by (simp add: nm_line_sym)
qed simp

lemma demo_syms: "\<exists>syms. sym_table demo_nm = Inr syms \<and> (\<forall>v < 256. syms (stub_name v) = Some 0)"
proof -
  have "\<forall>l \<in> set (map nm_line [0..<256]). CHR 0x0A \<notin> set l"
    using stub_plain [of "CHR 0x0A"] by (auto simp: nm_line_def is_ws_def simp del: upt_Suc upt_rec_numeral)
  then have "split_nl demo_nm = map nm_line [0..<256]"
    unfolding demo_nm_def by (rule split_join_nl) (simp del: upt_Suc upt_rec_numeral)
  then show ?thesis using sym_stubs [of "[0..<256]" Map.empty] by (auto simp: sym_table_def simp del: upt_Suc upt_rec_numeral)
qed

theorem asmrun_complete_witness:
  "\<exists>img. asmrun demo_decomp demo_run32 demo_run64 (file_text stage2_lines) (file_text idt_lines) ''/tmp'' img = Inr 0"
proof -
  obtain img ref where i: "decompress (blob_of img) = Inr ref" "bslice QIZOK_HDR (QIZOK_HDR + 8) ref = entry_marker"
    using demo_image by blast
  obtain syms where s: "sym_table demo_nm = Inr syms" "\<forall>v < 256. syms (stub_name v) = Some 0" using demo_syms by blast
  have t: "length (identity_tables PAGE_PML4) = 0x6000" by (simp add: identity_tables_def length_concat_words words_nth(6))
  have p: "PAGE_PML4 mod 4096 = 0" "PAGE_PML4 + 0x6000 \<le> 2 ^ 32" by (simp_all add: PAGE_PML4_def)
  show ?thesis
    using asmrun_complete [of "''/tmp''" img ref demo_decomp demo_run32 "identity_tables PAGE_PML4" demo_run64 demo_nm
        "concat (map (\<lambda>_. null_gate) [0..<256])" syms demo_nm report_want syms "concat (map fault_gate [0..<32])"]
      i s t check_tables_ok(1) [OF p] null_gates_ok [of syms] fault_gates_ok fault_gates_length
    by (auto simp: demo_decomp_def demo_run32_def demo_run64_def simp del: upt_Suc upt_rec_numeral)
qed

end
