(* ===== verification/Spec2Isabelle.thy ===== *)
theory Spec2Isabelle
  imports Qizo_Bootinfo Qizo_Size Qizo_RepoAsm
begin

text \<open>
  \<^bold>\<open>A verification of the build tools of qizo.\<close> qizo is a small x86 system with a two-stage boot loader; its Python tools under
  \<^verbatim>\<open>src/tools\<close> pack the kernel, write the disk image and the ISO, check both, run the boot path in a model, test the boot
  assembly on the host and generate headers. This library models those tools and proves what they promise to each other:
  what one tool writes, the next one accepts and loads.

  \<^bold>\<open>The parts and their theories\<close>, in the order of dependence:

  \<^item> \<open>Qizo_Prelude\<close>: Python's exceptions as the datatype \<open>py_error\<close> in a result type, byte strings with Python's slices,
    \<^verbatim>\<open>struct\<close> formats, straight-line sequences of buffer writes (\<open>bstmt\<close>) and the interface \<open>byte_store\<close> of a byte memory.
  \<^item> \<open>Qizo_Lzss\<close> (\<^verbatim>\<open>common/qizolzss.py\<close>): checksum, match search, compressor, decompressor. The locale \<open>padded_codec\<close> is
    what the image tools rely on; \<open>lz\<close> interprets it on the codec.
  \<^item> \<open>Qizo_Layout\<close> (\<^verbatim>\<open>common/qizolayout.py\<close>, \<^verbatim>\<open>boot/qizoboot.inc\<close>): the parser run on the text of the include file, and the
    constants of the boot layout, each the lookup of its symbol, with the layout tests. A value Python's \<^verbatim>\<open>eval\<close> gives is an integer or
    not (\<open>pyval\<close>), since the tools fail on the latter.
  \<^item> \<open>Qizo_Artifacts\<close> (\<^verbatim>\<open>qizoartifacts/qizoartifacts.py\<close>): reading and writing files, running commands, the symbol table from
    \<^verbatim>\<open>nm\<close>, sizes and ratios as printed, with doubles modelled exactly.
  \<^item> \<open>Qizo_Fat\<close> and \<open>Qizo_Mkimg\<close> (\<^verbatim>\<open>mkqizoimg/mkqizoimg.py\<close>): planning the FAT volume, cluster allocation, directory, boot
    sector, image, and the whole command from the bytes of its inputs. The locales \<open>fat_table\<close> and \<open>fat_volume\<close> are interpreted
    on both table widths.
  \<^item> \<open>Qizo_CheckFs\<close>, \<open>Qizo_Check\<close> (\<^verbatim>\<open>qizocheck/qizocheck.py\<close>): the volume reader, the disassembly and descriptor checks, and the
    checker's \<^verbatim>\<open>main\<close> with every failure message as a \<open>verdict\<close>. What it means for a volume to hold a file, as paths through its
    table (\<open>fat_path\<close>, \<open>holds_file\<close>), is stated apart from the reader.
  \<^item> \<open>Qizo_Iso\<close> (\<^verbatim>\<open>mkqizoiso/mkqizoiso.py\<close> and \<^verbatim>\<open>check_iso\<close>): writer and reader of the ISO.
  \<^item> \<open>Qizo_Bootmodel\<close> (\<^verbatim>\<open>qizocheck/qizobootmodel.py\<close>): 64 MiB of memory, the BIOS disk read, both boot stages and the final
    checks; \<open>mm\<close> interprets \<open>byte_store\<close> on its memory. The read loop of stage1 is also the step relation \<open>dap_read\<close>.
  \<^item> \<open>Qizo_Asmrun\<close> (\<^verbatim>\<open>qizoasm/qizoasmrun.py\<close>): cutting and wrapping assembly routines, and the checks of the page tables and
    interrupt gates they leave.
  \<^item> \<open>Qizo_Font\<close> (\<^verbatim>\<open>common/qizofont.py\<close>, \<^verbatim>\<open>qizoartifacts/qizofontgen.py\<close>): glyphs, bitmaps, the printed picture
    of all glyphs and the emitted font files.
  \<^item> \<open>Qizo_Bootinfo\<close> (\<^verbatim>\<open>qizoartifacts/qizobootinfo.py\<close>): the generated C header, read back as packed structures.
  \<^item> \<open>Qizo_Size\<close> (\<^verbatim>\<open>ci/qizosize.py\<close>): the size gate of the build.
  \<^item> \<open>Qizo_Test\<close> (\<^verbatim>\<open>qizocheck/qizotest.py\<close>): the unit test driver.
  \<^item> \<open>Qizo_Sources\<close>: the texts of \<^verbatim>\<open>boot/stage1.S\<close>, \<^verbatim>\<open>boot/stage2.S\<close>, their linker scripts, \<^verbatim>\<open>kernel/main.c\<close>,
    \<^verbatim>\<open>kernel/boot64.S\<close> and \<^verbatim>\<open>kernel/idt.S\<close>, line by line, in pieces of about a hundred lines.
  \<^item> \<open>Qizo_Repo\<close> and \<open>Qizo_RepoAsm\<close>: the unit tests, the boot path model and the assembly runner on those texts. The texts are
    evaluated line by line (\<open>scan\<close>); lemmas carry what holds at every spot of every line over to the searches in the whole text.

  A definition has the name of the function it models where Isabelle allows it; a Python loop is a recursive function over the
  same variables, and every \<^verbatim>\<open>raise\<close>, failed \<^verbatim>\<open>struct\<close> call and index out of range is an \<open>Inl\<close> result.

  \<^bold>\<open>What is shown.\<close> The chain of the tools: an image built from a compressed kernel, when the inputs are within the limits
  the theorems name, passes the checker together with its ISO
  (\<open>mkqizoimg_checked\<close>, \<open>build_iso_checked\<close>) and boots in the model with the kernel byte for byte at its address
  (\<open>mkqizoimg_boots\<close>); what the checker accepts describes a consistent module whose kernel the volume holds (\<open>check_accepts\<close>) and boots
  (\<open>checked_image_boots\<close>); the assembly runner's success means agreement with the reference decompressor
  (\<open>asmrun_sound\<close>, \<open>blob_of_reference\<close>). On the repository's own sources: the copy offset of stage2 is found, so the two boot
  theorems speak of the real \<^verbatim>\<open>stage2.S\<close>; all unit tests pass (\<open>unit_tests_pass\<close>); every program of the assembly runner is built
  and correct outcomes are accepted (\<open>asmrun_complete\<close>). The loader as a machine (\<open>stage1_reads\<close>): an invariant of all reachable
  states, progress, and the exact number of reads. The codec: round trip, longest match, bounds on both sizes, shrinking of repetitive input,
  and a checksum that notices every single-byte change. The volume: plans partition the image, table updates are array updates
  in both widths, files get disjoint chains. The processor structures: page tables that pass the check are the identity below
  4 GiB in a four-level walk, gates point at their stubs. The generated files: the bootinfo header places every field at its
  offset, the font files show the glyphs of the table. The unit tests and the size gate: exactly when they succeed.
  Some theorems record defects: \<open>fat12_plan_undersized\<close>, \<open>boot_sector_total\<close>, \<open>psf1_raises\<close>, the last part of \<open>size_gate_exact\<close> (the
  kernel budget of the documentation is not that of the code), \<open>emit_outcome\<close> (values that are no integers), the lemma
  \<open>transition_accepts_add\<close>, and the exceptions in \<open>build_iso_checked\<close>, \<open>stage1_span\<close> and \<open>emit_psf1_slots\<close>.

  \<^bold>\<open>Parameters and bounds.\<close> Python's \<^verbatim>\<open>eval\<close>, the host's assembler, linker and programs, the output of \<^verbatim>\<open>nm\<close>,
  \<^verbatim>\<open>objdump\<close> and \<^verbatim>\<open>size\<close>, the numbers drawn by seeded generators, the file system and the texts of assembly sources are
  arguments of the definitions that use them; the texts are then instantiated with those of the repository, and of \<^verbatim>\<open>eval\<close>
  only that a name evaluates to its value is assumed. No definition uses fuel: every loop is a total function with a measure, the
  checker's cluster walk with the bound of 100000 steps the source has. Lengths below 4 GiB are assumed where the formats
  have 32-bit fields.

  \<^bold>\<open>Not modelled\<close>: \<^verbatim>\<open>argparse\<close>, printed progress lines, and what the external programs do; the boot
  loader and kernel as programs, which are assembly and C and are seen through the bytes and texts the tools read.
\<close>

end
